(* ===== verification/Prelude.thy ===== *)
theory Prelude
  imports Main "HOL-Library.AList" "HOL-Library.List_Lexorder" "HOL-Library.Char_ord"
    "HOL-Library.Code_Target_Nat"
begin

section \<open>Shared vocabulary: JavaScript strings, objects, and stateful operations\<close>

text \<open>
  What every component theory builds on.

  \<^item> JavaScript strings are char lists; a \<^typ>\<open>char\<close> is one UTF-16 code unit below 256.
    The string methods the sources use (\<open>split\<close>, \<open>join\<close>, \<open>indexOf\<close>, \<open>toLowerCase\<close>, \<open>trim\<close>,
    \<open>parseInt\<close>, \<open>toString\<close>) are the functions of the first section.
  \<^item> A plain object and a \<open>Map\<close> are association lists in insertion order: writing an existing
    key keeps its place, a new key goes last, as in JavaScript. Only own properties are
    modelled.
  \<^item> An operation that may throw and that changes state is a function from the state to its
    outcome and the next state. A throw keeps the state changes made before it.
\<close>

named_theorems js_str \<open>rewrite rules for the string functions\<close>
named_theorems js_obj \<open>rewrite rules for objects as association lists\<close>
named_theorems run_simps \<open>rules that run stateful operations\<close>
named_theorems keeps_intros \<open>rules that build invariance proofs of stateful operations\<close>

subsection \<open>Characters and strings\<close>

abbreviation code :: "char \<Rightarrow> nat" where
  "code c \<equiv> of_char c"

definition is_digit :: "char \<Rightarrow> bool" where
  "is_digit c \<longleftrightarrow> 48 \<le> code c \<and> code c \<le> 57"

definition is_octal :: "char \<Rightarrow> bool" where
  "is_octal c \<longleftrightarrow> 48 \<le> code c \<and> code c \<le> 55"

definition is_lower :: "char \<Rightarrow> bool" where
  "is_lower c \<longleftrightarrow> 97 \<le> code c \<and> code c \<le> 122"

definition is_upper :: "char \<Rightarrow> bool" where
  "is_upper c \<longleftrightarrow> 65 \<le> code c \<and> code c \<le> 90"

definition is_alpha :: "char \<Rightarrow> bool" where
  "is_alpha c \<longleftrightarrow> is_lower c \<or> is_upper c"

definition is_hex_lower :: "char \<Rightarrow> bool" where
  "is_hex_lower c \<longleftrightarrow> is_digit c \<or> (97 \<le> code c \<and> code c \<le> 102)"

definition is_hex :: "char \<Rightarrow> bool" where
  "is_hex c \<longleftrightarrow> is_hex_lower c \<or> (65 \<le> code c \<and> code c \<le> 70)"

text \<open>\<open>toLowerCase\<close> on code units below 256.\<close>

definition lower_char :: "char \<Rightarrow> char" where
  "lower_char c = (if is_upper c \<or> (192 \<le> code c \<and> code c \<le> 222 \<and> code c \<noteq> 215)
                   then char_of (code c + 32) else c)"

definition to_lower :: "string \<Rightarrow> string" where
  "to_lower s = map lower_char s"

text \<open>\<open>trim\<close> on code units below 256: the white space and line terminators among them.\<close>

definition is_space :: "char \<Rightarrow> bool" where
  "is_space c \<longleftrightarrow> (9 \<le> code c \<and> code c \<le> 13) \<or> code c = 32 \<or> code c = 160"

definition js_trim :: "string \<Rightarrow> string" where
  "js_trim s = rev (dropWhile is_space (rev (dropWhile is_space s)))"

definition starts_with :: "string \<Rightarrow> string \<Rightarrow> bool" where
  "starts_with p s \<longleftrightarrow> take (length p) s = p"

fun split_on :: "char \<Rightarrow> string \<Rightarrow> string list" where
  "split_on c [] = [[]]"
| "split_on c (x # xs) =
     (if x = c then [] # split_on c xs
      else (case split_on c xs of [] \<Rightarrow> [[x]] | p # ps \<Rightarrow> (x # p) # ps))"

fun join_with :: "string \<Rightarrow> string list \<Rightarrow> string" where
  "join_with sep [] = []"
| "join_with sep [x] = x"
| "join_with sep (x # y # xs) = x @ sep @ join_with sep (y # xs)"

fun index_of :: "char \<Rightarrow> string \<Rightarrow> nat option" where
  "index_of c [] = None"
| "index_of c (x # xs) = (if x = c then Some 0 else map_option Suc (index_of c xs))"

subsection \<open>Numbers as text\<close>

fun digits_of :: "nat \<Rightarrow> nat \<Rightarrow> nat list" where
  "digits_of b n = (if b < 2 \<or> n < b then [n] else digits_of b (n div b) @ [n mod b])"

declare digits_of.simps [simp del]

definition digit_char :: "nat \<Rightarrow> char" where
  "digit_char d = (if d < 10 then char_of (48 + d) else char_of (87 + d))"

definition digit_val :: "char \<Rightarrow> nat" where
  "digit_val c =
     (if is_digit c then code c - 48
      else if 97 \<le> code c \<and> code c \<le> 122 then code c - 87
      else code c - 55)"

definition show_base :: "nat \<Rightarrow> nat \<Rightarrow> string" where
  "show_base b n = map digit_char (digits_of b n)"

definition parse_base :: "nat \<Rightarrow> string \<Rightarrow> nat" where
  "parse_base b s = foldl (\<lambda>n c. n * b + digit_val c) 0 s"

abbreviation show_nat :: "nat \<Rightarrow> string" where
  "show_nat \<equiv> show_base 10"

definition show_int :: "int \<Rightarrow> string" where
  "show_int i = (if i < 0 then ''-'' @ show_nat (nat (- i)) else show_nat (nat i))"

subsection \<open>Checks that may fail\<close>

definition bindE :: "'e + 'a \<Rightarrow> ('a \<Rightarrow> 'e + 'b) \<Rightarrow> 'e + 'b" where
  "bindE m f = (case m of Inl e \<Rightarrow> Inl e | Inr a \<Rightarrow> f a)"

definition requireE :: "bool \<Rightarrow> 'e \<Rightarrow> 'e + unit" where
  "requireE b e = (if b then Inr () else Inl e)"

lemma bindE_Inr [simp]: "bindE m f = Inr b \<longleftrightarrow> (\<exists>a. m = Inr a \<and> f a = Inr b)"
  by (cases m) (simp_all add: bindE_def)

lemma bindE_simps [simp]: "bindE (Inr a) f = f a" "bindE (Inl e) f = Inl e"
  by (simp_all add: bindE_def)

lemma requireE_Inr [simp]: "requireE b e = Inr u \<longleftrightarrow> b"
  by (simp add: requireE_def)

lemma requireE_True [simp]: "requireE True e = Inr ()"
  by (simp add: requireE_def)

subsection \<open>Objects and maps\<close>

type_synonym ('k, 'v) obj = "('k \<times> 'v) list"

abbreviation oset :: "'k \<Rightarrow> 'v \<Rightarrow> ('k, 'v) obj \<Rightarrow> ('k, 'v) obj" where
  "oset \<equiv> AList.update"

abbreviation odel :: "'k \<Rightarrow> ('k, 'v) obj \<Rightarrow> ('k, 'v) obj" where
  "odel \<equiv> AList.delete"

abbreviation okeys :: "('k, 'v) obj \<Rightarrow> 'k list" where
  "okeys o1 \<equiv> map fst o1"

text \<open>\<open>{ ...a, ...b }\<close>: the entries of \<open>b\<close> written over \<open>a\<close>, in order.\<close>

definition ospread :: "('k, 'v) obj \<Rightarrow> ('k, 'v) obj \<Rightarrow> ('k, 'v) obj" where
  "ospread a b = fold (\<lambda>(k, v). oset k v) b a"

text \<open>The elements of a \<open>Set\<close> built from a list: in order of first occurrence.\<close>

definition js_set :: "'a list \<Rightarrow> 'a list" where
  "js_set xs = fold (\<lambda>x acc. if x \<in> set acc then acc else acc @ [x]) xs []"

definition wf_obj :: "('k, 'v) obj \<Rightarrow> bool" where
  "wf_obj x \<longleftrightarrow> distinct (okeys x)"

subsection \<open>Stateful operations that may throw\<close>

type_synonym ('s, 'e, 'a) op = "'s \<Rightarrow> ('e + 'a) \<times> 's"

definition ret :: "'a \<Rightarrow> ('s, 'e, 'a) op" where
  "ret a s = (Inr a, s)"

definition throw :: "'e \<Rightarrow> ('s, 'e, 'a) op" where
  "throw e s = (Inl e, s)"

definition andThen :: "('s, 'e, 'a) op \<Rightarrow> ('a \<Rightarrow> ('s, 'e, 'b) op) \<Rightarrow> ('s, 'e, 'b) op" where
  "andThen m f s = (case m s of (Inl e, s') \<Rightarrow> (Inl e, s') | (Inr a, s') \<Rightarrow> f a s')"

definition reads :: "('s \<Rightarrow> 'a) \<Rightarrow> ('s, 'e, 'a) op" where
  "reads f s = (Inr (f s), s)"

definition modifies :: "('s \<Rightarrow> 's) \<Rightarrow> ('s, 'e, unit) op" where
  "modifies f s = (Inr (), f s)"

definition unlessE :: "bool \<Rightarrow> 'e \<Rightarrow> ('s, 'e, unit) op" where
  "unlessE b e = (if b then ret () else throw e)"

definition whenM :: "bool \<Rightarrow> ('s, 'e, unit) op \<Rightarrow> ('s, 'e, unit) op" where
  "whenM b m = (if b then m else ret ())"

text \<open>\<open>try { m } finally { g }\<close>, for a \<open>g\<close> that does not throw.\<close>

definition finallyM :: "('s, 'e, 'a) op \<Rightarrow> ('s \<Rightarrow> 's) \<Rightarrow> ('s, 'e, 'a) op" where
  "finallyM m g s = (case m s of (r, s') \<Rightarrow> (r, g s'))"

fun forM :: "'a list \<Rightarrow> ('a \<Rightarrow> ('s, 'e, unit) op) \<Rightarrow> ('s, 'e, unit) op" where
  "forM [] f = ret ()"
| "forM (x # xs) f = andThen (f x) (\<lambda>_. forM xs f)"

definition keeps :: "('s \<Rightarrow> bool) \<Rightarrow> ('s, 'e, 'a) op \<Rightarrow> bool" where
  "keeps P m \<longleftrightarrow> (\<forall>s. P s \<longrightarrow> P (snd (m s)))"



subsection \<open>Lemmas on characters and strings\<close>

lemma code_lt [simp]: "code c < 256"
  by (metis mod_less_divisor of_char_mod_256 zero_less_numeral)

lemmas char_class_defs =
  is_digit_def is_octal_def is_lower_def is_upper_def is_alpha_def is_hex_lower_def is_hex_def

lemma code_eq_iff: "code c = code d \<longleftrightarrow> c = d"
  by simp

lemma is_digit_hex_lower: "is_digit c \<Longrightarrow> is_hex_lower c"
  by (simp add: is_hex_lower_def)

lemma lower_char_same: "code c < 65 \<or> (90 < code c \<and> code c < 192) \<Longrightarrow> lower_char c = c"
  by (auto simp: lower_char_def is_upper_def)

lemma lower_char_idem [simp]: "lower_char (lower_char c) = lower_char c"
  using code_lt [of c] by (auto simp: lower_char_def is_upper_def)

lemma lower_char_hex_lower [simp]: "is_hex_lower c \<Longrightarrow> lower_char c = c"
  by (rule lower_char_same) (auto simp: char_class_defs)

lemma to_lower_idem [simp]: "to_lower (to_lower s) = to_lower s"
  by (simp add: to_lower_def)

lemma to_lower_Nil [simp]: "to_lower [] = []"
  by (simp add: to_lower_def)

lemma to_lower_append [simp]: "to_lower (s @ t) = to_lower s @ to_lower t"
  by (simp add: to_lower_def)

lemma to_lower_eq_Nil [simp]: "to_lower s = [] \<longleftrightarrow> s = []"
  by (simp add: to_lower_def)

lemma to_lower_same: "(\<And>c. c \<in> set s \<Longrightarrow> lower_char c = c) \<Longrightarrow> to_lower s = s"
  by (simp add: to_lower_def map_idI)

lemma to_lower_fixed_char: "to_lower s = s \<Longrightarrow> c \<in> set s \<Longrightarrow> lower_char c = c"
  by (metis (no_types, lifting) in_set_conv_nth nth_map to_lower_def)

lemma split_on_not_Nil [simp]: "split_on c s \<noteq> []"
  by (induction s) (auto split: list.splits)

lemma split_on_absent [js_str]: "c \<notin> set s \<Longrightarrow> split_on c s = [s]"
  by (induction s) auto

lemma split_on_append [js_str]: "c \<notin> set s \<Longrightarrow> split_on c (s @ c # t) = s # split_on c t"
  by (induction s) auto

lemma split_join [js_str]:
  "ps \<noteq> [] \<Longrightarrow> (\<And>p. p \<in> set ps \<Longrightarrow> c \<notin> set p) \<Longrightarrow> split_on c (join_with [c] ps) = ps"
  by (induction "[c]" ps rule: join_with.induct) (auto simp: js_str)

lemma join_split [js_str]: "join_with [c] (split_on c s) = s"
proof (induction s)
  case (Cons x s)
  obtain p ps where "split_on c s = p # ps"
    by (cases "split_on c s") auto
  with Cons show ?case by (cases ps) auto
qed simp

lemma split_on_parts: "p \<in> set (split_on c s) \<Longrightarrow> c \<notin> set p \<and> set p \<subseteq> set s"
  by (induction s arbitrary: p) (fastforce split: if_splits list.splits)+

lemma set_join_with: "set (join_with sep ps) \<subseteq> set sep \<union> (\<Union>p \<in> set ps. set p)"
  by (induction sep ps rule: join_with.induct) auto

lemma join_with_eq_Nil: "ps \<noteq> [] \<Longrightarrow> (\<And>p. p \<in> set ps \<Longrightarrow> p \<noteq> []) \<Longrightarrow> join_with sep ps \<noteq> []"
  by (induction sep ps rule: join_with.induct) auto

lemma index_of_None [js_str]: "index_of c s = None \<longleftrightarrow> c \<notin> set s"
  by (induction s) auto

lemma index_of_append [js_str]: "c \<notin> set s \<Longrightarrow> index_of c (s @ c # t) = Some (length s)"
  by (induction s) auto

lemma index_of_SomeD: "index_of c s = Some i \<Longrightarrow> s = take i s @ c # drop (Suc i) s \<and> c \<notin> set (take i s)"
proof (induction s arbitrary: i)
  case (Cons x s)
  then show ?case by (cases i) (auto split: if_splits)
qed simp

lemma starts_with_append [simp]: "starts_with p (p @ s)"
  by (simp add: starts_with_def)

lemma starts_with_iff: "starts_with p s \<longleftrightarrow> (\<exists>t. s = p @ t)"
  by (metis append_eq_conv_conj append_take_drop_id starts_with_def)

subsection \<open>Lemmas on numerals\<close>

lemma digits_of_not_Nil [simp]: "digits_of b n \<noteq> []"
  by (subst digits_of.simps) simp

lemma digits_of_small: "n < b \<Longrightarrow> digits_of b n = [n]"
  by (subst digits_of.simps) simp

lemma digits_of_lt: "2 \<le> b \<Longrightarrow> d \<in> set (digits_of b n) \<Longrightarrow> d < b"
proof (induction b n arbitrary: d rule: digits_of.induct)
  case (1 b n)
  then show ?case by (subst (asm) (2) digits_of.simps) (auto split: if_splits)
qed

lemma digits_of_value: "2 \<le> b \<Longrightarrow> foldl (\<lambda>n d. n * b + d) 0 (digits_of b n) = n"
proof (induction b n rule: digits_of.induct)
  case (1 b n)
  then show ?case by (subst digits_of.simps) (auto simp: div_mult_mod_eq)
qed

lemma digits_of_hd_pos: "2 \<le> b \<Longrightarrow> 0 < n \<Longrightarrow> 0 < hd (digits_of b n)"
proof (induction b n rule: digits_of.induct)
  case (1 b n)
  then show ?case
    by (subst digits_of.simps) (auto simp: div_greater_zero_iff)
qed

lemma digits_of_length: "2 \<le> b \<Longrightarrow> n < b ^ Suc k \<Longrightarrow> length (digits_of b n) \<le> Suc k"
proof (induction k arbitrary: n)
  case 0
  then show ?case by (simp add: digits_of_small)
next
  case (Suc k)
  show ?case
  proof (cases "n < b")
    case False
    from Suc.prems have "n div b < b ^ Suc k"
      by (simp add: less_mult_imp_div_less mult.commute)
    with Suc have "length (digits_of b (n div b)) \<le> Suc k" by simp
    with False Suc.prems show ?thesis by (subst digits_of.simps) simp
  qed (simp add: digits_of_small)
qed

lemma code_digit_char: "d < 16 \<Longrightarrow> code (digit_char d) = (if d < 10 then 48 + d else 87 + d)"
  by (simp add: digit_char_def)

lemma digit_val_char: "d < 16 \<Longrightarrow> digit_val (digit_char d) = d"
  by (simp add: digit_val_def is_digit_def code_digit_char)

lemma is_hex_lower_digit_char: "d < 16 \<Longrightarrow> is_hex_lower (digit_char d)"
  by (simp add: code_digit_char char_class_defs)

lemma is_digit_digit_char: "d < 10 \<Longrightarrow> is_digit (digit_char d)"
  by (simp add: code_digit_char char_class_defs)

lemma show_base_not_Nil [simp]: "show_base b n \<noteq> []"
  by (simp add: show_base_def)

lemma parse_show_base: assumes "2 \<le> b" "b \<le> 16" shows "parse_base b (show_base b n) = n"
proof -
  have "foldl (\<lambda>n c. n * b + digit_val c) a (map digit_char ds) = foldl (\<lambda>n d. n * b + d) a ds"
    if "\<forall>d \<in> set ds. d < 16" for a ds
    using that by (induction ds arbitrary: a) (auto simp: digit_val_char)
  moreover have "\<forall>d \<in> set (digits_of b n). d < 16"
    using assms digits_of_lt [of b] by fastforce
  ultimately show ?thesis
    using assms by (simp add: parse_base_def show_base_def digits_of_value)
qed

lemma show_nat_digits: "c \<in> set (show_nat n) \<Longrightarrow> is_digit c"
  using digits_of_lt [of 10 _ n] by (auto simp: show_base_def is_digit_digit_char)

lemma show_hex_digits: "c \<in> set (show_base 16 n) \<Longrightarrow> is_hex_lower c"
  using digits_of_lt [of 16 _ n] by (auto simp: show_base_def is_hex_lower_digit_char)

lemma hd_show_nat: "0 < n \<Longrightarrow> hd (show_nat n) \<noteq> CHR ''0''"
proof
  assume n: "0 < n" and eq: "hd (show_nat n) = CHR ''0''"
  have h: "0 < hd (digits_of 10 n)" "hd (digits_of 10 n) < 10"
    using n digits_of_hd_pos [of 10 n] digits_of_lt [of 10 "hd (digits_of 10 n)" n] by auto
  from eq have "code (digit_char (hd (digits_of 10 n))) = code (CHR ''0'')"
    by (simp add: show_base_def hd_map)
  with h show False by (simp add: code_digit_char)
qed

lemma show_nat_zero [simp]: "show_nat 0 = ''0''"
proof -
  have "digit_char 0 = CHR ''0''"
    by (rule of_char_eqI [where 'a = nat]) (simp add: code_digit_char)
  then show ?thesis by (simp add: show_base_def digits_of_small)
qed

lemma show_base_inj: "2 \<le> b \<Longrightarrow> b \<le> 16 \<Longrightarrow> show_base b m = show_base b n \<longleftrightarrow> m = n"
  by (metis parse_show_base)

lemma show_nat_inj: "show_nat m = show_nat n \<longleftrightarrow> m = n"
  by (simp add: show_base_inj)

lemma show_nat_no_minus: "show_nat n \<noteq> CHR ''-'' # s"
  using show_nat_digits [of "CHR ''-''" n] by (auto simp: is_digit_def)

lemma show_int_inj: "show_int i = show_int j \<longleftrightarrow> i = j"
  by (auto simp: show_int_def show_nat_inj show_nat_no_minus show_nat_no_minus [symmetric])

subsection \<open>Lemmas on objects\<close>

lemma ospread_Nil [simp]: "ospread a [] = a"
  by (simp add: ospread_def)

lemma ospread_Cons [simp]: "ospread a ((k, v) # b) = ospread (oset k v a) b"
  by (simp add: ospread_def)

lemma map_of_oset [js_obj, simp]: "map_of (oset k v a) = (map_of a)(k \<mapsto> v)"
  by (rule update_conv')

lemma map_of_odel [js_obj, simp]: "map_of (odel k a) = (map_of a)(k := None)"
  by (rule delete_conv')

lemma map_of_rev: "distinct (okeys b) \<Longrightarrow> map_of (rev b) = map_of b"
proof (induction b)
  case (Cons p b)
  obtain k v where p: "p = (k, v)" by (cases p)
  from Cons.prems p have "map_of b k = None"
    by (simp add: map_of_eq_None_iff)
  with Cons p show ?case by (auto simp: map_add_def fun_eq_iff split: option.splits)
qed simp

lemma map_of_ospread_rev: "map_of (ospread a b) = map_of a ++ map_of (rev b)"
  by (induction b arbitrary: a) (auto simp: map_add_def fun_eq_iff split: option.splits)

lemma map_of_ospread [js_obj]: "wf_obj b \<Longrightarrow> map_of (ospread a b) = map_of a ++ map_of b"
  by (simp add: map_of_ospread_rev map_of_rev wf_obj_def)

lemma wf_obj_Nil [simp]: "wf_obj []"
  by (simp add: wf_obj_def)

lemma wf_obj_oset [simp]: "wf_obj a \<Longrightarrow> wf_obj (oset k v a)"
  by (simp add: wf_obj_def distinct_update)

lemma wf_obj_odel [simp]: "wf_obj a \<Longrightarrow> wf_obj (odel k a)"
  by (simp add: wf_obj_def distinct_delete)

lemma wf_obj_ospread [simp]: "wf_obj a \<Longrightarrow> wf_obj (ospread a b)"
  by (induction b arbitrary: a) auto

lemma map_of_eq_Nil: "map_of x = Map.empty \<longleftrightarrow> x = []"
  by (cases x) (auto dest: fun_cong)

lemma wf_obj_filter: "wf_obj xs \<Longrightarrow> wf_obj (filter P xs)"
  by (simp add: wf_obj_def distinct_map_filter)

lemma map_of_in_okeys: "map_of x k = Some v \<Longrightarrow> k \<in> set (okeys x)"
  by (force dest: map_of_SomeD simp: image_iff)

lemma okeys_map_of: "k \<in> set (okeys x) \<longleftrightarrow> map_of x k \<noteq> None"
  by (simp add: map_of_eq_None_iff)

lemma js_set_fold:
  "distinct acc \<Longrightarrow> distinct (fold (\<lambda>x a. if x \<in> set a then a else a @ [x]) xs acc)
    \<and> set (fold (\<lambda>x a. if x \<in> set a then a else a @ [x]) xs acc) = set acc \<union> set xs"
  by (induction xs arbitrary: acc) auto

lemma set_js_set [simp]: "set (js_set xs) = set xs"
  and distinct_js_set [simp]: "distinct (js_set xs)"
  using js_set_fold [of "[]" xs] by (simp_all add: js_set_def)

subsection \<open>Rules for stateful operations\<close>

lemma andThen_ret [run_simps, simp]: "andThen (ret a) f = f a"
  by (simp add: andThen_def ret_def fun_eq_iff)

lemma andThen_throw [run_simps, simp]: "andThen (throw e) f = throw e"
  by (simp add: andThen_def throw_def fun_eq_iff)

lemma andThen_assoc: "andThen (andThen m f) g = andThen m (\<lambda>a. andThen (f a) g)"
  by (simp add: andThen_def fun_eq_iff split: prod.splits sum.splits)

lemma andThen_reads [run_simps]: "andThen (reads f) g s = g (f s) s"
  by (simp add: andThen_def reads_def)

lemma andThen_modifies [run_simps]: "andThen (modifies f) g s = g () (f s)"
  by (simp add: andThen_def modifies_def)

lemma andThen_unlessE [run_simps]: "andThen (unlessE b e) g = (if b then g () else throw e)"
  by (simp add: unlessE_def)

lemma ret_apply [run_simps]: "ret a s = (Inr a, s)"
  by (simp add: ret_def)

lemma throw_apply [run_simps]: "throw e s = (Inl e, s)"
  by (simp add: throw_def)

lemma reads_apply [run_simps]: "reads f s = (Inr (f s), s)"
  by (simp add: reads_def)

lemma modifies_apply [run_simps]: "modifies f s = (Inr (), f s)"
  by (simp add: modifies_def)

lemma andThen_Inr: "m s = (Inr a, s') \<Longrightarrow> andThen m f s = f a s'"
  by (simp add: andThen_def)

lemma andThen_Inl: "m s = (Inl e, s') \<Longrightarrow> andThen m f s = (Inl e, s')"
  by (simp add: andThen_def)

lemma andThen_InrE:
  assumes "andThen m f s = (Inr b, t)"
  obtains a s' where "m s = (Inr a, s')" "f a s' = (Inr b, t)"
  using assms by (auto simp: andThen_def split: prod.splits sum.splits)

lemma keepsD: "keeps P m \<Longrightarrow> P s \<Longrightarrow> P (snd (m s))"
  by (simp add: keeps_def)

lemma keeps_ret [keeps_intros]: "keeps P (ret a)"
  by (simp add: keeps_def ret_def)

lemma keeps_throw [keeps_intros]: "keeps P (throw e)"
  by (simp add: keeps_def throw_def)

lemma keeps_reads [keeps_intros]: "keeps P (reads f)"
  by (simp add: keeps_def reads_def)

lemma keeps_modifies: "(\<And>s. P s \<Longrightarrow> P (f s)) \<Longrightarrow> keeps P (modifies f)"
  by (simp add: keeps_def modifies_def)

lemma keeps_unlessE [keeps_intros]: "keeps P (unlessE b e)"
  by (simp add: unlessE_def keeps_intros)

lemma keeps_andThen [keeps_intros]:
  "keeps P m \<Longrightarrow> (\<And>a. keeps P (f a)) \<Longrightarrow> keeps P (andThen m f)"
  unfolding keeps_def andThen_def by (force split: prod.splits sum.splits)

lemma keeps_whenM [keeps_intros]: "(b \<Longrightarrow> keeps P m) \<Longrightarrow> keeps P (whenM b m)"
  by (auto simp: whenM_def keeps_intros)

lemma keeps_if [keeps_intros]:
  "(b \<Longrightarrow> keeps P m) \<Longrightarrow> (\<not> b \<Longrightarrow> keeps P n) \<Longrightarrow> keeps P (if b then m else n)"
  by simp

lemma keeps_finallyM [keeps_intros]:
  "keeps P m \<Longrightarrow> (\<And>s. P s \<Longrightarrow> P (g s)) \<Longrightarrow> keeps P (finallyM m g)"
  unfolding keeps_def finallyM_def by (force split: prod.splits)

lemma keeps_forM [keeps_intros]: "(\<And>x. keeps P (f x)) \<Longrightarrow> keeps P (forM xs f)"
  by (induction xs) (auto intro: keeps_intros)

end
