(* ===== verification/Storage.thy ===== *)
theory Storage
  imports Prelude
begin

section \<open>The storage port, the in-memory store and namespaced views\<close>

text \<open>
  \<^verbatim>\<open>packages/sdk/src/storage\<close>: the \<open>KeyValueStore\<close> interface as the locale \<open>kv_store\<close>,
  \<open>MemoryStore\<close> (its entries, its listeners and the notifications they heard) and
  \<open>namespaced\<close>, a view of any store. Stored values are JSON, so the deep clone of
  \<open>memory.ts\<close> is the identity on the model's values. The locale is interpreted on
  \<open>MemoryStore\<close> and on every namespaced view of one.
\<close>

subsection \<open>The interface\<close>

locale kv_store =
  fixes get :: "'s \<Rightarrow> string \<Rightarrow> 'v option"
    and put :: "string \<Rightarrow> 'v \<Rightarrow> 's \<Rightarrow> 's"
    and del :: "string \<Rightarrow> 's \<Rightarrow> 's"
    and listing :: "'s \<Rightarrow> string list"
  assumes get_put: "get (put k v s) j = (if j = k then Some v else get s j)"
    and get_del: "get (del k s) j = (if j = k then None else get s j)"
    and listing_get: "k \<in> set (listing s) \<longleftrightarrow> get s k \<noteq> None"
begin

lemma get_put_same [simp]: "get (put k v s) k = Some v"
  by (simp add: get_put)

lemma get_put_other [simp]: "j \<noteq> k \<Longrightarrow> get (put k v s) j = get s j"
  by (simp add: get_put)

lemma get_del_same [simp]: "get (del k s) k = None"
  by (simp add: get_del)

lemma put_overwrites: "get (put k w (put k v s)) = get (put k w s)"
  by (simp add: fun_eq_iff get_put)

lemma put_commutes: "j \<noteq> k \<Longrightarrow> get (put j w (put k v s)) = get (put k v (put j w s))"
  by (auto simp: fun_eq_iff get_put)

lemma del_put: "get s k = None \<Longrightarrow> get (del k (put k v s)) = get s"
  by (auto simp: fun_eq_iff get_put get_del)

lemma listing_put: "set (listing (put k v s)) = insert k (set (listing s))"
  by (auto simp: listing_get get_put split: if_splits)

lemma listing_del: "set (listing (del k s)) = set (listing s) - {k}"
  by (auto simp: listing_get get_del split: if_splits)

end

subsection \<open>MemoryStore\<close>

record 'v memory_store =
  entries :: "(string, 'v) obj"
  listeners :: "nat list"
  heard :: "(nat \<times> string) list"

definition MemoryStore :: "(string, 'v) obj \<Rightarrow> 'v memory_store" where
  "MemoryStore seed =
     \<lparr>entries = fold (\<lambda>(k, v). oset k v) seed [], listeners = [], heard = []\<rparr>"

definition mem_notify :: "string \<Rightarrow> 'v memory_store \<Rightarrow> 'v memory_store" where
  "mem_notify key m = m\<lparr>heard := heard m @ map (\<lambda>l. (l, key)) (listeners m)\<rparr>"

definition mem_get :: "'v memory_store \<Rightarrow> string \<Rightarrow> 'v option" where
  "mem_get m key = map_of (entries m) key"

definition mem_set :: "string \<Rightarrow> 'v \<Rightarrow> 'v memory_store \<Rightarrow> 'v memory_store" where
  "mem_set key v m = mem_notify key (m\<lparr>entries := oset key v (entries m)\<rparr>)"

definition mem_remove :: "string \<Rightarrow> 'v memory_store \<Rightarrow> 'v memory_store" where
  "mem_remove key m =
     (if map_of (entries m) key \<noteq> None
      then mem_notify key (m\<lparr>entries := odel key (entries m)\<rparr>) else m)"

definition mem_keys :: "'v memory_store \<Rightarrow> string list" where
  "mem_keys m = okeys (entries m)"

definition mem_subscribe :: "nat \<Rightarrow> 'v memory_store \<Rightarrow> 'v memory_store" where
  "mem_subscribe l m = m\<lparr>listeners := (if l \<in> set (listeners m) then listeners m else listeners m @ [l])\<rparr>"

definition mem_unsubscribe :: "nat \<Rightarrow> 'v memory_store \<Rightarrow> 'v memory_store" where
  "mem_unsubscribe l m = m\<lparr>listeners := filter (\<lambda>x. x \<noteq> l) (listeners m)\<rparr>"

interpretation mem: kv_store mem_get mem_set mem_remove mem_keys
proof
  fix k j :: string and v :: 'a and s :: "'a memory_store"
  show "mem_get (mem_set k v s) j = (if j = k then Some v else mem_get s j)"
    by (simp add: mem_get_def mem_set_def mem_notify_def)
  show "mem_get (mem_remove k s) j = (if j = k then None else mem_get s j)"
    by (auto simp: mem_get_def mem_remove_def mem_notify_def)
  show "k \<in> set (mem_keys s) \<longleftrightarrow> mem_get s k \<noteq> None"
    by (simp add: mem_keys_def mem_get_def map_of_eq_None_iff)
qed

lemma mem_get_MemoryStore: "mem_get (MemoryStore seed) = map_of (rev seed)"
  using map_of_ospread_rev [of "[]" seed]
  by (simp add: mem_get_def MemoryStore_def ospread_def fun_eq_iff)

lemma heard_mem_remove_absent: "mem_get m k = None \<Longrightarrow> mem_remove k m = m"
  by (simp add: mem_get_def mem_remove_def)

subsection \<open>Namespaced views\<close>

definition replace_all :: "char \<Rightarrow> string \<Rightarrow> string \<Rightarrow> string" where
  "replace_all c r s = concat (map (\<lambda>x. if x = c then r else [x]) s)"

definition escapePrefix :: "string \<Rightarrow> string" where
  "escapePrefix prefix = replace_all CHR '':'' ''%3A'' (replace_all CHR ''%'' ''%25'' prefix)"

definition scoped :: "string \<Rightarrow> string \<Rightarrow> string" where
  "scoped prefix key = (escapePrefix prefix @ '':'') @ key"

definition unscoped :: "string \<Rightarrow> string \<Rightarrow> string option" where
  "unscoped prefix key =
     (let full = escapePrefix prefix @ '':''
      in if starts_with full key then Some (drop (length full) key) else None)"

definition ns_get :: "('s \<Rightarrow> string \<Rightarrow> 'v option) \<Rightarrow> string \<Rightarrow> 's \<Rightarrow> string \<Rightarrow> 'v option" where
  "ns_get get prefix s key = get s (scoped prefix key)"

definition ns_set :: "(string \<Rightarrow> 'v \<Rightarrow> 's \<Rightarrow> 's) \<Rightarrow> string \<Rightarrow> string \<Rightarrow> 'v \<Rightarrow> 's \<Rightarrow> 's" where
  "ns_set put prefix key v s = put (scoped prefix key) v s"

definition ns_remove :: "(string \<Rightarrow> 's \<Rightarrow> 's) \<Rightarrow> string \<Rightarrow> string \<Rightarrow> 's \<Rightarrow> 's" where
  "ns_remove del prefix key s = del (scoped prefix key) s"

definition ns_keys :: "('s \<Rightarrow> string list) \<Rightarrow> string \<Rightarrow> 's \<Rightarrow> string list" where
  "ns_keys listing prefix s = List.map_filter (unscoped prefix) (listing s)"

text \<open>What a view's listener hears of one notification of the underlying store.\<close>

definition ns_hears :: "string \<Rightarrow> string \<Rightarrow> string option" where
  "ns_hears prefix key = unscoped prefix key"

lemma unscoped_scoped [simp]: "unscoped p (scoped p k) = Some k"
  using starts_with_append [of "escapePrefix p @ '':''" k]
  by (simp add: unscoped_def scoped_def Let_def)

lemma unscoped_SomeD: "unscoped p x = Some k \<Longrightarrow> x = scoped p k"
  by (auto simp: unscoped_def scoped_def Let_def starts_with_iff split: if_splits)

lemma unscoped_iff: "unscoped p x = Some k \<longleftrightarrow> x = scoped p k"
  using unscoped_SomeD by fastforce

lemma escapePrefix_simps:
  "escapePrefix [] = []"
  "escapePrefix (x # s) =
     (if x = CHR '':'' then ''%3A'' else if x = CHR ''%'' then ''%25'' else [x]) @ escapePrefix s"
  by (auto simp: escapePrefix_def replace_all_def)

lemma escapePrefix_no_separator: "CHR '':'' \<notin> set (escapePrefix p)"
  by (induction p) (auto simp: escapePrefix_simps)

text \<open>The first separator of a storage key ends the prefix, and the escape is a prefix code.\<close>

lemma scoped_inj: "scoped p k = scoped q j \<longleftrightarrow> p = q \<and> k = j"
proof (induction p arbitrary: q)
  case Nil
  show ?case by (cases q) (auto simp: scoped_def escapePrefix_simps)
next
  case (Cons x p)
  then show ?case by (cases q) (auto simp: scoped_def escapePrefix_simps)
qed

lemma escapePrefix_inj: "escapePrefix p = escapePrefix q \<longleftrightarrow> p = q"
  using scoped_inj [of p "[]" q "[]"] by (simp add: scoped_def)

context kv_store
begin

lemma namespaced_kv_store:
  "kv_store (ns_get get p) (ns_set put p) (ns_remove del p) (ns_keys listing p)"
proof
  fix k j v s
  show "ns_get get p (ns_set put p k v s) j = (if j = k then Some v else ns_get get p s j)"
    by (simp add: ns_get_def ns_set_def get_put scoped_inj)
  show "ns_get get p (ns_remove del p k s) j = (if j = k then None else ns_get get p s j)"
    by (simp add: ns_get_def ns_remove_def get_del scoped_inj)
  show "k \<in> set (ns_keys listing p s) \<longleftrightarrow> ns_get get p s k \<noteq> None"
    by (auto simp: ns_keys_def ns_get_def List.map_filter_def image_iff unscoped_iff listing_get)
qed

lemma namespaced_isolation:
  assumes "p \<noteq> q"
  shows "ns_get get q (ns_set put p k v s) = ns_get get q s"
    and "ns_get get q (ns_remove del p k s) = ns_get get q s"
  using assms by (auto simp: fun_eq_iff ns_get_def ns_set_def ns_remove_def get_put get_del scoped_inj)

end

interpretation ns: kv_store "ns_get mem_get p" "ns_set mem_set p" "ns_remove mem_remove p" "ns_keys mem_keys p"
  for p
  by (rule mem.namespaced_kv_store)

end
