(* ===== verification/Perm_Key.thy ===== *)
theory Perm_Key
  imports Prelude
begin

section \<open>The permission cascade\<close>

text \<open>
  \<^verbatim>\<open>packages/identity/src/permissions/key.ts\<close> and the constants and types it reads: which key
  governs a request (\<open>permissionKey\<close>), which levels are consulted (\<open>consultedKeys\<close>) and what a
  bucket of stored decisions answers (\<open>resolveDetailed\<close>, \<open>resolveBlanketSignEvent\<close>). The
  contract both answers share, a denying level wins over every other, is the locale
  \<open>deny_wins\<close>, interpreted on both.
\<close>

subsection \<open>Data\<close>

text \<open>
  A stored decision. The type of the source allows three; a store in the field can hold any
  string, \<open>forward\<close> among them, so the rest are \<open>Other\<close>. The empty string is falsy.
\<close>

datatype decision = Allow | Deny | Ask | Other string

definition truthy :: "decision \<Rightarrow> bool" where
  "truthy d \<longleftrightarrow> d \<noteq> Other []"

type_synonym bucket = "(string, decision) obj"

text \<open>
  The \<open>kind\<close> argument as it can arrive from JavaScript: absent, \<open>null\<close>, an integer, or a
  value \<open>Number.isInteger\<close> refuses (\<open>NaN\<close>, \<open>1.5\<close>, a string).
\<close>

datatype kind_arg = NoKind | NullKind | Kind int | BadKind

definition DM_SIGN_KINDS :: "int list" where
  "DM_SIGN_KINDS = [4, 13, 14, 1059]"

definition NIP42_KIND :: int where "NIP42_KIND = 22242"

definition NIP98_KIND :: int where "NIP98_KIND = 27235"

definition DEFAULT_BUCKET :: string where "DEFAULT_BUCKET = ''_default''"

subsection \<open>Keys\<close>

fun isKind :: "kind_arg \<Rightarrow> bool" where
  "isKind (Kind _) = True"
| "isKind _ = False"

definition sign_event_key :: "int \<Rightarrow> string" where
  "sign_event_key k = ''signEvent:'' @ show_int k"

datatype key_error = BadEventKind

definition permissionKey :: "string \<Rightarrow> kind_arg \<Rightarrow> key_error + string" where
  "permissionKey method kind =
     (if starts_with ''webln_'' method then Inr method
      else if method = ''signEvent'' then
        (case kind of
           NoKind \<Rightarrow> Inr method
         | NullKind \<Rightarrow> Inr method
         | BadKind \<Rightarrow> Inl BadEventKind
         | Kind k \<Rightarrow> if k \<in> set DM_SIGN_KINDS then Inr ''sendMessages'' else Inr (sign_event_key k))
      else if method = ''nip04Encrypt'' \<or> method = ''nip44Encrypt'' then Inr ''sendMessages''
      else if method = ''nip04Decrypt'' \<or> method = ''nip44Decrypt'' then Inr ''readMessages''
      else Inr method)"

text \<open>The \<open>Inl\<close> branch is unreachable: the guard stops every kind \<open>permissionKey\<close> refuses.\<close>

definition consultedKeys :: "string \<Rightarrow> kind_arg \<Rightarrow> string list" where
  "consultedKeys method kind =
     (if method = ''signEvent'' \<and> \<not> isKind kind then [method, ''*'']
      else (case permissionKey method kind of
              Inl _ \<Rightarrow> []
            | Inr kindKey \<Rightarrow> if kindKey \<noteq> method then [kindKey, method, ''*''] else [method, ''*'']))"

subsection \<open>Answers\<close>

definition deny_level :: "bucket \<Rightarrow> string list \<Rightarrow> string option" where
  "deny_level b ks = List.find (\<lambda>k. map_of b k = Some Deny) ks"

fun defined_level :: "bucket \<Rightarrow> string list \<Rightarrow> (string \<times> decision) option" where
  "defined_level b [] = None"
| "defined_level b (k # ks) =
     (case map_of b k of
        Some d \<Rightarrow> if truthy d then Some (k, d) else defined_level b ks
      | None \<Rightarrow> defined_level b ks)"

definition resolveDetailed :: "bucket \<Rightarrow> string \<Rightarrow> kind_arg \<Rightarrow> decision \<times> string option" where
  "resolveDetailed b method kind =
     (let consulted = consultedKeys method kind
      in case deny_level b consulted of
           Some k \<Rightarrow> (Deny, Some k)
         | None \<Rightarrow>
             if method = ''signEvent'' \<and> \<not> isKind kind then (Ask, None)
             else if method = ''signEvent'' \<and> kind = Kind NIP42_KIND then (Ask, None)
             else (case defined_level b consulted of
                     Some (k, d) \<Rightarrow> (d, Some k)
                   | None \<Rightarrow> (Ask, None)))"

definition resolve :: "bucket \<Rightarrow> string \<Rightarrow> kind_arg \<Rightarrow> decision" where
  "resolve b method kind = fst (resolveDetailed b method kind)"

definition BLANKET_SIGN_EVENT_KEY :: string where
  "BLANKET_SIGN_EVENT_KEY = ''signEvent''"

definition resolveBlanketSignEvent :: "bucket \<Rightarrow> decision \<times> string option" where
  "resolveBlanketSignEvent b =
     (let consulted = [BLANKET_SIGN_EVENT_KEY, ''*'']
      in case deny_level b consulted of
           Some k \<Rightarrow> (Deny, Some k)
         | None \<Rightarrow> (case defined_level b consulted of
                     Some (k, d) \<Rightarrow> (d, Some k)
                   | None \<Rightarrow> (Ask, None)))"

subsection \<open>The levels\<close>

lemma deny_level_Some: "deny_level b ks = Some k \<Longrightarrow> k \<in> set ks \<and> map_of b k = Some Deny"
  by (auto simp: deny_level_def find_Some_iff)

lemma deny_level_None: "deny_level b ks = None \<longleftrightarrow> (\<forall>k \<in> set ks. map_of b k \<noteq> Some Deny)"
  by (auto simp: deny_level_def find_None_iff)

lemma defined_level_SomeD:
  "defined_level b ks = Some (k, d) \<Longrightarrow>
     \<exists>pre post. ks = pre @ k # post \<and> map_of b k = Some d \<and> truthy d \<and>
        (\<forall>j \<in> set pre. \<forall>e. map_of b j = Some e \<longrightarrow> \<not> truthy e)"
proof (induction ks)
  case (Cons x ks)
  show ?case
  proof (cases "\<exists>e. map_of b x = Some e \<and> truthy e")
    case True
    with Cons.prems have "x = k" "map_of b k = Some d" "truthy d" by auto
    then show ?thesis by (intro exI [of _ "[]"] exI [of _ ks]) simp
  next
    case False
    with Cons.prems have "defined_level b ks = Some (k, d)"
      by (auto split: option.splits if_splits)
    with Cons.IH obtain pre post where "ks = pre @ k # post \<and> map_of b k = Some d \<and> truthy d \<and>
        (\<forall>j \<in> set pre. \<forall>e. map_of b j = Some e \<longrightarrow> \<not> truthy e)" by blast
    with False show ?thesis by (intro exI [of _ "x # pre"] exI [of _ post]) auto
  qed
qed simp

lemma defined_level_SomeI:
  "map_of b k = Some d \<Longrightarrow> truthy d \<Longrightarrow>
     (\<forall>j \<in> set pre. \<forall>e. map_of b j = Some e \<longrightarrow> \<not> truthy e) \<Longrightarrow>
     defined_level b (pre @ k # post) = Some (k, d)"
  by (induction pre) (auto split: option.splits)

lemma defined_level_Some:
  "defined_level b ks = Some (k, d) \<longleftrightarrow>
     (\<exists>pre post. ks = pre @ k # post \<and> map_of b k = Some d \<and> truthy d \<and>
        (\<forall>j \<in> set pre. \<forall>e. map_of b j = Some e \<longrightarrow> \<not> truthy e))"
  using defined_level_SomeD defined_level_SomeI by blast

lemma defined_level_None:
  "defined_level b ks = None \<longleftrightarrow> (\<forall>k \<in> set ks. \<forall>d. map_of b k = Some d \<longrightarrow> \<not> truthy d)"
  by (induction ks) (auto split: option.splits)

lemma defined_level_cong:
  "(\<And>k. k \<in> set ks \<Longrightarrow> map_of b k = map_of c k) \<Longrightarrow> defined_level b ks = defined_level c ks"
  by (induction ks) (auto split: option.splits)

lemma deny_level_cong:
  "(\<And>k. k \<in> set ks \<Longrightarrow> map_of b k = map_of c k) \<Longrightarrow> deny_level b ks = deny_level c ks"
  by (auto simp: deny_level_def intro!: find_cong)

subsection \<open>The shared contract\<close>

text \<open>
  An answer computed from an ordered list of levels: any level that denies decides, and
  otherwise the first defined level does, unless the question is one no stored rule may
  answer positively (\<open>withheld\<close>).
\<close>

locale deny_wins =
  fixes levels :: "'q \<Rightarrow> string list"
    and withheld :: "'q \<Rightarrow> bool"
    and answer :: "bucket \<Rightarrow> 'q \<Rightarrow> decision \<times> string option"
  assumes answer_deny: "deny_level b (levels q) = Some k \<Longrightarrow> answer b q = (Deny, Some k)"
    and answer_withheld: "deny_level b (levels q) = None \<Longrightarrow> withheld q \<Longrightarrow> answer b q = (Ask, None)"
    and answer_defined: "deny_level b (levels q) = None \<Longrightarrow> \<not> withheld q \<Longrightarrow>
          answer b q = (case defined_level b (levels q) of Some (k, d) \<Rightarrow> (d, Some k) | None \<Rightarrow> (Ask, None))"
begin

lemma denied_iff: "fst (answer b q) = Deny \<longleftrightarrow> (\<exists>k \<in> set (levels q). map_of b k = Some Deny)"
proof (cases "deny_level b (levels q)")
  case None
  then have no: "\<forall>k \<in> set (levels q). map_of b k \<noteq> Some Deny"
    by (simp add: deny_level_None)
  show ?thesis
  proof (cases "withheld q")
    case True
    with None no show ?thesis by (simp add: answer_withheld)
  next
    case False
    with None no show ?thesis
      by (auto simp: answer_defined defined_level_Some split: option.splits)
  qed
next
  case (Some k)
  then show ?thesis by (auto simp: answer_deny dest: deny_level_Some)
qed

lemma allowed_iff:
  "fst (answer b q) = Allow \<longleftrightarrow>
     (\<forall>k \<in> set (levels q). map_of b k \<noteq> Some Deny) \<and> \<not> withheld q \<and>
     (\<exists>pre k post. levels q = pre @ k # post \<and> map_of b k = Some Allow \<and>
        (\<forall>j \<in> set pre. \<forall>e. map_of b j = Some e \<longrightarrow> \<not> truthy e))"
proof (cases "deny_level b (levels q)")
  case None
  then have no: "\<forall>k \<in> set (levels q). map_of b k \<noteq> Some Deny"
    by (simp add: deny_level_None)
  show ?thesis
  proof (cases "withheld q")
    case True
    with None show ?thesis by (simp add: answer_withheld)
  next
    case False
    have t: "truthy Allow" by (simp add: truthy_def)
    have "fst (answer b q) = Allow \<longleftrightarrow> (\<exists>k. defined_level b (levels q) = Some (k, Allow))"
      using None False by (auto simp: answer_defined split: option.splits)
    with no False t show ?thesis by (simp add: defined_level_Some) blast
  qed
next
  case (Some k)
  then show ?thesis by (auto simp: answer_deny dest: deny_level_Some)
qed

lemma unset_asks: "(\<forall>k \<in> set (levels q). map_of b k = None) \<Longrightarrow> answer b q = (Ask, None)"
proof -
  assume none: "\<forall>k \<in> set (levels q). map_of b k = None"
  then have "deny_level b (levels q) = None" "defined_level b (levels q) = None"
    by (auto simp: deny_level_None defined_level_None)
  then show ?thesis by (cases "withheld q") (simp_all add: answer_withheld answer_defined)
qed

lemma deciding_key: "answer b q = (d, Some k) \<Longrightarrow> k \<in> set (levels q) \<and> map_of b k = Some d"
  using answer_deny [of b q] answer_withheld [of b q] answer_defined [of b q]
  by (cases "deny_level b (levels q)"; cases "withheld q")
    (auto dest: deny_level_Some simp: defined_level_Some split: option.splits)

text \<open>Setting further rules at levels that are not consulted changes nothing.\<close>

lemma answer_local:
  assumes "\<And>k. k \<in> set (levels q) \<Longrightarrow> map_of b k = map_of c k"
  shows "answer b q = answer c q"
proof -
  have "deny_level b (levels q) = deny_level c (levels q)"
    and "defined_level b (levels q) = defined_level c (levels q)"
    using assms by (auto intro: deny_level_cong defined_level_cong)
  then show ?thesis
    using answer_deny [of b q] answer_withheld [of b q] answer_defined [of b q]
      answer_deny [of c q] answer_withheld [of c q] answer_defined [of c q]
    by (cases "deny_level c (levels q)"; cases "withheld q") auto
qed

end

definition withheld_read :: "string \<times> kind_arg \<Rightarrow> bool" where
  "withheld_read q \<longleftrightarrow>
     fst q = ''signEvent'' \<and> (\<not> isKind (snd q) \<or> snd q = Kind NIP42_KIND)"

interpretation cascade: deny_wins "\<lambda>q. consultedKeys (fst q) (snd q)" withheld_read
  "\<lambda>b q. resolveDetailed b (fst q) (snd q)"
  by unfold_locales (auto simp: resolveDetailed_def withheld_read_def Let_def)

interpretation blanket: deny_wins "\<lambda>_ :: unit. [BLANKET_SIGN_EVENT_KEY, ''*'']" "\<lambda>_. False"
  "\<lambda>b _. resolveBlanketSignEvent b"
  by unfold_locales (auto simp: resolveBlanketSignEvent_def Let_def)


subsection \<open>Which key governs what\<close>

lemma permissionKey_total:
  "method \<noteq> ''signEvent'' \<or> isKind kind \<Longrightarrow> \<exists>key. permissionKey method kind = Inr key"
  by (cases kind) (auto simp: permissionKey_def)

lemma permissionKey_error_iff:
  "permissionKey method kind = Inl e \<longleftrightarrow> method = ''signEvent'' \<and> kind = BadKind"
  by (cases e; cases kind) (auto simp: permissionKey_def starts_with_def)

lemma signEvent_key:
  "permissionKey ''signEvent'' (Kind k) =
     Inr (if k \<in> set DM_SIGN_KINDS then ''sendMessages'' else sign_event_key k)"
  by (simp add: permissionKey_def starts_with_def)

lemma sign_event_key_inj [simp]: "sign_event_key j = sign_event_key k \<longleftrightarrow> j = k"
  by (simp add: sign_event_key_def show_int_inj)

lemma sign_event_key_not_fixed [simp]:
  "sign_event_key k \<noteq> ''signEvent''" "sign_event_key k \<noteq> ''*''" "sign_event_key k \<noteq> ''sendMessages''"
  by (simp_all add: sign_event_key_def)

lemma consulted_signEvent:
  "consultedKeys ''signEvent'' (Kind k) =
     [if k \<in> set DM_SIGN_KINDS then ''sendMessages'' else sign_event_key k, ''signEvent'', ''*'']"
  by (simp add: consultedKeys_def signEvent_key)

lemma consulted_unnamed: "\<not> isKind kind \<Longrightarrow> consultedKeys ''signEvent'' kind = [''signEvent'', ''*'']"
  by (simp add: consultedKeys_def)

lemma wildcard_consulted: "''*'' \<in> set (consultedKeys method kind)"
proof (cases "method = ''signEvent'' \<and> \<not> isKind kind")
  case False
  then obtain key where "permissionKey method kind = Inr key"
    using permissionKey_total [of "method" kind] by auto
  with False show ?thesis by (auto simp: consultedKeys_def)
qed (auto simp: consultedKeys_def)


subsection \<open>Properties\<close>


text \<open>What an allow for an event rests on. A \<open>signEvent\<close> request resolves to allow only for an
  integer kind other than relay authentication, when neither its kind key, nor the method, nor
  the wildcard denies, and the most specific of the three that is set says allow.\<close>

theorem signEvent_allow_iff:
  "resolve b ''signEvent'' kind = Allow \<longleftrightarrow>
     (\<exists>k. kind = Kind k \<and> k \<noteq> NIP42_KIND \<and>
        (let key = (if k \<in> set DM_SIGN_KINDS then ''sendMessages'' else sign_event_key k);
             unset = (\<lambda>x. map_of b x = None \<or> map_of b x = Some (Other []))
         in map_of b key \<noteq> Some Deny \<and> map_of b ''signEvent'' \<noteq> Some Deny \<and> map_of b ''*'' \<noteq> Some Deny \<and>
            (map_of b key = Some Allow
             \<or> unset key \<and> map_of b ''signEvent'' = Some Allow
             \<or> unset key \<and> unset ''signEvent'' \<and> map_of b ''*'' = Some Allow)))"
proof (cases "\<exists>k. kind = Kind k \<and> k \<noteq> NIP42_KIND")
  case False
  then have "withheld_read (''signEvent'', kind)"
    by (cases kind) (auto simp: withheld_read_def)
  then have "resolve b ''signEvent'' kind \<noteq> Allow"
    using cascade.allowed_iff [of b "(''signEvent'', kind)"] by (simp add: resolve_def)
  with False show ?thesis by blast
next
  case True
  then obtain k where k: "kind = Kind k" "k \<noteq> NIP42_KIND" by blast
  then show ?thesis
    by (auto simp: resolve_def resolveDetailed_def Let_def consulted_signEvent deny_level_def truthy_def
        split: option.splits if_splits)
qed

text \<open>A rule for one event kind says nothing about another. Storing any decision under the key of
  a kind outside the direct-message group leaves every request for a different kind, and every
  request for another method, resolved as before.\<close>

theorem kind_rules_are_isolated:
  assumes "j \<notin> set DM_SIGN_KINDS" "permissionKey ''signEvent'' (Kind j) = Inr key"
    and "kind \<noteq> Kind j" "method \<noteq> key"
  shows "resolve (oset key d b) method kind = resolve b method kind"
proof -
  have key: "key = sign_event_key j" using assms(1,2) by (simp add: signEvent_key)
  have other: "permissionKey method kind = Inr k \<Longrightarrow> k \<noteq> key" for k
    using assms(3,4) key
    by (auto simp: permissionKey_def sign_event_key_def starts_with_def split: if_splits kind_arg.splits
        simp del: sign_event_key_inj dest: show_int_inj [THEN iffD1])
  have "key \<notin> set (consultedKeys method kind)"
    using other [OF sym] assms(4) key by (auto simp: consultedKeys_def split: sum.splits if_splits)
  then have "resolveDetailed (oset key d b) method kind = resolveDetailed b method kind"
    by (intro cascade.answer_local [of "(method, kind)", simplified]) auto
  then show ?thesis by (simp add: resolve_def)
qed

theorem kind_rules_are_isolated_witness:
  "resolve (oset ''signEvent:1'' Allow []) ''signEvent'' (Kind 3) = resolve [] ''signEvent'' (Kind 3)"
  by (rule kind_rules_are_isolated [of 1]) code_simp+

text \<open>One decision covers the whole direct-message flow: both encrypt methods and the signatures of
  kinds 4, 13, 14 and 1059 share one key, and two event kinds share a key only inside that group.\<close>

theorem signEvent_keys_shared_iff:
  "(permissionKey ''signEvent'' (Kind i) = permissionKey ''signEvent'' (Kind j) \<longleftrightarrow>
      i = j \<or> (i \<in> set DM_SIGN_KINDS \<and> j \<in> set DM_SIGN_KINDS))
   \<and> (permissionKey ''signEvent'' (Kind i) = permissionKey ''nip44Encrypt'' kind \<longleftrightarrow> i \<in> set DM_SIGN_KINDS)
   \<and> permissionKey ''nip04Encrypt'' kind = permissionKey ''nip44Encrypt'' kind"
proof -
  have "permissionKey ''nip44Encrypt'' kind = Inr ''sendMessages''"
    "permissionKey ''nip04Encrypt'' kind = Inr ''sendMessages''"
    by (simp_all add: permissionKey_def starts_with_def)
  moreover have "''sendMessages'' \<noteq> sign_event_key k" for k
    using sign_event_key_not_fixed(3) [of k] by metis
  ultimately show ?thesis by (auto simp: signEvent_key)
qed

end
