(* ===== verification/Perm_Scope.thy ===== *)
theory Perm_Scope
  imports Perm_Key
begin

section \<open>Origins: the one spelling a rule is stored and read under\<close>

text \<open>
  \<^verbatim>\<open>packages/identity/src/permissions/scope.ts\<close>: the grammar of an origin, written out
  because the package does not trust the host's \<open>URL\<close>. The regular expressions are the
  predicates \<open>is_ipv4_part\<close>, \<open>is_domain\<close>, \<open>origin_shape\<close> and the character tests inside
  \<open>canonicalIpv6\<close>. Numbers are exact naturals: the source's doubles round only above
  \<open>2^53\<close>, and every value above \<open>2^32\<close> is refused whether rounded or not.
\<close>

subsection \<open>IPv4\<close>

datatype ipv4 = NotNumeric | BadAddress | Address string

text \<open>\<open>/^(?:0x[0-9a-f]*|[0-9]+)$/i\<close>\<close>

definition has_0x :: "string \<Rightarrow> bool" where
  "has_0x s \<longleftrightarrow> take 2 s = ''0x'' \<or> take 2 s = ''0X''"

definition is_ipv4_part :: "string \<Rightarrow> bool" where
  "is_ipv4_part s \<longleftrightarrow>
     (has_0x s \<and> list_all is_hex (drop 2 s)) \<or> (s \<noteq> [] \<and> list_all is_digit s)"

text \<open>One part of the loop: \<open>None\<close> is \<open>return false\<close>.\<close>

definition ipv4_number :: "string \<Rightarrow> nat option" where
  "ipv4_number part =
     (if \<not> is_ipv4_part part then None
      else if has_0x part then Some (if length part = 2 then 0 else parse_base 16 (drop 2 part))
      else if length part > 1 \<and> hd part = CHR ''0'' then
        (if list_all is_octal part then Some (parse_base 8 part) else None)
      else Some (parse_base 10 part))"

fun ipv4_numbers :: "string list \<Rightarrow> nat list option" where
  "ipv4_numbers [] = Some []"
| "ipv4_numbers (p # ps) =
     (case ipv4_number p of None \<Rightarrow> None | Some n \<Rightarrow> map_option (Cons n) (ipv4_numbers ps))"

definition dotted_quad :: "nat \<Rightarrow> string" where
  "dotted_quad address =
     join_with ''.'' (map (\<lambda>shift. show_nat (address div 2 ^ shift mod 256)) [24, 16, 8, 0])"

definition canonicalIpv4 :: "string \<Rightarrow> ipv4" where
  "canonicalIpv4 host =
     (let all = split_on CHR ''.'' host;
          parts = (if length all > 1 \<and> last all = [] then butlast all else all)
      in if \<not> is_ipv4_part (last parts) then NotNumeric
         else if length parts > 4 then BadAddress
         else (case ipv4_numbers parts of
                 None \<Rightarrow> BadAddress
               | Some values \<Rightarrow>
                   let tail = last values; numbers = butlast values
                   in if list_ex (\<lambda>v. v > 255) numbers then BadAddress
                      else if tail \<ge> 256 ^ (4 - length numbers) then BadAddress
                      else Address (dotted_quad
                        (tail + (\<Sum>(i, v) \<leftarrow> enumerate 0 numbers. v * 256 ^ (3 - i))))))"

subsection \<open>IPv6\<close>

fun split_on2 :: "string \<Rightarrow> string list" where
  "split_on2 (x # y # s) =
     (if x = CHR '':'' \<and> y = CHR '':'' then [] # split_on2 s
      else (case split_on2 (y # s) of [] \<Rightarrow> [[x]] | p # ps \<Rightarrow> (x # p) # ps))"
| "split_on2 s = [s]"

text \<open>\<open>/(?:^|:)(\d+\.\d+\.\d+\.\d+)$/\<close>: what follows the last colon, when it is dotted.\<close>

definition after_last_colon :: "string \<Rightarrow> string" where
  "after_last_colon s = last (split_on CHR '':'' s)"

definition is_dotted :: "string \<Rightarrow> bool" where
  "is_dotted s \<longleftrightarrow>
     (let ps = split_on CHR ''.'' s in length ps = 4 \<and> list_all (\<lambda>p. p \<noteq> [] \<and> list_all is_digit p) ps)"

fun ipv6_values :: "string list \<Rightarrow> nat list option" where
  "ipv6_values [] = Some []"
| "ipv6_values (g # gs) =
     (if length g = 0 \<or> length g > 4 then None
      else map_option (Cons (parse_base 16 g)) (ipv6_values gs))"

definition ipv6_half :: "string \<Rightarrow> nat list option" where
  "ipv6_half part = (if part = [] then Some [] else ipv6_values (split_on CHR '':'' part))"

definition ipv6_groups :: "string \<Rightarrow> nat list option" where
  "ipv6_groups text =
     (let halves = split_on2 text
      in if length halves > 2 then None
         else case (ipv6_half (hd halves), if length halves = 2 then ipv6_half (halves ! 1) else Some []) of
                (Some h, Some t) \<Rightarrow>
                  if length halves = 2 then
                    (if length h + length t > 7 then None
                     else Some (h @ replicate (8 - length h - length t) 0 @ t))
                  else if length h \<noteq> 8 then None else Some h
              | _ \<Rightarrow> None)"

text \<open>The loop over zero runs: position, the groups left, and the best run so far.\<close>

function best_run :: "nat \<Rightarrow> nat list \<Rightarrow> nat \<times> nat \<Rightarrow> nat \<times> nat" where
  "best_run i [] best = best"
| "best_run i (g # gs) best =
     (if g \<noteq> 0 then best_run (Suc i) gs best
      else let n = length (takeWhile (\<lambda>x. x = 0) (g # gs))
           in best_run (i + n) (dropWhile (\<lambda>x. x = 0) gs)
                (if n > snd best \<and> n \<ge> 2 then (i, n) else best))"
  by pat_completeness auto
termination
  by (relation "measure (\<lambda>(i, gs, best). length gs)")
    (auto simp: le_imp_less_Suc length_dropWhile_le)

text \<open>The best run as \<open>(start, length)\<close>; length 0 stands for the source's start of -1.\<close>

definition format_ipv6 :: "nat list \<Rightarrow> string" where
  "format_ipv6 groups =
     (let best = best_run 0 groups (0, 0); hexes = map (show_base 16) groups
      in if snd best = 0 then ''['' @ join_with '':'' hexes @ '']''
         else ''['' @ join_with '':'' (take (fst best) hexes) @ ''::''
                @ join_with '':'' (drop (fst best + snd best) hexes) @ '']'')"

definition canonicalIpv6 :: "string \<Rightarrow> string option" where
  "canonicalIpv6 inner =
     (let text0 = to_lower inner; dotted = after_last_colon text0;
          folded = (if is_dotted dotted then
             (case canonicalIpv4 dotted of
                Address quad \<Rightarrow>
                  (let octets = map (parse_base 10) (split_on CHR ''.'' quad);
                       groups = [octets ! 0 * 256 + octets ! 1, octets ! 2 * 256 + octets ! 3]
                   in Some (take (length text0 - length dotted) text0
                              @ join_with '':'' (map (show_base 16) groups)))
              | _ \<Rightarrow> None)
           else Some text0)
      in case folded of
           None \<Rightarrow> None
         | Some text \<Rightarrow>
             if text \<noteq> [] \<and> list_all (\<lambda>c. is_hex_lower c \<or> c = CHR '':'') text
             then map_option format_ipv6 (ipv6_groups text) else None)"

subsection \<open>Origins\<close>

text \<open>
  A table of default ports is a plain object, so a scheme that names an inherited property of
  one is found too: \<open>constructor\<close> is the only such name a lowercased scheme can spell, and
  its value is not a number, so no port equals it.
\<close>

datatype default_port = Port nat | Inherited

definition HTTP_PORTS :: "(string, nat) obj" where
  "HTTP_PORTS = [(''http'', 80), (''https'', 443)]"

definition WEB_SOCKET_PORTS :: "(string, nat) obj" where
  "WEB_SOCKET_PORTS = [(''ws'', 80), (''wss'', 443)]"

definition port_table :: "(string, nat) obj \<Rightarrow> string \<Rightarrow> default_port option" where
  "port_table ports scheme =
     (case map_of ports scheme of
        Some n \<Rightarrow> Some (Port n)
      | None \<Rightarrow> if scheme = ''constructor'' then Some Inherited else None)"

definition is_scheme_char :: "char \<Rightarrow> bool" where
  "is_scheme_char c \<longleftrightarrow> is_alpha c \<or> is_digit c \<or> c \<in> set ''+.-''"

text \<open>\<open>/^([a-zA-Z][a-zA-Z0-9+.-]*):\/\/([^/?#]*)$/\<close>: scheme and authority.\<close>

definition origin_shape :: "string \<Rightarrow> (string \<times> string) option" where
  "origin_shape value =
     (let scheme = takeWhile is_scheme_char value; rest = dropWhile is_scheme_char value
      in if scheme \<noteq> [] \<and> is_alpha (hd scheme) \<and> take 3 rest = ''://''
            \<and> list_all (\<lambda>c. c \<notin> set ''/?#'') (drop 3 rest)
         then Some (scheme, drop 3 rest) else None)"

definition is_domain_char :: "char \<Rightarrow> bool" where
  "is_domain_char c \<longleftrightarrow> is_lower c \<or> is_digit c \<or> c = CHR ''_'' \<or> c = CHR ''-''"

text \<open>\<open>/^[a-z0-9_-]+(?:\.[a-z0-9_-]+)*\.?$/\<close>\<close>

definition is_domain :: "string \<Rightarrow> bool" where
  "is_domain s \<longleftrightarrow>
     (let t = (if s \<noteq> [] \<and> last s = CHR ''.'' then butlast s else s)
      in list_all (\<lambda>p. p \<noteq> [] \<and> list_all is_domain_char p) (split_on CHR ''.'' t))"

text \<open>\<open>/^[0-9]{1,5}$/\<close>\<close>

definition is_port_text :: "string \<Rightarrow> bool" where
  "is_port_text s \<longleftrightarrow> s \<noteq> [] \<and> length s \<le> 5 \<and> list_all is_digit s"

text \<open>The authority split into host text and port text; \<open>None\<close> is a refusal.\<close>

definition split_authority :: "string \<Rightarrow> (string \<times> string option) option" where
  "split_authority authority =
     (if starts_with ''['' authority then
        (case index_of CHR '']'' authority of
           None \<Rightarrow> None
         | Some close \<Rightarrow>
             let hostText = take (Suc close) authority; rest = drop (Suc close) authority
             in if rest = [] then Some (hostText, None)
                else if starts_with '':'' rest then Some (hostText, Some (drop 1 rest)) else None)
      else (case index_of CHR '':'' authority of
              None \<Rightarrow> Some (authority, None)
            | Some colon \<Rightarrow> Some (take colon authority, Some (drop (Suc colon) authority))))"

definition canonical_host :: "string \<Rightarrow> string option" where
  "canonical_host hostText =
     (if starts_with ''['' hostText then canonicalIpv6 (butlast (tl hostText))
      else let lowered = to_lower hostText
           in if \<not> is_domain lowered then None
              else (case canonicalIpv4 lowered of
                      BadAddress \<Rightarrow> None
                    | NotNumeric \<Rightarrow> Some lowered
                    | Address a \<Rightarrow> Some a))"

definition canonical_port :: "default_port \<Rightarrow> string option \<Rightarrow> string option" where
  "canonical_port defaultPort portText =
     (case portText of
        None \<Rightarrow> Some []
      | Some text \<Rightarrow>
          if \<not> is_port_text text then None
          else let number = parse_base 10 text
               in if number > 65535 then None
                  else if Port number \<noteq> defaultPort then Some ('':'' @ show_nat number)
                  else Some [])"

definition canonicalOrigin :: "string \<Rightarrow> (string, nat) obj \<Rightarrow> string option" where
  "canonicalOrigin value defaultPorts =
     (case origin_shape value of
        None \<Rightarrow> None
      | Some (scheme0, authority) \<Rightarrow>
          let scheme = to_lower scheme0
          in (case port_table defaultPorts scheme of
                None \<Rightarrow> None
              | Some defaultPort \<Rightarrow>
                  if CHR ''@'' \<in> set authority then None
                  else (case split_authority authority of
                          None \<Rightarrow> None
                        | Some (hostText, portText) \<Rightarrow>
                            (case canonical_host hostText of
                               None \<Rightarrow> None
                             | Some host \<Rightarrow>
                                 map_option (\<lambda>port. scheme @ ''://'' @ host @ port)
                                   (canonical_port defaultPort portText)))))"

definition canonicalHttpOrigin :: "string \<Rightarrow> string option" where
  "canonicalHttpOrigin value = canonicalOrigin value HTTP_PORTS"

definition canonicalWebSocketOrigin :: "string \<Rightarrow> string option" where
  "canonicalWebSocketOrigin value = canonicalOrigin value WEB_SOCKET_PORTS"

definition strip_trailing_dots :: "string \<Rightarrow> string" where
  "strip_trailing_dots s = rev (dropWhile (\<lambda>c. c = CHR ''.'') (rev s))"

definition canonicalHostname :: "string \<Rightarrow> string option" where
  "canonicalHostname value =
     (let lowered = strip_trailing_dots (to_lower value)
      in if lowered = [] \<or> \<not> is_domain lowered then None
         else (case canonicalIpv4 lowered of
                 BadAddress \<Rightarrow> None
               | NotNumeric \<Rightarrow> Some lowered
               | Address a \<Rightarrow> Some a))"

text \<open>\<open>indexOf('//') + 2\<close>, with JavaScript's -1 for an absent separator.\<close>

fun after_slashes :: "string \<Rightarrow> string option" where
  "after_slashes (x # y # s) =
     (if x = CHR ''/'' \<and> y = CHR ''/'' then Some s else after_slashes (y # s))"
| "after_slashes _ = None"

definition hostnameOf :: "string \<Rightarrow> string" where
  "hostnameOf canonical =
     (let authority = (case after_slashes canonical of Some s \<Rightarrow> s | None \<Rightarrow> drop 1 canonical)
      in if starts_with ''['' authority then
           (case index_of CHR '']'' authority of
              Some close \<Rightarrow> take (Suc close) authority | None \<Rightarrow> [])
         else (case index_of CHR '':'' authority of
                 None \<Rightarrow> authority | Some colon \<Rightarrow> take colon authority))"

definition siteScopes :: "string \<Rightarrow> string list" where
  "siteScopes origin =
     (case canonicalHttpOrigin origin of
        None \<Rightarrow> [origin]
      | Some canonical \<Rightarrow> [canonical, hostnameOf canonical])"

definition storageLabel :: "string \<Rightarrow> string" where
  "storageLabel origin = hd (siteScopes origin)"

definition hasSiteScope :: "string list \<Rightarrow> string \<Rightarrow> bool" where
  "hasSiteScope stored origin = list_ex (\<lambda>scope. scope \<in> set stored) (siteScopes origin)"


subsection \<open>IPv4 addresses are printed once and read back\<close>

lemma is_digitsI: "s \<noteq> [] \<Longrightarrow> list_all is_digit s \<Longrightarrow> is_ipv4_part s"
  by (simp add: is_ipv4_part_def)

lemma list_all_show_nat [simp]: "list_all is_digit (show_nat n)"
  by (auto simp: list_all_iff dest: show_nat_digits)

lemma has_0x_digits: "list_all is_digit s \<Longrightarrow> \<not> has_0x s"
proof
  assume d: "list_all is_digit s" and h: "has_0x s"
  from h obtain a b t where s: "s = a # b # t" and "b = CHR ''x'' \<or> b = CHR ''X''"
    by (cases s; cases "tl s") (auto simp: has_0x_def)
  with d show False by (auto simp: is_digit_def)
qed

lemma ipv4_number_show [simp]: "ipv4_number (show_nat n) = Some n"
proof -
  have "\<not> (length (show_nat n) > 1 \<and> hd (show_nat n) = CHR ''0'')"
    using hd_show_nat [of n] by (cases "n = 0") auto
  then show ?thesis
    by (auto simp: ipv4_number_def is_digitsI has_0x_digits parse_show_base)
qed

lemma show_nat_no_dot: "CHR ''.'' \<notin> set (show_nat n)"
  using show_nat_digits [of "CHR ''.''" n] by (auto simp: is_digit_def)

lemma split_dotted:
  "split_on CHR ''.'' (join_with ''.'' (map show_nat ns)) = map show_nat ns" if "ns \<noteq> []"
  using that show_nat_no_dot by (intro split_join) auto

lemma dotted_quad_parts:
  "split_on CHR ''.'' (dotted_quad a) =
     map show_nat [a div 2 ^ 24 mod 256, a div 2 ^ 16 mod 256, a div 2 ^ 8 mod 256, a mod 256]"
  using split_dotted [of "[a div 2 ^ 24 mod 256, a div 2 ^ 16 mod 256, a div 2 ^ 8 mod 256, a mod 256]"]
  by (simp add: dotted_quad_def)

lemma bytes_sum:
  fixes a :: nat
  assumes "a < 4294967296"
  shows "a mod 256 + (a div 16777216 mod 256 * 16777216 +
           (a div 65536 mod 256 * 65536 + a div 256 mod 256 * 256)) = a"
proof -
  have 1: "a div 16777216 mod 256 = a div 16777216" using assms by simp
  have 2: "a = a div 16777216 * 16777216 + a mod 16777216" by simp
  have 3: "a mod 16777216 = a div 65536 mod 256 * 65536 + a mod 65536"
    using mod_mult2_eq [of a 65536 256] by simp
  have 4: "a mod 65536 = a div 256 mod 256 * 256 + a mod 256"
    using mod_mult2_eq [of a 256 256] by simp
  from 1 2 3 4 show ?thesis by linarith
qed

lemma ipv4_numbers_show [simp]: "ipv4_numbers (map show_nat ns) = Some ns"
  by (induction ns) auto

lemma canonicalIpv4_numbers:
  assumes "split_on CHR ''.'' h = map show_nat ns" "ns \<noteq> []" "length ns \<le> 4"
    "\<forall>v \<in> set (butlast ns). v \<le> 255" "last ns < 256 ^ (5 - length ns)"
  shows "canonicalIpv4 h =
     Address (dotted_quad (last ns + (\<Sum>(i, v) \<leftarrow> enumerate 0 (butlast ns). v * 256 ^ (3 - i))))"
proof -
  have last: "last (map show_nat ns) = show_nat (last ns)" using assms(2) by (simp add: last_map)
  have "is_ipv4_part (show_nat (last ns))" by (simp add: is_digitsI)
  moreover have "\<not> list_ex (\<lambda>v. v > 255) (butlast ns)"
    using assms(4) by (auto simp: list_ex_iff not_less)
  moreover have "4 - length (butlast ns) = 5 - length ns" using assms(2,3) by (cases ns) auto
  ultimately show ?thesis
    using assms(3,5) unfolding canonicalIpv4_def assms(1) Let_def by (simp add: last)
qed

lemma canonicalIpv4_dotted_quad:
  assumes "a < 4294967296"
  shows "canonicalIpv4 (dotted_quad a) = Address (dotted_quad a)"
proof -
  let ?ns = "[a div 2 ^ 24 mod 256, a div 2 ^ 16 mod 256, a div 2 ^ 8 mod 256, a mod 256]"
  have le: "n mod 256 \<le> 255" for n :: nat
    using mod_less_divisor [of 256 n] by linarith
  have "canonicalIpv4 (dotted_quad a) =
      Address (dotted_quad (last ?ns + (\<Sum>(i, v) \<leftarrow> enumerate 0 (butlast ?ns). v * 256 ^ (3 - i))))"
    by (rule canonicalIpv4_numbers [OF dotted_quad_parts]) (auto simp: le)
  also have "last ?ns + (\<Sum>(i, v) \<leftarrow> enumerate 0 (butlast ?ns). v * 256 ^ (3 - i)) = a"
    using bytes_sum [OF assms] assms by simp
  finally show ?thesis .
qed

lemma ipv4_numbers_length: "ipv4_numbers ps = Some ns \<Longrightarrow> length ns = length ps"
  by (induction ps arbitrary: ns) (auto split: option.splits)

lemma place_value_bound:
  fixes ns :: "nat list"
  assumes "length ns \<le> 3" "\<forall>n \<in> set ns. n \<le> 255" "t < 256 ^ (4 - length ns)"
  shows "t + (\<Sum>(i, v) \<leftarrow> enumerate 0 ns. v * 256 ^ (3 - i)) < 4294967296"
proof -
  consider "ns = []" | a where "ns = [a]" | a b where "ns = [a, b]" | a b c where "ns = [a, b, c]"
    using assms(1) by (cases ns; cases "tl ns"; cases "tl (tl ns)"; cases "tl (tl (tl ns))") auto
  then show ?thesis using assms by cases auto
qed

lemma canonicalIpv4_AddressD:
  assumes "canonicalIpv4 h = Address s"
  shows "\<exists>a < 4294967296. s = dotted_quad a"
proof -
  obtain all where all_def: "all = split_on CHR ''.'' h" by blast
  obtain parts where parts_def: "parts = (if length all > 1 \<and> last all = [] then butlast all else all)"
    by blast
  have parts: "parts \<noteq> []"
    using split_on_not_Nil [of "CHR ''.''" h] unfolding parts_def all_def [symmetric]
    by (cases all rule: rev_cases) auto
  from assms obtain ns where ns: "ipv4_numbers parts = Some ns" "length parts \<le> 4"
    and small: "\<not> list_ex (\<lambda>v. v > 255) (butlast ns)" "\<not> last ns \<ge> 256 ^ (4 - length (butlast ns))"
    and s: "s = dotted_quad (last ns + (\<Sum>(i, v) \<leftarrow> enumerate 0 (butlast ns). v * 256 ^ (3 - i)))"
    unfolding canonicalIpv4_def all_def [symmetric] Let_def parts_def [symmetric]
    by (auto simp: not_le split: if_splits option.splits)
  have "last ns + (\<Sum>(i, v) \<leftarrow> enumerate 0 (butlast ns). v * 256 ^ (3 - i)) < 4294967296"
    using ipv4_numbers_length [OF ns(1)] ns(2) parts small
    by (intro place_value_bound) (auto simp: list_ex_iff not_less)
  with s show ?thesis by blast
qed


lemma dotted_quad_chars: "c \<in> set (dotted_quad a) \<Longrightarrow> is_digit c \<or> c = CHR ''.''"
  using set_join_with [of "''.''"] show_nat_digits by (fastforce simp: dotted_quad_def)

lemma split_on_length1: "length (split_on c s) = 1 \<Longrightarrow> c \<notin> set s"
  by (induction s) (auto split: list.splits if_splits)

subsection \<open>IPv6 addresses are printed once and read back\<close>

lemma split_on2_not_Nil [simp]: "split_on2 s \<noteq> []"
  by (induction s rule: split_on2.induct) (auto split: list.splits)

lemma split_on2_step:
  "x \<noteq> CHR '':'' \<Longrightarrow> split_on2 (x # s) = (x # hd (split_on2 s)) # tl (split_on2 s)"
  by (cases s) (auto split: list.splits)

lemma split_on2_single:
  "y \<noteq> CHR '':'' \<Longrightarrow>
     split_on2 (CHR '':'' # y # s) = (CHR '':'' # hd (split_on2 (y # s))) # tl (split_on2 (y # s))"
  by (auto split: list.splits)

lemma split_on2_plain:
  "CHR '':'' \<notin> set p \<Longrightarrow> split_on2 (p @ s) = (p @ hd (split_on2 s)) # tl (split_on2 s)"
  by (induction p) (auto simp: split_on2_step)

text \<open>Groups: what the printed form is made of.\<close>

definition plain_parts :: "string list \<Rightarrow> bool" where
  "plain_parts ps \<longleftrightarrow> (\<forall>p \<in> set ps. p \<noteq> [] \<and> CHR '':'' \<notin> set p)"

lemma split_on2_join:
  assumes "plain_parts ps" "s = [] \<or> (\<exists>t. s = ''::'' @ t)"
  shows "split_on2 (join_with '':'' ps @ s) = (join_with '':'' ps @ hd (split_on2 s)) # tl (split_on2 s)"
  using assms(1)
proof (induction ps)
  case (Cons p ps)
  show ?case
  proof (cases ps)
    case Nil
    with Cons.prems show ?thesis by (simp add: plain_parts_def split_on2_plain)
  next
    case (Cons q qs)
    then obtain y q' where q: "q = y # q'" "y \<noteq> CHR '':''"
      using Cons.prems by (cases q) (auto simp: plain_parts_def)
    obtain r where r: "join_with '':'' ps = y # r"
      using Cons q by (cases qs) auto
    have ps: "plain_parts ps" using Cons.prems by (simp add: plain_parts_def)
    have p: "CHR '':'' \<notin> set p" using Cons.prems by (simp add: plain_parts_def)
    have "split_on2 (join_with '':'' (p # ps) @ s) = split_on2 (p @ CHR '':'' # y # (r @ s))"
      using Cons r by simp
    also have "\<dots> = (p @ hd (split_on2 (CHR '':'' # y # (r @ s)))) # tl (split_on2 (CHR '':'' # y # (r @ s)))"
      using p by (rule split_on2_plain)
    finally show ?thesis
      using Cons.IH [OF ps] q(2) r Cons by (simp add: split_on2_single del: split_on2.simps)
  qed
qed (cases "split_on2 s"; simp)

lemma split_on2_compressed:
  assumes "plain_parts ps" "plain_parts qs"
  shows "split_on2 (join_with '':'' ps @ ''::'' @ join_with '':'' qs) = [join_with '':'' ps, join_with '':'' qs]"
  using split_on2_join [OF assms(1), of "''::'' @ join_with '':'' qs"] split_on2_join [OF assms(2), of "[]"]
  by simp

lemma ipv6_half_join:
  "plain_parts ps \<Longrightarrow> ipv6_half (join_with '':'' ps) = ipv6_values ps"
  by (cases "ps = []") (auto simp: ipv6_half_def plain_parts_def split_join join_with_eq_Nil)

lemma show_hex_length: "n < 65536 \<Longrightarrow> length (show_base 16 n) \<le> 4"
  using digits_of_length [of 16 n 3] by (simp add: show_base_def)

lemma ipv6_values_show:
  "\<forall>g \<in> set gs. g < 65536 \<Longrightarrow> ipv6_values (map (show_base 16) gs) = Some gs"
  by (induction gs) (auto simp: parse_show_base dest: show_hex_length)

lemma plain_parts_show: "plain_parts (map (show_base 16) gs)"
  by (auto simp: plain_parts_def char_class_defs dest!: show_hex_digits)

definition zero_run :: "nat list \<Rightarrow> nat \<times> nat \<Rightarrow> bool" where
  "zero_run all best \<longleftrightarrow>
     snd best = 0 \<or> (2 \<le> snd best \<and> take (snd best) (drop (fst best) all) = replicate (snd best) 0)"

lemma best_run_zero_run:
  "length pre = i \<Longrightarrow> zero_run (pre @ gs) best \<Longrightarrow> zero_run (pre @ gs) (best_run i gs best)"
proof (induction i gs best arbitrary: pre rule: best_run.induct)
  case (2 i g gs best)
  show ?case
  proof (cases "g = 0")
    case False
    with 2 show ?thesis using "2.IH"(1) [of "pre @ [g]"] by simp
  next
    case True
    obtain n where n: "n = length (takeWhile (\<lambda>x. x = 0) (g # gs))" by blast
    obtain rest where rest: "rest = dropWhile (\<lambda>x. x = 0) gs" by blast
    obtain next_best where nb: "next_best = (if n > snd best \<and> n \<ge> 2 then (i, n) else best)" by blast
    have zeros: "takeWhile (\<lambda>x. x = 0) (g # gs) = replicate n 0"
      unfolding n by (metis (full_types) replicate_length_same set_takeWhileD)
    have "g # gs = replicate n 0 @ rest"
      using takeWhile_dropWhile_id [of "\<lambda>x. x = 0" "g # gs", unfolded zeros] True rest by simp
    then have all: "pre @ g # gs = (pre @ replicate n 0) @ rest" by simp
    have "zero_run ((pre @ replicate n 0) @ rest) next_best"
      using "2.prems" all by (auto simp: nb zero_run_def)
    then have "zero_run ((pre @ replicate n 0) @ rest) (best_run (i + n) rest next_best)"
      using "2.IH"(2) [of n "pre @ replicate n 0"] True "2.prems"(1) n nb rest by simp
    moreover have "best_run i (g # gs) best = best_run (i + n) rest next_best"
      using True by (simp add: n nb rest Let_def)
    ultimately show ?thesis by (simp only: all)
  qed
qed simp

text \<open>What is between the brackets of the printed form.\<close>

definition ipv6_text :: "nat list \<Rightarrow> string" where
  "ipv6_text groups = butlast (tl (format_ipv6 groups))"

lemma format_ipv6_text: "format_ipv6 gs = ''['' @ ipv6_text gs @ '']''"
  by (simp add: ipv6_text_def format_ipv6_def Let_def butlast_append)

lemma ipv6_text_chars:
  assumes "c \<in> set (ipv6_text gs)" shows "is_hex_lower c \<or> c = CHR '':''"
proof -
  have "set (join_with '':'' (map (show_base 16) xs)) \<subseteq> {c. is_hex_lower c \<or> c = CHR '':''}" for xs
    using set_join_with [of "'':''" "map (show_base 16) xs"] show_hex_digits by fastforce
  moreover have "take k (map (show_base 16) gs) = map (show_base 16) (take k gs)"
    "drop k (map (show_base 16) gs) = map (show_base 16) (drop k gs)" for k
    by (simp_all add: take_map drop_map)
  ultimately show ?thesis
    using assms
    by (auto simp: ipv6_text_def format_ipv6_def Let_def butlast_append split: if_splits)
qed

lemma ipv6_groups_text:
  assumes len: "length gs = 8" and lt: "\<forall>g \<in> set gs. g < 65536"
  shows "ipv6_groups (ipv6_text gs) = Some gs"
proof -
  obtain s where s_def: "s = fst (best_run 0 gs (0, 0))" by blast
  obtain n where n_def: "n = snd (best_run 0 gs (0, 0))" by blast
  show ?thesis
  proof (cases "n = 0")
    case True
    have "ipv6_text gs = join_with '':'' (map (show_base 16) gs)"
      using True by (simp add: ipv6_text_def format_ipv6_def Let_def n_def butlast_append)
    moreover have "split_on2 (join_with '':'' (map (show_base 16) gs)) = [join_with '':'' (map (show_base 16) gs)]"
      using split_on2_join [OF plain_parts_show, of "[]" gs] by simp
    ultimately show ?thesis
      using len lt by (simp add: ipv6_groups_def ipv6_half_join plain_parts_show ipv6_values_show)
  next
    case False
    then have n: "2 \<le> n" and zeros: "take n (drop s gs) = replicate n 0"
      using best_run_zero_run [of "[]" 0 gs "(0, 0)"] by (auto simp: zero_run_def n_def s_def)
    then have "length (take n (drop s gs)) = n" by simp
    then have le: "s + n \<le> 8" using len n by (simp add: min_def split: if_splits)
    have gs: "gs = take s gs @ replicate n 0 @ drop (s + n) gs"
      using zeros by (metis add.commute append_take_drop_id drop_drop)
    have shown: "ipv6_text gs = join_with '':'' (map (show_base 16) (take s gs)) @ ''::''
        @ join_with '':'' (map (show_base 16) (drop (s + n) gs))"
      using False by (simp add: ipv6_text_def format_ipv6_def Let_def n_def s_def butlast_append take_map drop_map)
    have sp: "split_on2 (ipv6_text gs) =
        [join_with '':'' (map (show_base 16) (take s gs)), join_with '':'' (map (show_base 16) (drop (s + n) gs))]"
      unfolding shown by (rule split_on2_compressed) (rule plain_parts_show)+
    have halves: "ipv6_half (join_with '':'' (map (show_base 16) (take s gs))) = Some (take s gs)"
      "ipv6_half (join_with '':'' (map (show_base 16) (drop (s + n) gs))) = Some (drop (s + n) gs)"
      using lt by (auto simp: ipv6_half_join plain_parts_show intro!: ipv6_values_show
          dest: in_set_takeD in_set_dropD)
    have "8 - length (take s gs) - length (drop (s + n) gs) = n"
      "length (take s gs) + length (drop (s + n) gs) \<le> 7" using le n len by auto
    then show ?thesis
      using gs [symmetric] unfolding ipv6_groups_def sp Let_def by (simp add: halves)
  qed
qed


lemma digit_val_hex: "is_hex c \<Longrightarrow> digit_val c < 16"
  by (auto simp: digit_val_def char_class_defs)

lemma parse_base_bound:
  "(\<And>c. c \<in> set s \<Longrightarrow> digit_val c < b) \<Longrightarrow> parse_base b s < b ^ length s"
proof (induction s rule: rev_induct)
  case (snoc c s)
  then have IH: "parse_base b s < b ^ length s" and c: "digit_val c < b" by auto
  from IH have "Suc (parse_base b s) * b \<le> b ^ length s * b" by (intro mult_le_mono1) simp
  with c show ?case by (simp add: parse_base_def mult.commute)
qed (simp add: parse_base_def)

lemma ipv6_values_bound:
  "ipv6_values ps = Some gs \<Longrightarrow> \<forall>p \<in> set ps. list_all is_hex p \<Longrightarrow> \<forall>g \<in> set gs. g < 65536"
proof (induction ps arbitrary: gs)
  case (Cons p ps)
  then obtain hs where gs: "gs = parse_base 16 p # hs" and p: "length p \<le> 4" "list_all is_hex p"
    and hs: "ipv6_values ps = Some hs"
    by (auto split: if_splits)
  have "parse_base 16 p < 16 ^ length p"
    using p(2) by (intro parse_base_bound) (auto simp: list_all_iff digit_val_hex)
  also have "(16 :: nat) ^ length p \<le> 16 ^ 4" using p(1) by (intro power_increasing) auto
  finally show ?case using Cons gs hs by auto
qed simp

lemma ipv6_half_bound:
  assumes "ipv6_half part = Some gs" "\<forall>c \<in> set part. is_hex c \<or> c = CHR '':''"
  shows "\<forall>g \<in> set gs. g < 65536"
proof (cases "part = []")
  case False
  have "\<forall>p \<in> set (split_on CHR '':'' part). list_all is_hex p"
    using assms(2) split_on_parts [of _ "CHR '':''" part] by (fastforce simp: list_all_iff)
  with assms(1) False show ?thesis by (auto simp: ipv6_half_def dest: ipv6_values_bound)
qed (use assms in \<open>auto simp: ipv6_half_def\<close>)

lemma split_on2_parts: "p \<in> set (split_on2 s) \<Longrightarrow> set p \<subseteq> set s"
  by (induction s arbitrary: p rule: split_on2.induct) (fastforce split: if_splits list.splits)+

lemma ipv6_groups_valid:
  assumes "ipv6_groups s = Some gs" "\<forall>c \<in> set s. is_hex c \<or> c = CHR '':''"
  shows "length gs = 8 \<and> (\<forall>g \<in> set gs. g < 65536)"
proof -
  have half: "\<forall>g \<in> set hs. g < 65536" if "p \<in> set (split_on2 s)" "ipv6_half p = Some hs" for p hs
    using assms(2) split_on2_parts [OF that(1)] by (intro ipv6_half_bound [OF that(2)]) blast
  obtain h where h: "ipv6_half (hd (split_on2 s)) = Some h"
    using assms(1) by (auto simp: ipv6_groups_def Let_def split: if_splits option.splits)
  then have hb: "\<forall>g \<in> set h. g < 65536" by (intro half) auto
  show ?thesis
  proof (cases "length (split_on2 s) = 2")
    case True
    then obtain t where t: "ipv6_half (split_on2 s ! 1) = Some t"
      using assms(1) by (auto simp: ipv6_groups_def Let_def split: if_splits option.splits)
    then have "\<forall>g \<in> set t. g < 65536" using True by (intro half) auto
    with assms(1) True h t hb show ?thesis
      by (auto simp: ipv6_groups_def Let_def split: if_splits)
  next
    case False
    with assms(1) h hb show ?thesis
      by (auto simp: ipv6_groups_def Let_def split: if_splits)
  qed
qed

lemma canonicalIpv6_SomeD:
  assumes "canonicalIpv6 inner = Some h"
  shows "\<exists>gs. h = format_ipv6 gs \<and> length gs = 8 \<and> (\<forall>g \<in> set gs. g < 65536)"
proof -
  from assms obtain s gs where "list_all (\<lambda>c. is_hex_lower c \<or> c = CHR '':'') s"
    and gs: "ipv6_groups s = Some gs" and "h = format_ipv6 gs"
    by (auto simp: canonicalIpv6_def Let_def split: if_splits option.splits ipv4.splits)
  moreover from this have "\<forall>c \<in> set s. is_hex c \<or> c = CHR '':''"
    by (auto simp: list_all_iff is_hex_def)
  ultimately show ?thesis using ipv6_groups_valid by blast
qed

lemma canonicalIpv6_format:
  assumes "length gs = 8" "\<forall>g \<in> set gs. g < 65536"
  shows "canonicalIpv6 (ipv6_text gs) = Some (format_ipv6 gs)"
proof -
  let ?t = "ipv6_text gs"
  have chars: "\<forall>c \<in> set ?t. is_hex_lower c \<or> c = CHR '':''" using ipv6_text_chars by blast
  have lower: "to_lower ?t = ?t"
    using chars by (intro to_lower_same) (auto simp: lower_char_same)
  have "set (after_last_colon ?t) \<subseteq> set ?t"
    unfolding after_last_colon_def using split_on_parts [of _ "CHR '':''" ?t]
    by (metis last_in_set split_on_not_Nil)
  moreover have "CHR ''.'' \<notin> set ?t"
  proof
    assume "CHR ''.'' \<in> set ?t"
    with chars have "is_hex_lower CHR ''.'' \<or> CHR ''.'' = CHR '':''" by blast
    then show False by (simp add: char_class_defs)
  qed
  ultimately have "CHR ''.'' \<notin> set (after_last_colon ?t)" by blast
  then have "\<not> is_dotted (after_last_colon ?t)"
    by (simp add: is_dotted_def Let_def split_on_absent)
  moreover have "?t \<noteq> []"
    using ipv6_groups_text [OF assms] assms(1) by (auto simp: ipv6_groups_def ipv6_half_def)
  ultimately show ?thesis
    using chars ipv6_groups_text [OF assms] unfolding canonicalIpv6_def Let_def lower
    by (simp add: list_all_iff)
qed


subsection \<open>The canonical spelling is a fixed point\<close>

text \<open>What the host of a canonical origin looks like.\<close>

definition canonical_host_form :: "string \<Rightarrow> bool" where
  "canonical_host_form h \<longleftrightarrow>
     (\<exists>gs. h = format_ipv6 gs \<and> length gs = 8 \<and> (\<forall>g \<in> set gs. g < 65536)) \<or>
     (h \<noteq> [] \<and> (\<forall>c \<in> set h. is_domain_char c \<or> c = CHR ''.''))"

lemma is_domain_chars:
  assumes "is_domain s" shows "s \<noteq> [] \<and> (\<forall>c \<in> set s. is_domain_char c \<or> c = CHR ''.'')"
proof -
  obtain t where t: "t = (if s \<noteq> [] \<and> last s = CHR ''.'' then butlast s else s)" by blast
  have parts: "\<forall>p \<in> set (split_on CHR ''.'' t). p \<noteq> [] \<and> (\<forall>c \<in> set p. is_domain_char c)"
    using assms unfolding is_domain_def Let_def t [symmetric] list_all_iff by blast
  have "set t \<subseteq> set ''.'' \<union> (\<Union>p \<in> set (split_on CHR ''.'' t). set p)"
    using set_join_with [of "''.''" "split_on CHR ''.'' t"] by (simp only: join_split)
  with parts have "\<forall>c \<in> set t. is_domain_char c \<or> c = CHR ''.''" by fastforce
  moreover have "t \<noteq> []"
  proof
    assume "t = []"
    then have "split_on CHR ''.'' t = [[]]" by simp
    with parts show False by simp
  qed
  moreover have "set s \<subseteq> set t \<union> {CHR ''.''}"
    by (cases s rule: rev_cases) (auto simp: t)
  moreover have "s \<noteq> []" using \<open>t \<noteq> []\<close> by (auto simp: t)
  ultimately show ?thesis by blast
qed

lemma is_domain_dotted_quad: "is_domain (dotted_quad a)"
proof -
  have "last (dotted_quad a) \<noteq> CHR ''.''"
  proof -
    have "dotted_quad a = (show_nat (a div 2 ^ 24 mod 256) @ ''.'' @ show_nat (a div 2 ^ 16 mod 256) @ ''.''
        @ show_nat (a div 2 ^ 8 mod 256) @ ''.'') @ show_nat (a mod 256)"
      by (simp add: dotted_quad_def)
    then have "last (dotted_quad a) = last (show_nat (a mod 256))" by simp
    then show ?thesis using show_nat_no_dot by (metis last_in_set show_base_not_Nil)
  qed
  then show ?thesis
    by (auto simp: is_domain_def Let_def dotted_quad_parts is_domain_char_def list_all_iff
        dest: show_nat_digits)
qed

lemma lower_dotted_quad: "to_lower (dotted_quad a) = dotted_quad a"
  using dotted_quad_chars by (intro to_lower_same lower_char_same) (fastforce simp: is_digit_def)

lemma not_bracket_domain:
  "\<forall>c \<in> set h. is_domain_char c \<or> c = CHR ''.'' \<Longrightarrow> \<not> starts_with ''['' h"
  by (cases h) (auto simp: starts_with_def is_domain_char_def char_class_defs)

lemma canonical_host_fixed:
  assumes "canonical_host t = Some h"
  shows "canonical_host h = Some h \<and> canonical_host_form h"
proof (cases "starts_with ''['' t")
  case True
  then obtain gs where gs: "h = format_ipv6 gs" "length gs = 8" "\<forall>g \<in> set gs. g < 65536"
    using assms by (auto simp: canonical_host_def dest!: canonicalIpv6_SomeD)
  have "canonical_host h = canonicalIpv6 (ipv6_text gs)"
    by (simp add: canonical_host_def gs(1) format_ipv6_text starts_with_def)
  with gs canonicalIpv6_format [of gs] show ?thesis by (auto simp: canonical_host_form_def)
next
  case False
  let ?l = "to_lower t"
  have dom: "is_domain ?l" using assms False by (auto simp: canonical_host_def Let_def split: if_splits)
  show ?thesis
  proof (cases "canonicalIpv4 ?l")
    case NotNumeric
    then have h: "h = ?l" using assms False dom by (simp add: canonical_host_def Let_def)
    then show ?thesis
      using NotNumeric dom is_domain_chars [OF dom] not_bracket_domain [of h]
      by (simp add: canonical_host_def canonical_host_form_def Let_def)
  next
    case (Address q)
    then obtain a where a: "a < 4294967296" "q = dotted_quad a" using canonicalIpv4_AddressD by blast
    have h: "h = q" using Address assms False dom by (simp add: canonical_host_def Let_def)
    show ?thesis
      using a h is_domain_dotted_quad [of a] is_domain_chars [OF is_domain_dotted_quad, of a]
        not_bracket_domain [of h] canonicalIpv4_dotted_quad [of a]
      by (simp add: canonical_host_def canonical_host_form_def Let_def lower_dotted_quad)
  next
    case BadAddress
    with assms False dom show ?thesis by (simp add: canonical_host_def Let_def)
  qed
qed

lemma canonical_port_fixed:
  assumes "canonical_port d pt = Some p"
  shows "(p = [] \<and> canonical_port d None = Some p) \<or>
     (\<exists>n. p = CHR '':'' # show_nat n \<and> canonical_port d (Some (show_nat n)) = Some p)"
proof (cases "p = []")
  case False
  then obtain t where p: "pt = Some t" "p = CHR '':'' # show_nat (parse_base 10 t)"
    "parse_base 10 t \<le> 65535" "Port (parse_base 10 t) \<noteq> d"
    using assms by (auto simp: canonical_port_def Let_def split: option.splits if_splits)
  then have "length (show_nat (parse_base 10 t)) \<le> 5"
    using digits_of_length [of 10 "parse_base 10 t" 4] by (simp add: show_base_def)
  then have "canonical_port d (Some (show_nat (parse_base 10 t))) = Some p"
    using p(2-4) by (simp add: canonical_port_def is_port_text_def parse_show_base)
  with p(2) show ?thesis by blast
qed (simp add: canonical_port_def)

lemma split_authority_bracket:
  assumes "CHR '']'' \<notin> set t"
  shows "split_authority (''['' @ t @ '']'' @ r) =
     (if r = [] then Some (''['' @ t @ '']'', None)
      else if starts_with '':'' r then Some (''['' @ t @ '']'', Some (drop 1 r)) else None)"
proof -
  have "index_of CHR '']'' ((CHR ''['' # t) @ CHR '']'' # r) = Some (length (CHR ''['' # t))"
    using assms by (intro index_of_append) auto
  then show ?thesis by (simp add: split_authority_def starts_with_def)
qed

lemma split_authority_canonical:
  assumes "canonical_host_form h"
  shows "split_authority h = Some (h, None)" "split_authority (h @ CHR '':'' # t) = Some (h, Some t)"
proof -
  have both: "split_authority h = Some (h, None) \<and> split_authority (h @ CHR '':'' # t) = Some (h, Some t)"
  proof (cases "\<forall>c \<in> set h. is_domain_char c \<or> c = CHR ''.''")
    case True
    then have "CHR '':'' \<notin> set h" by (auto simp: is_domain_char_def char_class_defs)
    moreover have "\<not> starts_with ''['' h" using True by (rule not_bracket_domain)
    moreover have "h \<noteq> []" using assms by (auto simp: canonical_host_form_def format_ipv6_text)
    ultimately show ?thesis
      by (cases h) (auto simp: split_authority_def starts_with_def index_of_append index_of_None
          split: option.splits)
  next
    case False
    then obtain gs where gs: "h = ''['' @ ipv6_text gs @ '']''"
      using assms by (auto simp: canonical_host_form_def format_ipv6_text)
    have "CHR '']'' \<notin> set (ipv6_text gs)"
      using ipv6_text_chars [of "CHR '']''" gs] by (auto simp: char_class_defs)
    then show ?thesis
      using split_authority_bracket [of "ipv6_text gs" "[]"] split_authority_bracket [of "ipv6_text gs" "CHR '':'' # t"]
      by (simp add: gs starts_with_def)
  qed
  then show "split_authority h = Some (h, None)" "split_authority (h @ CHR '':'' # t) = Some (h, Some t)"
    by auto
qed

lemma canonical_host_form_chars:
  assumes "canonical_host_form h" "c \<in> set h" shows "c \<notin> set ''/?#@''"
proof -
  have "is_hex_lower c \<or> c \<in> set '':[]'' \<or> is_domain_char c \<or> c = CHR ''.''"
    using assms by (auto simp: canonical_host_form_def format_ipv6_text dest: ipv6_text_chars)
  then show ?thesis by (auto simp: is_domain_char_def char_class_defs)
qed

lemma is_scheme_char_lower: "is_scheme_char c \<Longrightarrow> is_scheme_char (lower_char c)"
  by (auto simp: is_scheme_char_def lower_char_def char_class_defs)

lemma is_alpha_lower: "is_alpha c \<Longrightarrow> is_alpha (lower_char c)"
  by (auto simp: lower_char_def char_class_defs)

lemma not_scheme_colon [simp]: "\<not> is_scheme_char CHR '':''"
  by (simp add: is_scheme_char_def char_class_defs)

lemma origin_shape_build:
  assumes "s \<noteq> []" "is_alpha (hd s)" "\<forall>c \<in> set s. is_scheme_char c" "\<forall>c \<in> set r. c \<notin> set ''/?#''"
  shows "origin_shape (s @ ''://'' @ r) = Some (s, r)"
proof -
  have "takeWhile is_scheme_char (s @ ''://'' @ r) = s" "dropWhile is_scheme_char (s @ ''://'' @ r) = ''://'' @ r"
    using assms(3) by (simp_all add: takeWhile_append dropWhile_append)
  with assms show ?thesis by (auto simp: origin_shape_def Let_def list_all_iff)
qed

lemma origin_shape_SomeD:
  "origin_shape v = Some (s, r) \<Longrightarrow> s \<noteq> [] \<and> is_alpha (hd s) \<and> (\<forall>c \<in> set s. is_scheme_char c)"
  by (auto simp: origin_shape_def Let_def split: if_splits dest: set_takeWhileD)

lemma canonicalOrigin_SomeD:
  assumes "canonicalOrigin v ports = Some c"
  obtains s d h p where "c = s @ ''://'' @ h @ p" "to_lower s = s" "s \<noteq> []" "is_alpha (hd s)"
    "\<forall>x \<in> set s. is_scheme_char x" "port_table ports s = Some d" "canonical_host h = Some h"
    "canonical_host_form h"
    "(p = [] \<and> canonical_port d None = Some p) \<or>
     (\<exists>n. p = CHR '':'' # show_nat n \<and> canonical_port d (Some (show_nat n)) = Some p)"
proof -
  from assms obtain s0 a d ht pt h p where shape: "origin_shape v = Some (s0, a)"
    and d: "port_table ports (to_lower s0) = Some d" and h: "canonical_host ht = Some h"
    and p: "canonical_port d pt = Some p" and c: "c = to_lower s0 @ ''://'' @ h @ p"
    by (auto simp: canonicalOrigin_def Let_def split: option.splits prod.splits if_splits)
  show ?thesis
  proof (rule that [OF c])
    show "is_alpha (hd (to_lower s0))" "\<forall>x \<in> set (to_lower s0). is_scheme_char x" "to_lower s0 \<noteq> []"
      using origin_shape_SomeD [OF shape]
      by (auto simp: to_lower_def hd_map is_alpha_lower is_scheme_char_lower)
  qed (use d canonical_host_fixed [OF h] canonical_port_fixed [OF p] in auto)
qed

lemma canonicalOrigin_fixed:
  assumes "canonicalOrigin v ports = Some c"
  shows "canonicalOrigin c ports = Some c"
proof -
  obtain s d h p where c: "c = s @ ''://'' @ h @ p" and s: "to_lower s = s" "s \<noteq> []" "is_alpha (hd s)"
    "\<forall>x \<in> set s. is_scheme_char x" and d: "port_table ports s = Some d" and h: "canonical_host h = Some h"
    "canonical_host_form h"
    and p: "(p = [] \<and> canonical_port d None = Some p) \<or>
     (\<exists>n. p = CHR '':'' # show_nat n \<and> canonical_port d (Some (show_nat n)) = Some p)"
    using assms by (rule canonicalOrigin_SomeD)
  have pc: "\<forall>x \<in> set p. is_digit x \<or> x = CHR '':''"
    using p show_nat_digits by auto
  have chars: "\<forall>x \<in> set (h @ p). x \<notin> set ''/?#@''"
    using canonical_host_form_chars [OF h(2)] pc by (auto simp: is_digit_def)
  have shape: "origin_shape c = Some (s, h @ p)"
    unfolding c using s chars by (intro origin_shape_build) auto
  have at: "CHR ''@'' \<notin> set (h @ p)" using chars by auto
  obtain pt where sp: "split_authority (h @ p) = Some (h, pt)" and cp: "canonical_port d pt = Some p"
    using p split_authority_canonical [OF h(2)] by auto
  show ?thesis
    using at by (simp add: canonicalOrigin_def shape s(1) d sp h(1) cp) (simp add: c)
qed


subsection \<open>Spelling: letter case\<close>

lemma lower_char_plain:
  "code x < 65 \<or> (90 < code x \<and> code x < 97) \<Longrightarrow> lower_char c = x \<longleftrightarrow> c = x"
  using code_lt [of c]
  by (auto simp: lower_char_def is_upper_def dest: arg_cong [where f = code])

lemma plain_lower_char:
  "code x < 65 \<or> (90 < code x \<and> code x < 97) \<Longrightarrow> x = lower_char c \<longleftrightarrow> x = c"
  using lower_char_plain [of x c] by auto

lemma in_to_lower:
  "code x < 65 \<or> (90 < code x \<and> code x < 97) \<Longrightarrow> x \<in> set (to_lower s) \<longleftrightarrow> x \<in> set s"
  by (induction s) (auto simp: to_lower_def plain_lower_char)

lemma is_scheme_char_lower_iff [simp]: "is_scheme_char (lower_char c) \<longleftrightarrow> is_scheme_char c"
  using code_lt [of c]
  by (auto simp: is_scheme_char_def lower_char_plain) (auto simp: lower_char_def char_class_defs split: if_splits)

lemma is_alpha_lower_iff [simp]: "is_alpha (lower_char c) \<longleftrightarrow> is_alpha c"
  using code_lt [of c] by (auto simp: lower_char_def char_class_defs split: if_splits)

lemma is_digit_lower [simp]: "is_digit (lower_char c) \<longleftrightarrow> is_digit c"
  using code_lt [of c] by (auto simp: lower_char_def char_class_defs split: if_splits)

lemma index_of_lower:
  "code x < 65 \<or> (90 < code x \<and> code x < 97) \<Longrightarrow> index_of x (to_lower s) = index_of x s"
  by (induction s) (auto simp: to_lower_def lower_char_plain)

lemma starts_with_lower:
  "code x < 65 \<or> (90 < code x \<and> code x < 97) \<Longrightarrow> starts_with [x] (to_lower s) \<longleftrightarrow> starts_with [x] s"
  by (cases s) (auto simp: starts_with_def to_lower_def lower_char_plain)

lemma to_lower_take [simp]: "to_lower (take n s) = take n (to_lower s)"
  by (simp add: to_lower_def take_map)

lemma to_lower_drop [simp]: "to_lower (drop n s) = drop n (to_lower s)"
  by (simp add: to_lower_def drop_map)

lemma split_authority_lower:
  "split_authority (to_lower a) = map_option (map_prod to_lower (map_option to_lower)) (split_authority a)"
proof -
  have len: "length (to_lower a) = length a" by (simp add: to_lower_def)
  then have nil: "drop n (to_lower a) = [] \<longleftrightarrow> drop n a = []" for n by simp
  have colon: "starts_with '':'' (drop n (to_lower a)) \<longleftrightarrow> starts_with '':'' (drop n a)" for n
    using starts_with_lower [of "CHR '':''" "drop n a"] by simp
  show ?thesis
    using starts_with_lower [of "CHR ''[''" a] index_of_lower [of "CHR '']''" a]
      index_of_lower [of "CHR '':''" a]
    by (simp add: split_authority_def Let_def nil colon len split: option.splits)
qed

lemma canonicalIpv6_lower: "canonicalIpv6 (to_lower s) = canonicalIpv6 s"
  by (simp add: canonicalIpv6_def)

lemma canonical_host_lower: "canonical_host (to_lower h) = canonical_host h"
proof -
  have "butlast (tl (to_lower h)) = to_lower (butlast (tl h))"
    by (simp add: to_lower_def map_butlast map_tl)
  then show ?thesis
    using starts_with_lower [of "CHR ''[''" h] by (simp add: canonical_host_def canonicalIpv6_lower)
qed

lemma to_lower_digits: "list_all is_digit s \<Longrightarrow> to_lower s = s"
  by (intro to_lower_same lower_char_same) (auto simp: list_all_iff is_digit_def)

lemma canonical_port_lower: "canonical_port d (map_option to_lower t) = canonical_port d t"
proof (cases t)
  case (Some s)
  have "list_all is_digit (to_lower s) \<longleftrightarrow> list_all is_digit s"
    by (simp add: to_lower_def list_all_length)
  then show ?thesis
    using Some to_lower_digits [of s] by (auto simp: canonical_port_def is_port_text_def to_lower_def)
qed simp

lemma origin_shape_lower:
  "origin_shape (to_lower v) = map_option (map_prod to_lower to_lower) (origin_shape v)"
proof -
  have tw: "takeWhile is_scheme_char (to_lower v) = to_lower (takeWhile is_scheme_char v)"
    by (simp add: to_lower_def takeWhile_map comp_def)
  have dw: "dropWhile is_scheme_char (to_lower v) = to_lower (dropWhile is_scheme_char v)"
    by (simp add: to_lower_def dropWhile_map comp_def)
  have sep: "take 3 (to_lower r) = ''://'' \<longleftrightarrow> take 3 r = ''://''" for r
    by (cases r; cases "tl r"; cases "tl (tl r)") (auto simp: to_lower_def lower_char_plain)
  have rest: "list_all (\<lambda>c. c \<notin> set ''/?#'') (to_lower r) \<longleftrightarrow> list_all (\<lambda>c. c \<notin> set ''/?#'') r" for r
    by (auto simp: to_lower_def list_all_iff lower_char_plain)
  have hd: "s \<noteq> [] \<Longrightarrow> is_alpha (hd (to_lower s)) \<longleftrightarrow> is_alpha (hd s)" for s
    by (simp add: to_lower_def hd_map)
  show ?thesis
    using rest [of "drop 3 (dropWhile is_scheme_char v)"]
    by (auto simp: origin_shape_def Let_def tw dw sep hd)
qed

lemma canonicalOrigin_lower: "canonicalOrigin (to_lower v) ports = canonicalOrigin v ports"
proof (cases "origin_shape v")
  case (Some sa)
  obtain s a where sa: "sa = (s, a)" by (cases sa)
  have at: "CHR ''@'' \<in> set (to_lower a) \<longleftrightarrow> CHR ''@'' \<in> set a"
    by (rule in_to_lower) simp
  show ?thesis
    by (auto simp: canonicalOrigin_def Let_def origin_shape_lower Some sa at split_authority_lower
        canonical_host_lower canonical_port_lower split: option.splits)
qed (simp add: canonicalOrigin_def origin_shape_lower)

subsection \<open>Scopes\<close>

lemma after_slashes_scheme:
  "\<forall>x \<in> set s. is_scheme_char x \<Longrightarrow> after_slashes (s @ ''://'' @ r) = Some r"
proof (induction s)
  case (Cons x s)
  then have "x \<noteq> CHR ''/''" by (auto simp: is_scheme_char_def char_class_defs)
  moreover obtain y t where "s @ ''://'' @ r = y # t" by (cases s) auto
  ultimately show ?case using Cons by auto
qed simp

lemma hostnameOf_canonical:
  assumes "\<forall>x \<in> set s. is_scheme_char x" "canonical_host_form h" "p = [] \<or> (\<exists>t. p = CHR '':'' # t)"
  shows "hostnameOf (s @ ''://'' @ h @ p) = h"
proof (cases "\<forall>c \<in> set h. is_domain_char c \<or> c = CHR ''.''")
  case True
  then have "CHR '':'' \<notin> set h" "\<not> starts_with ''['' h"
    by (auto simp: is_domain_char_def char_class_defs not_bracket_domain)
  moreover have "h \<noteq> []" using assms(2) by (auto simp: canonical_host_form_def format_ipv6_text)
  ultimately have "\<not> starts_with ''['' (h @ p)" by (cases h) (auto simp: starts_with_def)
  moreover have "index_of CHR '':'' (h @ p) = (if p = [] then None else Some (length h))"
    using \<open>CHR '':'' \<notin> set h\<close> assms(3) by (auto simp: index_of_append index_of_None)
  ultimately show ?thesis
    using assms(3) by (auto simp: hostnameOf_def after_slashes_scheme [OF assms(1), simplified])
next
  case False
  then obtain gs where gs: "h = ''['' @ ipv6_text gs @ '']''"
    using assms(2) by (auto simp: canonical_host_form_def format_ipv6_text)
  have "CHR '']'' \<notin> set (ipv6_text gs)"
    using ipv6_text_chars [of "CHR '']''" gs] by (auto simp: char_class_defs)
  then have "index_of CHR '']'' ((CHR ''['' # ipv6_text gs) @ CHR '']'' # p) = Some (length (CHR ''['' # ipv6_text gs))"
    by (intro index_of_append) auto
  then show ?thesis
    by (simp add: hostnameOf_def after_slashes_scheme [OF assms(1), simplified] gs starts_with_def)
qed

lemma canonicalHttpOrigin_no_slash: "CHR ''/'' \<notin> set v \<Longrightarrow> canonicalHttpOrigin v = None"
proof -
  assume no: "CHR ''/'' \<notin> set v"
  have "origin_shape v = None"
  proof (rule ccontr)
    assume "origin_shape v \<noteq> None"
    then have "take 3 (dropWhile is_scheme_char v) = ''://''"
      by (auto simp: origin_shape_def Let_def split: if_splits)
    then have "CHR ''/'' \<in> set (take 3 (dropWhile is_scheme_char v))" by simp
    then have "CHR ''/'' \<in> set v" by (meson in_set_takeD set_dropWhileD)
    with no show False by blast
  qed
  then show ?thesis by (simp add: canonicalHttpOrigin_def canonicalOrigin_def)
qed

lemma hostname_not_origin:
  assumes "canonicalHttpOrigin v = Some c" shows "canonicalHttpOrigin (hostnameOf c) = None"
proof -
  obtain s d h p where c: "c = s @ ''://'' @ h @ p" "\<forall>x \<in> set s. is_scheme_char x" "canonical_host_form h"
    and "(p = [] \<and> canonical_port d None = Some p) \<or>
     (\<exists>n. p = CHR '':'' # show_nat n \<and> canonical_port d (Some (show_nat n)) = Some p)"
    using assms unfolding canonicalHttpOrigin_def by (rule canonicalOrigin_SomeD)
  then have "hostnameOf c = h" unfolding c(1) by (intro hostnameOf_canonical) auto
  with c canonical_host_form_chars [of h "CHR ''/''"] show ?thesis
    by (auto intro!: canonicalHttpOrigin_no_slash)
qed

lemma siteScopes_not_Nil [simp]: "siteScopes x \<noteq> []"
  by (simp add: siteScopes_def split: option.splits)

lemma storageLabel_in_scopes: "storageLabel x \<in> set (siteScopes x)"
  by (simp add: storageLabel_def)

lemma siteScopes_cases:
  obtains "canonicalHttpOrigin x = None" "siteScopes x = [x]" "storageLabel x = x"
  | c where "canonicalHttpOrigin x = Some c" "siteScopes x = [c, hostnameOf c]" "storageLabel x = c"
      "hostnameOf c \<noteq> c"
proof (cases "canonicalHttpOrigin x")
  case (Some c)
  have "hostnameOf c \<noteq> c"
    using hostname_not_origin [OF Some] canonicalOrigin_fixed Some
    by (auto simp: canonicalHttpOrigin_def)
  with Some that(2) show ?thesis by (auto simp: siteScopes_def storageLabel_def)
qed (use that(1) in \<open>auto simp: siteScopes_def storageLabel_def\<close>)

lemma distinct_siteScopes: "distinct (siteScopes x)"
  by (cases x rule: siteScopes_cases) auto


lemma canonicalOrigin_scheme:
  assumes "canonicalOrigin v ports = Some c"
  shows "\<exists>r. c = to_lower (takeWhile is_scheme_char v) @ ''://'' @ r"
  using assms
  by (auto simp: canonicalOrigin_def origin_shape_def Let_def split: option.splits prod.splits if_splits)

lemma first_colon_unique:
  "CHR '':'' \<notin> set s \<Longrightarrow> CHR '':'' \<notin> set t \<Longrightarrow> s @ CHR '':'' # u = t @ CHR '':'' # v \<longleftrightarrow> s = t \<and> u = v"
proof (induction s arbitrary: t)
  case Nil
  then show ?case by (cases t) auto
next
  case (Cons x s)
  then show ?case by (cases t) auto
qed

lemma scheme_no_colon: "\<forall>x \<in> set s. is_scheme_char x \<Longrightarrow> CHR '':'' \<notin> set s"
  by auto

lemma takeWhile_scheme: "\<forall>x \<in> set s. is_scheme_char x \<Longrightarrow> takeWhile is_scheme_char (s @ CHR '':'' # r) = s"
  by (simp add: takeWhile_append)

subsection \<open>Properties\<close>

text \<open>C33: The canonical spelling of an http(s) origin is a fixed point: canonicalising it again
  gives the same string, for domain, IPv4 and compressed IPv6 hosts and for any port.\<close>

theorem canonicalHttpOrigin_idempotent:
  "canonicalHttpOrigin v = Some c \<Longrightarrow> canonicalHttpOrigin c = Some c"
  unfolding canonicalHttpOrigin_def by (rule canonicalOrigin_fixed)

theorem canonicalHttpOrigin_idempotent_witness:
  "canonicalHttpOrigin ''https://[2001:db8::1:0:0:1]:444'' = Some ''https://[2001:db8::1:0:0:1]:444''"
  by (rule canonicalHttpOrigin_idempotent [of "''HTTPS://[2001:DB8:0:0:1:0:0:1]:0444''"]) code_simp

text \<open>Letter case never matters: an origin and its lowercase spelling canonicalise to the same
  label, or are refused together.\<close>

theorem canonicalHttpOrigin_case_insensitive:
  "canonicalHttpOrigin (to_lower v) = canonicalHttpOrigin v"
  unfolding canonicalHttpOrigin_def by (rule canonicalOrigin_lower)

text \<open>The labels read for an http(s) origin are exactly its canonical spelling and its bare
  hostname, they are the same for every spelling of the origin, they are distinct, and the
  hostname is never itself an origin with scopes of its own.\<close>

theorem siteScopes_of_origin:
  assumes "canonicalHttpOrigin v = Some c"
  shows "siteScopes v = [c, hostnameOf c] \<and> siteScopes c = siteScopes v \<and> storageLabel v = c
    \<and> hostnameOf c \<noteq> c \<and> siteScopes (hostnameOf c) = [hostnameOf c]"
proof -
  have c: "canonicalHttpOrigin c = Some c"
    using assms unfolding canonicalHttpOrigin_def by (rule canonicalOrigin_fixed)
  show ?thesis
    using assms c hostname_not_origin [OF assms]
    by (cases v rule: siteScopes_cases) (auto simp: siteScopes_def)
qed

theorem siteScopes_of_origin_witness:
  "siteScopes ''https://EXAMPLE.com:443'' = [''https://example.com'', ''example.com'']"
proof -
  have "canonicalHttpOrigin ''https://EXAMPLE.com:443'' = Some ''https://example.com''" by code_simp
  from siteScopes_of_origin [OF this] have
    "siteScopes ''https://EXAMPLE.com:443'' = [''https://example.com'', hostnameOf ''https://example.com'']"
    by blast
  moreover have "hostnameOf ''https://example.com'' = ''example.com''" by code_simp
  ultimately show ?thesis by simp
qed

text \<open>The table of default ports is a plain object, so the scheme \<open>constructor\<close> is accepted as
  if it were http(s): such a label gets a hostname scope although no web origin has it.\<close>

theorem constructor_scheme_accepted:
  "canonicalHttpOrigin ''constructor://Example.com:80'' = Some ''constructor://example.com:80''
   \<and> siteScopes ''constructor://example.com'' = [''constructor://example.com'', ''example.com'']
   \<and> canonicalHttpOrigin ''ftp://example.com'' = None"
  by code_simp

end
