(* ===== verification/Perm_Auth.thy ===== *)
theory Perm_Auth
  imports Perm_Scope
begin

section \<open>Authentication events and their destinations\<close>

text \<open>
  \<^verbatim>\<open>packages/identity/src/permissions/authentication.ts\<close>: who asks for a credential
  (\<open>requester\<close>), what the event is addressed to (\<open>destinationOf\<close>), and the parser that accepts
  an authentication event or throws (\<open>parseAuthentication\<close>). Every \<open>throw\<close> is an \<open>Inl\<close>; the
  \<open>undefined\<close> the source returns for an ordinary event is \<open>Inr None\<close>. The regular expressions
  are predicates on strings.
\<close>

datatype auth_error =
  BadRequester | BadTag string | BadLegacy | BadChallenge | BadTimestamp | BadContent
| BadDestination | BadMethod | BadPayload

datatype requester =
  OriginString string
| WebRequester string
| Nip46Requester string
| Nip55Requester string "string option"
| LanRequester string
| LocalRequester string

datatype protocol = Nip42 | Nip98 | LegacyLogin

datatype auth_scope = Once | Site | ConnectedSites | OtherScope

text \<open>A number read from an event: \<open>Number.isInteger\<close> refuses every other.\<close>

datatype js_num = IntNum int | NonInt

record auth_event =
  ev_kind :: int
  ev_content :: string
  ev_created_at :: js_num
  ev_tags :: "string list list"

record auth_request =
  req_protocol :: protocol
  req_url :: string
  req_destination :: string
  req_method :: "string option"
  req_crossOrigin :: bool

definition NIP42_MAX_AGE_SECONDS :: int where "NIP42_MAX_AGE_SECONDS = 600"

definition NIP98_MAX_AGE_SECONDS :: int where "NIP98_MAX_AGE_SECONDS = 60"

definition LOOPBACK_HOSTS :: "string list" where
  "LOOPBACK_HOSTS = [''localhost'', ''127.0.0.1'', ''[::1]'']"

definition ORIGIN_METADATA_TAGS :: "string list" where
  "ORIGIN_METADATA_TAGS = [''origin'', ''client-origin'']"

definition is_hex64 :: "string \<Rightarrow> bool" where
  "is_hex64 s \<longleftrightarrow> length s = 64 \<and> list_all is_hex_lower s"

definition is_http_method :: "string \<Rightarrow> bool" where
  "is_http_method s \<longleftrightarrow>
     s \<noteq> [] \<and> list_all (\<lambda>c. is_digit c \<or> is_upper c
        \<or> c \<in> set (''!#$%&*+.^_|~-'' @ [char_of (39 :: nat), char_of (96 :: nat)])) s"

text \<open>Control characters, the space and DEL.\<close>

definition is_control :: "char \<Rightarrow> bool" where
  "is_control c \<longleftrightarrow> code c \<le> 32 \<or> code c = 127"

subsection \<open>Requesters\<close>

definition requesterLabel :: "string \<Rightarrow> auth_error + string" where
  "requesterLabel value =
     (if value = [] \<or> value \<noteq> js_trim value then Inl BadRequester
      else if list_ex is_control value then Inl BadRequester
      else Inr value)"

definition prefixed :: "string \<Rightarrow> string \<Rightarrow> auth_error + string" where
  "prefixed prefix value =
     (case requesterLabel value of Inl e \<Rightarrow> Inl e | Inr v \<Rightarrow> Inr (prefix @ '':'' @ v))"

fun authenticationRequesterKey :: "requester \<Rightarrow> auth_error + string" where
  "authenticationRequesterKey (WebRequester origin) =
     (case canonicalHttpOrigin origin of
        None \<Rightarrow> Inl BadRequester
      | Some c \<Rightarrow> if c \<noteq> origin then Inl BadRequester else Inr c)"
| "authenticationRequesterKey (Nip46Requester clientPubkey) =
     (case requesterLabel clientPubkey of
        Inl e \<Rightarrow> Inl e
      | Inr v \<Rightarrow> let pubkey = to_lower v
                 in if \<not> is_hex64 pubkey then Inl BadRequester else Inr (''nip46:'' @ pubkey))"
| "authenticationRequesterKey (Nip55Requester packageName digest) = prefixed ''nip55'' packageName"
| "authenticationRequesterKey (LanRequester peerId) = prefixed ''lan'' peerId"
| "authenticationRequesterKey (LocalRequester ident) = prefixed ''local'' ident"
| "authenticationRequesterKey (OriginString s) = Inl BadRequester"

definition webOriginOf :: "requester \<Rightarrow> auth_error + string option" where
  "webOriginOf r =
     (case r of
        OriginString s \<Rightarrow> Inr (Some s)
      | WebRequester s \<Rightarrow> Inr (Some s)
      | _ \<Rightarrow> (case authenticationRequesterKey r of Inl e \<Rightarrow> Inl e | Inr _ \<Rightarrow> Inr None))"

subsection \<open>Tags and destinations\<close>

definition tag_named :: "string \<Rightarrow> string list \<Rightarrow> bool" where
  "tag_named name item \<longleftrightarrow> (case item of [] \<Rightarrow> False | x # _ \<Rightarrow> x = name)"

definition has_tag :: "auth_event \<Rightarrow> string \<Rightarrow> bool" where
  "has_tag e name \<longleftrightarrow> list_ex (tag_named name) (ev_tags e)"

definition tag_value :: "auth_event \<Rightarrow> string \<Rightarrow> auth_error + string" where
  "tag_value e name =
     (case filter (tag_named name) (ev_tags e) of
        [[_, v]] \<Rightarrow> if v = [] then Inl (BadTag name) else Inr v
      | _ \<Rightarrow> Inl (BadTag name))"

definition isLoopback :: "string \<Rightarrow> bool" where
  "isLoopback canonical \<longleftrightarrow> hostnameOf canonical \<in> set LOOPBACK_HOSTS"

text \<open>\<open>/^([a-zA-Z][a-zA-Z0-9+.-]*):\/\/([^/?]*)([/?][\s\S]*)?$/\<close>: scheme, authority and tail.\<close>

definition url_shape :: "string \<Rightarrow> (string \<times> string \<times> string) option" where
  "url_shape raw =
     (let scheme = takeWhile is_scheme_char raw; rest = dropWhile is_scheme_char raw;
          inner = (\<lambda>c. c \<noteq> CHR ''/'' \<and> c \<noteq> CHR ''?'')
      in if scheme \<noteq> [] \<and> is_alpha (hd scheme) \<and> take 3 rest = ''://''
         then Some (scheme, takeWhile inner (drop 3 rest), dropWhile inner (drop 3 rest)) else None)"

definition requester_ok :: "string option \<Rightarrow> bool" where
  "requester_ok requesterOrigin \<longleftrightarrow>
     (case requesterOrigin of
        None \<Rightarrow> True
      | Some origin \<Rightarrow> canonicalHttpOrigin origin = Some origin
          \<and> \<not> (starts_with ''http://'' origin \<and> \<not> isLoopback origin))"

definition destinationOf :: "string \<Rightarrow> string option \<Rightarrow> bool \<Rightarrow> (string \<times> string) option" where
  "destinationOf raw requesterOrigin relay =
     (if raw \<noteq> js_trim raw then None
      else if CHR ''#'' \<in> set raw then None
      else if list_ex (\<lambda>c. is_control c \<or> code c = 92) raw then None
      else if \<not> requester_ok requesterOrigin then None
      else (case url_shape raw of
              None \<Rightarrow> None
            | Some (scheme0, auth, tail) \<Rightarrow>
                let scheme = to_lower scheme0; authority = scheme @ ''://'' @ auth
                in (case (if relay then canonicalWebSocketOrigin authority else canonicalHttpOrigin authority) of
                      None \<Rightarrow> None
                    | Some origin \<Rightarrow>
                        if scheme = (if relay then ''ws'' else ''http'') \<and> \<not> isLoopback origin then None
                        else Some (origin, origin @ (if starts_with ''/'' tail then tail else ''/'' @ tail)))))"

subsection \<open>The parser\<close>

text \<open>The loop over the tags by which a caller states its own origin.\<close>

fun check_metadata :: "auth_event \<Rightarrow> string option \<Rightarrow> string list \<Rightarrow> auth_error option" where
  "check_metadata e origin [] = None"
| "check_metadata e origin (name # names) =
     (if has_tag e name \<and> (case origin of
          None \<Rightarrow> True
        | Some v \<Rightarrow> tag_value e name \<noteq> Inr v)
      then Some (BadTag name) else check_metadata e origin names)"

definition timely :: "js_num \<Rightarrow> int \<Rightarrow> int \<Rightarrow> bool" where
  "timely created now maxAge \<longleftrightarrow>
     (case created of NonInt \<Rightarrow> False | IntNum t \<Rightarrow> \<bar>now - t\<bar> \<le> maxAge)"

definition legacy_format_ok :: "auth_event \<Rightarrow> string option \<Rightarrow> string list \<Rightarrow> auth_error + bool" where
  "legacy_format_ok e origin legacyLoginOrigins =
     (case origin of
        None \<Rightarrow> Inr False
      | Some v \<Rightarrow>
          if v \<notin> set legacyLoginOrigins \<or> canonicalHttpOrigin v \<noteq> Some v
             \<or> \<not> starts_with ''https://'' v then Inr False
          else (case tag_value e ''domain'' of
                  Inl err \<Rightarrow> Inl err
                | Inr d \<Rightarrow> Inr (d = hostnameOf v
                    \<and> list_all (\<lambda>item. case item of [] \<Rightarrow> False
                        | x # _ \<Rightarrow> x \<in> set [''domain'', ''challenge'', ''origin'', ''client-origin'']) (ev_tags e))))"

definition parse_legacy :: "auth_event \<Rightarrow> string option \<Rightarrow> int \<Rightarrow> string list \<Rightarrow> auth_error + auth_request" where
  "parse_legacy e origin now legacyLoginOrigins =
     (case legacy_format_ok e origin legacyLoginOrigins of
        Inl err \<Rightarrow> Inl err
      | Inr False \<Rightarrow> Inl BadLegacy
      | Inr True \<Rightarrow>
          (case tag_value e ''challenge'' of
             Inl err \<Rightarrow> Inl err
           | Inr c \<Rightarrow>
               if js_trim c = [] then Inl BadChallenge
               else if \<not> timely (ev_created_at e) now NIP98_MAX_AGE_SECONDS then Inl BadTimestamp
               else if ev_content e \<noteq> [] then Inl BadContent
               else Inr \<lparr>req_protocol = LegacyLogin, req_url = the origin, req_destination = the origin,
                         req_method = None, req_crossOrigin = False\<rparr>))"

definition payload_ok :: "auth_event \<Rightarrow> bool" where
  "payload_ok e \<longleftrightarrow>
     (case filter (tag_named ''payload'') (ev_tags e) of
        [] \<Rightarrow> True | [[_, v]] \<Rightarrow> is_hex64 v | _ \<Rightarrow> False)"

definition parse_addressed :: "auth_event \<Rightarrow> string option \<Rightarrow> int \<Rightarrow> bool \<Rightarrow> auth_error + auth_request" where
  "parse_addressed e origin now relay =
     (case tag_value e (if relay then ''relay'' else ''u'') of
        Inl err \<Rightarrow> Inl err
      | Inr raw \<Rightarrow>
          (case destinationOf raw origin relay of
             None \<Rightarrow> Inl BadDestination
           | Some (dorigin, full) \<Rightarrow>
               if \<not> timely (ev_created_at e) now
                     (if relay then NIP42_MAX_AGE_SECONDS else NIP98_MAX_AGE_SECONDS) then Inl BadTimestamp
               else if ev_content e \<noteq> [] then Inl BadContent
               else if relay then
                 (case tag_value e ''challenge'' of
                    Inl err \<Rightarrow> Inl err
                  | Inr _ \<Rightarrow> Inr \<lparr>req_protocol = Nip42, req_url = raw, req_destination = full,
                                   req_method = None, req_crossOrigin = True\<rparr>)
               else
                 (case tag_value e ''method'' of
                    Inl err \<Rightarrow> Inl err
                  | Inr m \<Rightarrow>
                      if \<not> is_http_method m then Inl BadMethod
                      else if \<not> payload_ok e then Inl BadPayload
                      else Inr \<lparr>req_protocol = Nip98, req_url = raw, req_destination = dorigin,
                                req_method = Some m,
                                req_crossOrigin = (origin = None \<or> Some dorigin \<noteq> origin)\<rparr>)))"

definition parseAuthentication ::
  "auth_event \<Rightarrow> requester \<Rightarrow> int \<Rightarrow> string list \<Rightarrow> auth_error + auth_request option" where
  "parseAuthentication e r now legacyLoginOrigins =
     (if ev_kind e \<noteq> NIP98_KIND \<and> ev_kind e \<noteq> NIP42_KIND then Inr None
      else let relay = (ev_kind e = NIP42_KIND)
        in (case webOriginOf r of
              Inl err \<Rightarrow> Inl err
            | Inr origin \<Rightarrow>
                (case check_metadata e origin ORIGIN_METADATA_TAGS of
                   Some err \<Rightarrow> Inl err
                 | None \<Rightarrow>
                     map_sum id Some
                       (if relay \<and> \<not> has_tag e ''relay'' \<and> has_tag e ''domain''
                        then parse_legacy e origin now legacyLoginOrigins
                        else parse_addressed e origin now relay))))"

definition validAuthenticationScope :: "auth_request \<Rightarrow> auth_scope \<Rightarrow> bool" where
  "validAuthenticationScope auth scope \<longleftrightarrow>
     (if req_protocol auth = LegacyLogin then scope = Once
      else scope = Once \<or> scope = Site \<or> (scope = ConnectedSites \<and> req_protocol auth = Nip42))"

subsection \<open>JSON array keys\<close>

text \<open>\<open>JSON.stringify\<close> of a list of strings, on code units below 256.\<close>

definition json_escapes :: "(nat, char) obj" where
  "json_escapes =
     [(34, char_of (34 :: nat)), (92, char_of (92 :: nat)), (8, CHR ''b''), (9, CHR ''t''),
      (10, CHR ''n''), (12, CHR ''f''), (13, CHR ''r'')]"

definition json_char :: "char \<Rightarrow> string" where
  "json_char c =
     (case map_of json_escapes (code c) of
        Some e \<Rightarrow> [char_of (92 :: nat), e]
      | None \<Rightarrow>
          if code c < 32 then
            char_of (92 :: nat) # ''u00'' @ [digit_char (code c div 16), digit_char (code c mod 16)]
          else [c])"

definition json_string :: "string \<Rightarrow> string" where
  "json_string s = char_of (34 :: nat) # concat (map json_char s) @ [char_of (34 :: nat)]"

definition json_array :: "string list \<Rightarrow> string" where
  "json_array xs = ''['' @ join_with '','' (map json_string xs) @ '']''"

fun protocol_name :: "protocol \<Rightarrow> string" where
  "protocol_name Nip42 = ''nip42''"
| "protocol_name Nip98 = ''nip98''"
| "protocol_name LegacyLogin = ''legacy-login''"

definition authenticationKey :: "auth_request \<Rightarrow> string" where
  "authenticationKey auth =
     json_array [protocol_name (req_protocol auth), req_url auth,
                 (case req_method auth of None \<Rightarrow> [] | Some m \<Rightarrow> m)]"


subsection \<open>JSON keys are injective\<close>

lemma char_of_code_eq: "char_of n = c \<longleftrightarrow> n mod 256 = code c"
  by (simp add: char_of_eq_iff take_bit_eq_mod)

text \<open>Reading one escaped character back: the escapes are a prefix code.\<close>

definition json_unescape :: "nat \<Rightarrow> string \<Rightarrow> nat \<times> string" where
  "json_unescape y ys =
     (if y = 98 then (8, ys) else if y = 116 then (9, ys) else if y = 110 then (10, ys)
      else if y = 102 then (12, ys) else if y = 114 then (13, ys)
      else if y = 117 then (digit_val (ys ! 2) * 16 + digit_val (ys ! 3), drop 4 ys)
      else (y, ys))"

definition json_first :: "string \<Rightarrow> nat \<times> string" where
  "json_first s =
     (if code (hd s) \<noteq> 92 then (code (hd s), tl s) else json_unescape (code (hd (tl s))) (tl (tl s)))"

lemma json_unescape_escapes:
  "map_of json_escapes n = Some e \<Longrightarrow> json_unescape (code e) s = (n, s)"
  by (drule map_of_SomeD) (auto simp: json_escapes_def json_unescape_def)

lemma json_first_char: "json_first (json_char c @ s) = (code c, s)"
proof (cases "map_of json_escapes (code c)")
  case None
  then have "code c \<noteq> 92" by (auto simp: json_escapes_def)
  moreover have "digit_val (digit_char (code c div 16)) = code c div 16"
    "digit_val (digit_char (code c mod 16)) = code c mod 16"
    using code_lt [of c] by (simp_all add: digit_val_char less_mult_imp_div_less)
  ultimately show ?thesis using None by (simp add: json_char_def json_first_def json_unescape_def)
next
  case (Some e)
  then show ?thesis by (simp add: json_char_def json_first_def json_unescape_escapes)
qed

lemma json_char_prefix:
  assumes "json_char c @ s = json_char d @ t" shows "c = d \<and> s = t"
proof -
  have "(code c, s) = (code d, t)"
    using json_first_char [of c s] json_first_char [of d t] unfolding assms by (rule trans [OF sym])
  then show ?thesis by simp
qed

lemma json_char_not_quote: "json_char c @ s \<noteq> char_of (34 :: nat) # t"
proof (cases "map_of json_escapes (code c)")
  case None
  then have "code c \<noteq> 34" by (auto simp: json_escapes_def)
  with None show ?thesis by (auto simp: json_char_def char_of_code_eq)
qed (auto simp: json_char_def char_of_code_eq)

lemma json_body_inj:
  "concat (map json_char s) @ char_of (34 :: nat) # u = concat (map json_char t) @ char_of (34 :: nat) # v
     \<longleftrightarrow> s = t \<and> u = v"
proof (induction s arbitrary: t)
  case Nil
  show ?case using json_char_not_quote by (cases t) (auto, metis)
next
  case (Cons c s)
  show ?case
  proof (cases t)
    case Nil
    then show ?thesis using json_char_not_quote by auto
  next
    case (Cons d t')
    then show ?thesis using Cons.IH [of t'] json_char_prefix by auto
  qed
qed

lemma json_string_inj: "json_string s @ u = json_string t @ v \<longleftrightarrow> s = t \<and> u = v"
  using json_body_inj [of s u t v] by (simp add: json_string_def)

lemma json_items_inj:
  "xs \<noteq> [] \<Longrightarrow> ys \<noteq> [] \<Longrightarrow>
     join_with '','' (map json_string xs) @ '']'' = join_with '','' (map json_string ys) @ '']'' \<longleftrightarrow> xs = ys"
proof (induction xs arbitrary: ys)
  case (Cons x xs)
  then obtain y zs where ys: "ys = y # zs" by (cases ys) auto
  have split: "join_with '','' (map json_string (w # ws)) @ '']'' =
      json_string w @ (if ws = [] then '']'' else CHR '','' # join_with '','' (map json_string ws) @ '']'')" for w ws
    by (cases ws) auto
  show ?case
    using Cons.IH [of zs] unfolding ys split json_string_inj by auto
qed simp

lemma json_array_inj: "xs \<noteq> [] \<Longrightarrow> ys \<noteq> [] \<Longrightarrow> json_array xs = json_array ys \<longleftrightarrow> xs = ys"
  using json_items_inj [of xs ys] by (simp add: json_array_def)

lemma protocol_name_inj: "protocol_name p = protocol_name q \<longleftrightarrow> p = q"
  by (cases p; cases q) auto

subsection \<open>What an accepted event satisfies\<close>

lemma destinationOf_SomeD:
  assumes "destinationOf raw origin relay = Some (d, full)"
  shows "(if relay then canonicalWebSocketOrigin d = Some d else canonicalHttpOrigin d = Some d)
    \<and> (starts_with (if relay then ''ws://'' else ''http://'') d \<longrightarrow> isLoopback d)
    \<and> starts_with (d @ ''/'') full \<and> CHR ''#'' \<notin> set raw
    \<and> (\<forall>c \<in> set raw. 32 < code c \<and> code c \<noteq> 127 \<and> code c \<noteq> 92) \<and> requester_ok origin"
proof -
  from assms obtain scheme0 auth tail where
    shape: "url_shape raw = Some (scheme0, auth, tail)" and
    d: "(if relay then canonicalWebSocketOrigin (to_lower scheme0 @ ''://'' @ auth)
          else canonicalHttpOrigin (to_lower scheme0 @ ''://'' @ auth)) = Some d" and
    sec: "to_lower scheme0 = (if relay then ''ws'' else ''http'') \<longrightarrow> isLoopback d" and
    full: "full = d @ (if starts_with ''/'' tail then tail else ''/'' @ tail)" and
    raw: "CHR ''#'' \<notin> set raw" "\<not> list_ex (\<lambda>c. is_control c \<or> code c = 92) raw" and
    req: "requester_ok origin"
    by (auto simp: destinationOf_def Let_def split: if_splits option.splits prod.splits)
  have fixed: "if relay then canonicalWebSocketOrigin d = Some d else canonicalHttpOrigin d = Some d"
    using d canonicalOrigin_fixed
    by (auto simp: canonicalWebSocketOrigin_def canonicalHttpOrigin_def split: if_splits)
  have scheme: "\<forall>x \<in> set (to_lower scheme0). is_scheme_char x"
    using shape set_takeWhileD [of _ is_scheme_char raw]
    by (auto simp: url_shape_def Let_def to_lower_def split: if_splits)
  then have tw: "takeWhile is_scheme_char (to_lower scheme0 @ ''://'' @ auth) = to_lower scheme0"
    by (simp add: takeWhile_scheme)
  obtain r where r: "d = to_lower scheme0 @ ''://'' @ r"
    using d canonicalOrigin_scheme [of "to_lower scheme0 @ ''://'' @ auth"] unfolding tw
    by (auto simp: canonicalWebSocketOrigin_def canonicalHttpOrigin_def split: if_splits)
  have same_scheme: "to_lower scheme0 = s" if "starts_with (s @ ''://'') d" "CHR '':'' \<notin> set s" for s
    using that scheme_no_colon [OF scheme] unfolding starts_with_iff r
    by (auto simp: first_colon_unique)
  have ws: "to_lower scheme0 = ''ws''" if "starts_with ''ws://'' d" using same_scheme [of "''ws''"] that by simp
  have http: "to_lower scheme0 = ''http''" if "starts_with ''http://'' d" using same_scheme [of "''http''"] that by simp
  have full_tail: "starts_with (d @ ''/'') full"
    using full by (auto simp: starts_with_iff)
  have chars: "\<forall>c \<in> set raw. 32 < code c \<and> code c \<noteq> 127 \<and> code c \<noteq> 92"
    using raw(2) by (auto simp: list_ex_iff is_control_def not_le)
  show ?thesis
    using fixed sec ws http full_tail raw(1) chars req by auto
qed

lemma tag_value_Inr:
  "tag_value e name = Inr v \<Longrightarrow> filter (tag_named name) (ev_tags e) = [[name, v]] \<and> v \<noteq> []"
proof -
  assume h: "tag_value e name = Inr v"
  then obtain x where x: "filter (tag_named name) (ev_tags e) = [[x, v]]" "v \<noteq> []"
    by (auto simp: tag_value_def split: list.splits if_splits)
  then have "[x, v] \<in> set (filter (tag_named name) (ev_tags e))" by simp
  then have "x = name" by (simp add: tag_named_def)
  with x show ?thesis by simp
qed

lemma map_sum_id_Inr: "map_sum id Some x = Inr (Some q) \<longleftrightarrow> x = Inr q"
  by (cases x) auto

lemma parseAuthentication_SomeD:
  assumes "parseAuthentication e r now ls = Inr (Some q)" "req_protocol q \<noteq> LegacyLogin"
  obtains origin where "webOriginOf r = Inr origin"
    "check_metadata e origin ORIGIN_METADATA_TAGS = None"
    "parse_addressed e origin now (ev_kind e = NIP42_KIND) = Inr q"
    "ev_kind e = NIP42_KIND \<or> ev_kind e = NIP98_KIND"
proof -
  have "req_protocol q = LegacyLogin" if "parse_legacy e origin now ls = Inr q" for origin
    using that by (auto simp: parse_legacy_def split: sum.splits bool.splits if_splits)
  with assms that show ?thesis
    by (auto simp: parseAuthentication_def Let_def map_sum_id_Inr split: if_splits sum.splits option.splits)
qed

lemma parse_addressed_nip98:
  assumes "parse_addressed e origin now False = Inr q"
  shows "\<exists>full. tag_value e ''u'' = Inr (req_url q) \<and>
    destinationOf (req_url q) origin False = Some (req_destination q, full) \<and>
    timely (ev_created_at e) now NIP98_MAX_AGE_SECONDS \<and> ev_content e = [] \<and>
    (\<exists>m. req_method q = Some m \<and> tag_value e ''method'' = Inr m \<and> is_http_method m) \<and>
    payload_ok e \<and> req_protocol q = Nip98 \<and>
    req_crossOrigin q = (origin = None \<or> Some (req_destination q) \<noteq> origin)"
  using assms by (cases q) (auto simp: parse_addressed_def split: sum.splits option.splits if_splits)

lemma parse_addressed_nip42:
  assumes "parse_addressed e origin now True = Inr q"
  shows "\<exists>d. tag_value e ''relay'' = Inr (req_url q) \<and>
    destinationOf (req_url q) origin True = Some (d, req_destination q) \<and>
    timely (ev_created_at e) now NIP42_MAX_AGE_SECONDS \<and> ev_content e = [] \<and>
    (\<exists>c. tag_value e ''challenge'' = Inr c) \<and>
    req_method q = None \<and> req_protocol q = Nip42 \<and> req_crossOrigin q"
  using assms by (cases q) (auto simp: parse_addressed_def split: sum.splits option.splits if_splits)

subsection \<open>Requester keys\<close>

text \<open>Two requesters are the same caller: same channel and same identifier; a public key is
  compared without regard to case, and the digest of an Android package is not consulted.\<close>

fun same_requester :: "requester \<Rightarrow> requester \<Rightarrow> bool" where
  "same_requester (WebRequester a) (WebRequester b) \<longleftrightarrow> a = b"
| "same_requester (Nip46Requester a) (Nip46Requester b) \<longleftrightarrow> to_lower a = to_lower b"
| "same_requester (Nip55Requester a _) (Nip55Requester b _) \<longleftrightarrow> a = b"
| "same_requester (LanRequester a) (LanRequester b) \<longleftrightarrow> a = b"
| "same_requester (LocalRequester a) (LocalRequester b) \<longleftrightarrow> a = b"
| "same_requester _ _ \<longleftrightarrow> False"

fun requester_prefix :: "requester \<Rightarrow> string" where
  "requester_prefix (Nip46Requester _) = ''nip46''"
| "requester_prefix (Nip55Requester _ _) = ''nip55''"
| "requester_prefix (LanRequester _) = ''lan''"
| "requester_prefix (LocalRequester _) = ''local''"
| "requester_prefix _ = []"

fun requester_identity :: "requester \<Rightarrow> string" where
  "requester_identity (Nip46Requester a) = to_lower a"
| "requester_identity (Nip55Requester a _) = a"
| "requester_identity (LanRequester a) = a"
| "requester_identity (LocalRequester a) = a"
| "requester_identity (WebRequester a) = a"
| "requester_identity (OriginString a) = a"

lemma requesterLabel_Inr: "requesterLabel v = Inr w \<Longrightarrow> w = v \<and> v \<noteq> []"
  by (auto simp: requesterLabel_def split: if_splits)

lemma requester_prefix_plain:
  "requester_prefix r \<noteq> [] \<Longrightarrow>
     CHR '':'' \<notin> set (requester_prefix r) \<and> requester_prefix r \<notin> {''http'', ''https'', ''constructor''}"
  by (cases r) auto

lemma other_key:
  "authenticationRequesterKey r = Inr k \<Longrightarrow> requester_prefix r \<noteq> [] \<Longrightarrow>
     k = requester_prefix r @ CHR '':'' # requester_identity r"
  by (cases r) (auto simp: prefixed_def Let_def split: sum.splits if_splits dest: requesterLabel_Inr)

lemma web_key:
  assumes "authenticationRequesterKey (WebRequester v) = Inr k"
  shows "k = v \<and> (\<exists>s r. v = s @ CHR '':'' # r \<and> CHR '':'' \<notin> set s \<and> s \<in> {''http'', ''https'', ''constructor''})"
proof -
  from assms have v: "k = v" "canonicalOrigin v HTTP_PORTS = Some v"
    by (auto simp: canonicalHttpOrigin_def split: option.splits if_splits)
  obtain s d h p where "v = s @ ''://'' @ h @ p" "\<forall>x \<in> set s. is_scheme_char x"
      "port_table HTTP_PORTS s = Some d"
    using canonicalOrigin_SomeD [OF v(2)] by metis
  moreover from this have "s \<in> {''http'', ''https'', ''constructor''}"
    by (auto simp: port_table_def HTTP_PORTS_def split: if_splits option.splits)
  ultimately show ?thesis using v(1) scheme_no_colon [of s]
    by (intro conjI exI [of _ s] exI [of _ "''//'' @ h @ p"]) auto
qed

lemma same_requester_iff:
  "requester_prefix r \<noteq> [] \<Longrightarrow> requester_prefix r' \<noteq> [] \<Longrightarrow>
     same_requester r r' \<longleftrightarrow>
       requester_prefix r = requester_prefix r' \<and> requester_identity r = requester_identity r'"
  by (cases r; cases r') auto

lemma requester_prefix_Nil: "requester_prefix r = [] \<longleftrightarrow> (\<exists>v. r = WebRequester v \<or> r = OriginString v)"
  by (cases r) auto

lemma web_key_not_other:
  assumes "authenticationRequesterKey r = Inr k" "requester_prefix r = []"
    "authenticationRequesterKey r' = Inr k" "requester_prefix r' \<noteq> []"
  shows False
proof -
  obtain v where "r = WebRequester v" using assms(1,2) by (auto simp: requester_prefix_Nil)
  then obtain s t where s: "k = s @ CHR '':'' # t" "CHR '':'' \<notin> set s"
      "s \<in> {''http'', ''https'', ''constructor''}"
    using web_key [of v k] assms(1) by blast
  have p: "k = requester_prefix r' @ CHR '':'' # requester_identity r'" "CHR '':'' \<notin> set (requester_prefix r')"
      "requester_prefix r' \<notin> {''http'', ''https'', ''constructor''}"
    using other_key [OF assms(3,4)] requester_prefix_plain [OF assms(4)] by blast+
  have "s = requester_prefix r'"
    using p(1) s(1) first_colon_unique [OF s(2) p(2)] by metis
  with s(3) p(3) show False by metis
qed

lemma key_not_star: assumes "authenticationRequesterKey r = Inr k" shows "k \<noteq> ''*''"
proof (cases "requester_prefix r = []")
  case True
  then obtain v where "r = WebRequester v" using assms by (auto simp: requester_prefix_Nil)
  with assms web_key [of v k] show ?thesis by auto
next
  case False
  then show ?thesis using other_key [OF assms False] by (auto simp: append_eq_Cons_conv)
qed

subsection \<open>Properties\<close>

definition nip98_example :: auth_event where
  "nip98_example = \<lparr>ev_kind = 27235, ev_content = [], ev_created_at = IntNum 1000,
     ev_tags = [[''u'', ''https://API.example/login''], [''method'', ''POST'']]\<rparr>"

definition nip42_example :: auth_event where
  "nip42_example = \<lparr>ev_kind = 22242, ev_content = [], ev_created_at = IntNum 1000,
     ev_tags = [[''relay'', ''wss://Relay.example:443''], [''challenge'', ''c1'']]\<rparr>"



text \<open>An event accepted for relay authentication is a kind-22242 event without content, created
  at most ten minutes from now, naming one relay and one challenge; the destination lies under a
  canonical WebSocket origin, which is a loopback address when the scheme is plain ws; and such a
  request always counts as crossing origins.\<close>

theorem accepted_nip42_is_addressed:
  assumes "parseAuthentication e r now ls = Inr (Some q)" "req_protocol q = Nip42"
  shows "ev_kind e = NIP42_KIND \<and> ev_content e = [] \<and> req_crossOrigin q \<and> req_method q = None \<and>
    (\<exists>t. ev_created_at e = IntNum t \<and> \<bar>now - t\<bar> \<le> 600) \<and>
    filter (tag_named ''relay'') (ev_tags e) = [[''relay'', req_url q]] \<and>
    (\<exists>c. filter (tag_named ''challenge'') (ev_tags e) = [[''challenge'', c]]) \<and>
    (\<exists>d. canonicalWebSocketOrigin d = Some d \<and> starts_with (d @ ''/'') (req_destination q) \<and>
       (starts_with ''ws://'' d \<longrightarrow> isLoopback d))"
proof -
  obtain origin where pa: "parse_addressed e origin now (ev_kind e = NIP42_KIND) = Inr q"
    and k: "ev_kind e = NIP42_KIND \<or> ev_kind e = NIP98_KIND"
    using parseAuthentication_SomeD [OF assms(1)] assms(2) by auto
  have n42: "ev_kind e = NIP42_KIND"
  proof (rule ccontr)
    assume "ev_kind e \<noteq> NIP42_KIND"
    with pa have "req_protocol q = Nip98" using parse_addressed_nip98 [of e origin now q] by auto
    with assms(2) show False by simp
  qed
  with pa have pa': "parse_addressed e origin now True = Inr q" by simp
  obtain d where f: "tag_value e ''relay'' = Inr (req_url q)"
      "destinationOf (req_url q) origin True = Some (d, req_destination q)"
      "timely (ev_created_at e) now NIP42_MAX_AGE_SECONDS" "ev_content e = []"
      "\<exists>c. tag_value e ''challenge'' = Inr c" "req_method q = None" "req_crossOrigin q"
    using parse_addressed_nip42 [OF pa'] by blast
  from f(3) have t: "\<exists>t. ev_created_at e = IntNum t \<and> \<bar>now - t\<bar> \<le> 600"
    by (auto simp: timely_def NIP42_MAX_AGE_SECONDS_def split: js_num.splits)
  from f(5) have c: "\<exists>c. filter (tag_named ''challenge'') (ev_tags e) = [[''challenge'', c]]"
    using tag_value_Inr by blast
  show ?thesis
    using n42 f(4,6,7) t c tag_value_Inr [OF f(1)] destinationOf_SomeD [OF f(2)] by auto
qed

theorem accepted_nip42_is_addressed_witness:
  "\<exists>q. parseAuthentication nip42_example (Nip55Requester ''com.app'' None) 1010 [] = Inr (Some q)
     \<and> req_destination q = ''wss://relay.example/'' \<and> req_crossOrigin q"
proof -
  obtain q where q: "parseAuthentication nip42_example (Nip55Requester ''com.app'' None) 1010 [] = Inr (Some q)"
      "req_protocol q = Nip42 \<and> req_destination q = ''wss://relay.example/''"
  proof
    let ?q = "\<lparr>req_protocol = Nip42, req_url = ''wss://Relay.example:443'',
      req_destination = ''wss://relay.example/'', req_method = None, req_crossOrigin = True\<rparr>"
    show "parseAuthentication nip42_example (Nip55Requester ''com.app'' None) 1010 [] = Inr (Some ?q)"
      by code_simp
    show "req_protocol ?q = Nip42 \<and> req_destination ?q = ''wss://relay.example/''"
      by simp
  qed
  with accepted_nip42_is_addressed [OF q(1)] show ?thesis by auto
qed

text \<open>Two callers are filed under the same requester key only when they are the same caller:
  an Android package, a remote-signing client, a peer of the local network and a web origin can
  never share a key, whatever their identifiers, and none of them can take the reserved key of
  grants shared between sites.\<close>

theorem requester_keys_never_collide:
  assumes "authenticationRequesterKey r = Inr k" "authenticationRequesterKey r' = Inr k"
  shows "same_requester r r' \<and> k \<noteq> ''*''"
proof (intro conjI key_not_star [OF assms(1)])
  show "same_requester r r'"
  proof (cases "requester_prefix r = []"; cases "requester_prefix r' = []")
    assume "requester_prefix r = []" "requester_prefix r' = []"
    then obtain v v' where "r = WebRequester v" "r' = WebRequester v'"
      using assms by (auto simp: requester_prefix_Nil)
    with assms web_key [of v k] web_key [of v' k] show ?thesis by simp
  next
    assume "requester_prefix r = []" "requester_prefix r' \<noteq> []"
    then show ?thesis using web_key_not_other assms by blast
  next
    assume "requester_prefix r \<noteq> []" "requester_prefix r' = []"
    then show ?thesis using web_key_not_other assms by blast
  next
    assume p: "requester_prefix r \<noteq> []" and p': "requester_prefix r' \<noteq> []"
    have "requester_prefix r = requester_prefix r' \<and> requester_identity r = requester_identity r'"
      using other_key [OF assms(1) p] other_key [OF assms(2) p'] requester_prefix_plain [OF p]
        requester_prefix_plain [OF p'] first_colon_unique by metis
    then show ?thesis by (simp add: same_requester_iff [OF p p'])
  qed
qed

theorem requester_keys_never_collide_witness:
  "authenticationRequesterKey (Nip55Requester ''com.app'' None) =
     authenticationRequesterKey (Nip55Requester ''com.app'' (Some ''ab''))
   \<and> same_requester (Nip55Requester ''com.app'' None) (Nip55Requester ''com.app'' (Some ''ab''))"
proof -
  have k: "authenticationRequesterKey (Nip55Requester ''com.app'' None) = Inr ''nip55:com.app''"
      "authenticationRequesterKey (Nip55Requester ''com.app'' (Some ''ab'')) = Inr ''nip55:com.app''"
    by code_simp+
  with requester_keys_never_collide [OF k] show ?thesis by simp
qed

text \<open>Two authentication requests are given the same approval key exactly when their protocol,
  their URL and their method (an absent one counting as the empty one) agree: no URL can be
  spelled so that its key is the key of another request.\<close>

theorem authenticationKey_eq_iff:
  "authenticationKey a = authenticationKey b \<longleftrightarrow>
     req_protocol a = req_protocol b \<and> req_url a = req_url b \<and>
     (case req_method a of None \<Rightarrow> [] | Some m \<Rightarrow> m) = (case req_method b of None \<Rightarrow> [] | Some m \<Rightarrow> m)"
  by (simp add: authenticationKey_def json_array_inj protocol_name_inj)

end
