(* ===== verification/Perm_Port.thy ===== *)
theory Perm_Port
  imports Storage Perm_Auth
begin

section \<open>What the permission package stores, and the port it writes through\<close>

text \<open>
  The values of \<^verbatim>\<open>packages/identity/src/permissions\<close> at rest (\<open>types.ts\<close>, \<open>constants.ts\<close>, the
  grant record of \<open>authentication.ts\<close>), and the injected store they live in: the in-memory
  store of \<^theory_text>\<open>Storage\<close> with a count of the writes it still accepts, so that a store that
  starts to fail between two writes of one operation is a state of the model. Reads do not
  fail.
\<close>

subsection \<open>Values\<close>

text \<open>
  What an origin holds under a key: a bucket of rules, or, in a tree written before there were
  buckets, a decision directly.
\<close>

datatype node = Rule decision | Bucket bucket

type_synonym origin_rules = "(string, node) obj"

type_synonym tree = "(string, origin_rules) obj"

datatype grant_decision = GrantAllow | GrantDeny

record auth_grant =
  g_decision :: "grant_decision option"
  g_id :: string
  g_accountId :: string
  g_origin :: string
  g_protocol :: protocol
  g_destination :: string
  g_method :: "string option"
  g_version :: "int option"
  g_resource :: "string option"

datatype stored =
  STree tree | SBool bool | SNum int | SPending tree bool
| SGrants "auth_grant list" | SFlags "(string, bool) obj" | SJunk

definition PERMISSIONS_STORAGE_KEY :: string where
  "PERMISSIONS_STORAGE_KEY = ''signerPermissions''"

definition GLOBAL_DEFAULTS_KEY :: string where
  "GLOBAL_DEFAULTS_KEY = ''signerUseGlobalDefaults''"

definition MIGRATION_VERSION_KEY :: string where
  "MIGRATION_VERSION_KEY = ''_permMigrationVersion''"

definition MIGRATION_VERSION :: int where "MIGRATION_VERSION = 4"

definition AUTHENTICATION_GRANTS_KEY :: string where
  "AUTHENTICATION_GRANTS_KEY = ''authenticationGrants''"

definition GLOBAL_RULES_SCOPE :: string where "GLOBAL_RULES_SCOPE = ''_global''"

definition INHERITANCE_KEY :: string where "INHERITANCE_KEY = ''signerRulesInheritance''"

definition GLOBAL_RULES_VERSION_KEY :: string where
  "GLOBAL_RULES_VERSION_KEY = ''signerGlobalRulesVersion''"

definition MIGRATION_PENDING_KEY :: string where
  "MIGRATION_PENDING_KEY = ''signerRulesMigrationPending''"

definition DEFAULT_BACKEND_AUTH_KEY :: string where
  "DEFAULT_BACKEND_AUTH_KEY = ''defaultBackendAuthAccounts''"

lemmas store_keys =
  PERMISSIONS_STORAGE_KEY_def GLOBAL_DEFAULTS_KEY_def MIGRATION_VERSION_KEY_def
  AUTHENTICATION_GRANTS_KEY_def INHERITANCE_KEY_def GLOBAL_RULES_VERSION_KEY_def
  MIGRATION_PENDING_KEY_def DEFAULT_BACKEND_AUTH_KEY_def

lemma store_keys_distinct [simp]:
  "distinct [PERMISSIONS_STORAGE_KEY, GLOBAL_DEFAULTS_KEY, MIGRATION_VERSION_KEY,
     AUTHENTICATION_GRANTS_KEY, INHERITANCE_KEY, GLOBAL_RULES_VERSION_KEY, MIGRATION_PENDING_KEY,
     DEFAULT_BACKEND_AUTH_KEY]"
  by (simp add: store_keys)

lemmas store_key_neq [simp] = store_keys_distinct [simplified]

subsection \<open>Errors\<close>

datatype perm_error =
  StoreFailed
| EmptyLabel string
| KeyRefused key_error
| NeverConsulted string
| RelayAllowRefused
| NotRetired string
| NoWriteBucket
| WrongRuleScope
| MigrationIncomplete
| InvalidMigrationAccount
| NeedsInheritance
| AccountRequired
| OverrideRequired
| EmptyCopySource
| InvalidAuthScope
| InvalidDenialScope
| AuthenticationDenied
| NotCurrent
| NotAnObject

subsection \<open>The port\<close>

record port =
  mem :: "stored memory_store"
  writes_left :: "nat option"

type_synonym ('z, 'a) port_op = "('z port_scheme, perm_error, 'a) op"

definition port_get :: "string \<Rightarrow> 'z port_scheme \<Rightarrow> stored option" where
  "port_get key s = mem_get (mem s) key"

definition port_write :: "(stored memory_store \<Rightarrow> stored memory_store) \<Rightarrow> ('z, unit) port_op" where
  "port_write f s =
     (case writes_left s of
        Some 0 \<Rightarrow> (Inl StoreFailed, s)
      | w \<Rightarrow> (Inr (), s\<lparr>mem := f (mem s), writes_left := map_option (\<lambda>n. n - 1) w\<rparr>))"

definition port_set :: "string \<Rightarrow> stored \<Rightarrow> ('z, unit) port_op" where
  "port_set key v = port_write (mem_set key v)"

definition port_remove :: "string \<Rightarrow> ('z, unit) port_op" where
  "port_remove key = port_write (mem_remove key)"

definition requireLabel :: "string \<Rightarrow> string \<Rightarrow> ('s, perm_error, unit) op" where
  "requireLabel value what = unlessE (value \<noteq> []) (EmptyLabel what)"

lemma port_set_cases:
  obtains "port_set key v s = (Inl StoreFailed, s)" "writes_left s = Some 0"
  | w where "port_set key v s = (Inr (), s\<lparr>mem := mem_set key v (mem s), writes_left := w\<rparr>)"
      "writes_left s \<noteq> Some 0" "writes_left s = None \<longleftrightarrow> w = None"
proof (cases "writes_left s = Some 0")
  case True
  with that(1) show ?thesis by (simp add: port_set_def port_write_def)
next
  case False
  then have "port_set key v s =
      (Inr (), s\<lparr>mem := mem_set key v (mem s), writes_left := map_option (\<lambda>n. n - 1) (writes_left s)\<rparr>)"
    by (auto simp: port_set_def port_write_def split: option.splits nat.splits)
  with that(2) False show ?thesis by auto
qed

lemma port_set_ok [run_simps]:
  "writes_left s = None \<Longrightarrow> port_set key v s = (Inr (), s\<lparr>mem := mem_set key v (mem s)\<rparr>)"
  by (simp add: port_set_def port_write_def)

lemma port_remove_ok [run_simps]:
  "writes_left s = None \<Longrightarrow> port_remove key s = (Inr (), s\<lparr>mem := mem_remove key (mem s)\<rparr>)"
  by (simp add: port_remove_def port_write_def)

lemma port_get_set [simp]:
  "port_get k (s\<lparr>mem := mem_set j v m\<rparr>) = (if k = j then Some v else mem_get m k)"
  by (simp add: port_get_def mem.get_put)

lemma port_get_remove [simp]:
  "port_get k (s\<lparr>mem := mem_remove j m\<rparr>) = (if k = j then None else mem_get m k)"
  by (simp add: port_get_def mem.get_del)

lemma requireLabel_ok [run_simps]: "value \<noteq> [] \<Longrightarrow> requireLabel value what = ret ()"
  by (simp add: requireLabel_def unlessE_def)

lemma requireLabel_empty [run_simps]: "requireLabel [] what = throw (EmptyLabel what)"
  by (simp add: requireLabel_def unlessE_def)

lemma keeps_requireLabel [keeps_intros]: "keeps P (requireLabel value what)"
  by (simp add: requireLabel_def keeps_unlessE)

end
