(* ===== verification/Perm_Grants.thy ===== *)
theory Perm_Grants
  imports Perm_Port
begin

section \<open>Remembered consents for authenticating to a destination\<close>

text \<open>
  \<^verbatim>\<open>packages/identity/src/permissions/authenticationGrants.ts\<close>: which stored grant governs a
  request, and the operations of \<open>AuthenticationGrants\<close> over the port. The body of each locked
  section runs as one step; \<open>assertCurrent\<close>, the host's check inside the lock, is a function
  from the state to the error it throws, if any.
\<close>

definition ENDPOINT_GRANT_VERSION :: int where "ENDPOINT_GRANT_VERSION = 2"

definition SHARED_SITES_ORIGIN :: string where "SHARED_SITES_ORIGIN = ''*''"

record backend =
  b_origin :: string
  b_destination :: string

record grant_filter =
  f_id :: "string option"
  f_accountId :: "string option"
  f_origin :: "string option"

definition governs :: "auth_grant \<Rightarrow> string \<Rightarrow> string \<Rightarrow> auth_request \<Rightarrow> bool" where
  "governs grant accountId origin auth =
     (if g_accountId grant \<noteq> accountId
         \<or> g_protocol grant \<noteq> req_protocol auth
         \<or> g_destination grant \<noteq> req_destination auth
         \<or> g_method grant \<noteq> req_method auth
         \<or> \<not> (g_origin grant = origin
              \<or> (req_protocol auth = Nip42 \<and> g_origin grant = SHARED_SITES_ORIGIN))
      then False
      else if req_protocol auth = Nip42 then True
      else if g_version grant = Some ENDPOINT_GRANT_VERSION \<and> g_resource grant \<noteq> None
      then g_resource grant = Some (req_url auth)
      else g_decision grant = Some GrantDeny)"

definition governing :: "auth_grant list \<Rightarrow> string \<Rightarrow> string \<Rightarrow> auth_request \<Rightarrow> auth_grant list" where
  "governing grants accountId origin auth = filter (\<lambda>g. governs g accountId origin auth) grants"

definition grantId :: "string \<Rightarrow> string \<Rightarrow> auth_request \<Rightarrow> string" where
  "grantId accountId origin auth =
     json_array [accountId, origin, protocol_name (req_protocol auth),
       (if req_protocol auth = Nip98 then req_url auth else req_destination auth),
       (case req_method auth of None \<Rightarrow> [] | Some m \<Rightarrow> m)]"

subsection \<open>Reading\<close>

definition grants_list :: "'z port_scheme \<Rightarrow> auth_grant list" where
  "grants_list s =
     (case port_get AUTHENTICATION_GRANTS_KEY s of Some (SGrants gs) \<Rightarrow> gs | _ \<Rightarrow> [])"

definition backend_flags :: "'z port_scheme \<Rightarrow> (string, bool) obj" where
  "backend_flags s =
     (case port_get DEFAULT_BACKEND_AUTH_KEY s of Some (SFlags m) \<Rightarrow> m | _ \<Rightarrow> [])"

definition getDefaultBackendAuth :: "string \<Rightarrow> 'z port_scheme \<Rightarrow> bool" where
  "getDefaultBackendAuth accountId s \<longleftrightarrow>
     accountId \<noteq> [] \<and> map_of (backend_flags s) accountId = Some True"

definition exactHttps :: "string \<Rightarrow> bool" where
  "exactHttps v \<longleftrightarrow> starts_with ''https://'' v \<and> canonicalHttpOrigin v = Some v"

definition decisionFor ::
  "backend list \<Rightarrow> string \<Rightarrow> string \<Rightarrow> auth_request \<Rightarrow> 'z port_scheme \<Rightarrow> grant_decision option" where
  "decisionFor registry accountId origin auth s =
     (if req_protocol auth = LegacyLogin \<or> accountId = [] \<or> origin = [] then None
      else let matching = governing (grants_list s) accountId (storageLabel origin) auth
        in if list_ex (\<lambda>g. g_decision g = Some GrantDeny) matching then Some GrantDeny
           else if list_ex (\<lambda>g. g_decision g = None \<or> g_decision g = Some GrantAllow) matching
           then Some GrantAllow
           else if req_protocol auth = Nip98 \<and> exactHttps origin \<and> exactHttps (req_destination auth)
             \<and> (origin = req_destination auth
                \<or> list_ex (\<lambda>e. b_origin e = origin \<and> b_destination e = req_destination auth) registry)
             \<and> getDefaultBackendAuth accountId s
           then Some GrantAllow else None)"

definition isAllowed :: "backend list \<Rightarrow> string \<Rightarrow> string \<Rightarrow> auth_request \<Rightarrow> 'z port_scheme \<Rightarrow> bool" where
  "isAllowed registry accountId origin auth s \<longleftrightarrow>
     decisionFor registry accountId origin auth s = Some GrantAllow"

subsection \<open>Writing\<close>

definition setDefaultBackendAuth :: "string \<Rightarrow> bool \<Rightarrow> ('z, unit) port_op" where
  "setDefaultBackendAuth accountId enabled =
     andThen (requireLabel accountId ''account id'') (\<lambda>_ s.
       port_set DEFAULT_BACKEND_AUTH_KEY (SFlags (oset accountId enabled (backend_flags s))) s)"

definition new_grant :: "string \<Rightarrow> string \<Rightarrow> auth_request \<Rightarrow> grant_decision \<Rightarrow> auth_grant" where
  "new_grant accountId grantOrigin auth d =
     \<lparr>g_decision = Some d,
      g_id = grantId accountId grantOrigin auth,
      g_accountId = accountId,
      g_origin = grantOrigin,
      g_protocol = req_protocol auth,
      g_destination = req_destination auth,
      g_method = (if req_method auth = Some [] then None else req_method auth),
      g_version = (if req_protocol auth = Nip98 then Some ENDPOINT_GRANT_VERSION else None),
      g_resource = (if req_protocol auth = Nip98 then Some (req_url auth) else None)\<rparr>"

definition saveGrant ::
  "string \<Rightarrow> string \<Rightarrow> auth_request \<Rightarrow> auth_scope \<Rightarrow> ('z port_scheme \<Rightarrow> perm_error option)
     \<Rightarrow> grant_decision \<Rightarrow> ('z, unit) port_op" where
  "saveGrant accountId origin auth scope assertCurrent d =
     andThen (requireLabel accountId ''account id'') (\<lambda>_.
     andThen (requireLabel origin ''origin'') (\<lambda>_.
     andThen (unlessE (validAuthenticationScope auth scope) InvalidAuthScope) (\<lambda>_.
     andThen (unlessE (\<not> (d = GrantDeny \<and> scope \<noteq> Site)) InvalidDenialScope) (\<lambda>_ s.
       let label = storageLabel origin;
           grantOrigin = (if scope = ConnectedSites then SHARED_SITES_ORIGIN else label);
           grants = grants_list s
       in case assertCurrent s of
            Some e \<Rightarrow> throw e s
          | None \<Rightarrow>
              if d = GrantAllow
                 \<and> list_ex (\<lambda>g. g_decision g = Some GrantDeny) (governing grants accountId label auth)
              then throw AuthenticationDenied s
              else if scope = Once then ret () s
              else let grant = new_grant accountId grantOrigin auth d
                in port_set AUTHENTICATION_GRANTS_KEY
                     (SGrants (filter (\<lambda>item. g_id item \<noteq> g_id grant) grants @ [grant])) s))))"

definition revoked_by :: "grant_filter \<Rightarrow> string option \<Rightarrow> auth_grant \<Rightarrow> bool" where
  "revoked_by flt origin grant \<longleftrightarrow>
     (case f_id flt of None \<Rightarrow> True | Some i \<Rightarrow> g_id grant = i)
     \<and> (case f_accountId flt of None \<Rightarrow> True | Some a \<Rightarrow> g_accountId grant = a)
     \<and> (case origin of None \<Rightarrow> True | Some x \<Rightarrow> x \<in> set (siteScopes (g_origin grant)))"

definition requireSome :: "string option \<Rightarrow> string \<Rightarrow> ('s, perm_error, unit) op" where
  "requireSome v what = (case v of None \<Rightarrow> ret () | Some x \<Rightarrow> requireLabel x what)"

definition revoke_backend :: "grant_filter \<Rightarrow> ('z, unit) port_op" where
  "revoke_backend flt s =
     (if f_id flt = None \<and> f_origin flt = None then
        port_set DEFAULT_BACKEND_AUTH_KEY
          (SFlags (case f_accountId flt of None \<Rightarrow> [] | Some a \<Rightarrow> odel a (backend_flags s))) s
      else ret () s)"

definition revokeGrants :: "grant_filter \<Rightarrow> ('z, unit) port_op" where
  "revokeGrants flt =
     andThen (requireSome (f_id flt) ''grant id'') (\<lambda>_.
     andThen (requireSome (f_accountId flt) ''account id'') (\<lambda>_.
     andThen (requireSome (f_origin flt) ''origin'') (\<lambda>_ s0.
       let grants = grants_list s0; origin = map_option storageLabel (f_origin flt)
       in andThen (revoke_backend flt) (\<lambda>_.
            port_set AUTHENTICATION_GRANTS_KEY
              (SGrants (filter (\<lambda>g. \<not> revoked_by flt origin g) grants))) s0)))"

subsection \<open>What the operations do to the list of grants\<close>

lemma keys_neq [simp]: "AUTHENTICATION_GRANTS_KEY \<noteq> DEFAULT_BACKEND_AUTH_KEY"
  "DEFAULT_BACKEND_AUTH_KEY \<noteq> AUTHENTICATION_GRANTS_KEY"
  by (simp_all add: store_keys)

lemma grants_list_set [simp]:
  "grants_list (s\<lparr>mem := mem_set AUTHENTICATION_GRANTS_KEY (SGrants gs) m, writes_left := w\<rparr>) = gs"
  "backend_flags (s\<lparr>mem := mem_set AUTHENTICATION_GRANTS_KEY (SGrants gs) m, writes_left := w\<rparr>) =
     backend_flags (s\<lparr>mem := m\<rparr>)"
  by (simp_all add: grants_list_def backend_flags_def port_get_def mem.get_put)

lemma grants_list_mem:
  "mem s = mem t \<Longrightarrow> grants_list s = grants_list t" "mem s = mem t \<Longrightarrow> backend_flags s = backend_flags t"
  by (simp_all add: grants_list_def backend_flags_def port_get_def)

text \<open>A completed save, case by case.\<close>

lemma saveGrant_ok:
  assumes "saveGrant a origin auth scope chk d s = (Inr (), s')"
  shows "a \<noteq> [] \<and> origin \<noteq> [] \<and> validAuthenticationScope auth scope \<and> (d = GrantDeny \<longrightarrow> scope = Site)
    \<and> (d = GrantAllow \<longrightarrow> (\<forall>g \<in> set (governing (grants_list s) a (storageLabel origin) auth).
          g_decision g \<noteq> Some GrantDeny))
    \<and> (if scope = Once then s' = s
       else let grant = new_grant a (if scope = ConnectedSites then SHARED_SITES_ORIGIN else storageLabel origin) auth d
         in grants_list s' = filter (\<lambda>g. g_id g \<noteq> g_id grant) (grants_list s) @ [grant]
           \<and> backend_flags s' = backend_flags s)"
proof -
  obtain origin' where o': "origin' = (if scope = ConnectedSites then SHARED_SITES_ORIGIN else storageLabel origin)"
    by blast
  obtain gr where gr: "gr = new_grant a origin' auth d" by blast
  have h: "a \<noteq> []" "origin \<noteq> []" "validAuthenticationScope auth scope" "d = GrantDeny \<longrightarrow> scope = Site"
    "d = GrantAllow \<longrightarrow> (\<forall>g \<in> set (governing (grants_list s) a (storageLabel origin) auth).
          g_decision g \<noteq> Some GrantDeny)"
    and body: "(if scope = Once then ret () s
        else port_set AUTHENTICATION_GRANTS_KEY
          (SGrants (filter (\<lambda>item. g_id item \<noteq> g_id gr) (grants_list s) @ [gr])) s) = (Inr (), s')"
    using assms unfolding saveGrant_def requireLabel_def andThen_unlessE Let_def gr o'
    by (auto simp: throw_def ret_def list_ex_iff split: if_splits option.splits)
  show ?thesis
  proof (cases "scope = Once")
    case True
    with h body show ?thesis by (simp add: ret_def)
  next
    case False
    with body have "port_set AUTHENTICATION_GRANTS_KEY
        (SGrants (filter (\<lambda>item. g_id item \<noteq> g_id gr) (grants_list s) @ [gr])) s = (Inr (), s')" by simp
    then have "grants_list s' = filter (\<lambda>g. g_id g \<noteq> g_id gr) (grants_list s) @ [gr]
        \<and> backend_flags s' = backend_flags s"
      by (cases AUTHENTICATION_GRANTS_KEY
          "SGrants (filter (\<lambda>item. g_id item \<noteq> g_id gr) (grants_list s) @ [gr])" s rule: port_set_cases)
        (auto intro: grants_list_mem)
    with False h show ?thesis unfolding Let_def gr o' by simp
  qed
qed

lemma governing_append: "governing (gs @ hs) a l auth = governing gs a l auth @ governing hs a l auth"
  by (simp add: governing_def)

lemma governing_filter: "set (governing (filter P gs) a l auth) \<subseteq> set (governing gs a l auth)"
  by (auto simp: governing_def)

lemma new_grant_governs:
  assumes "req_method auth \<noteq> Some []" "l = grantOrigin \<or> (req_protocol auth = Nip42 \<and> grantOrigin = SHARED_SITES_ORIGIN)"
    "req_protocol auth \<noteq> LegacyLogin"
  shows "governs (new_grant a grantOrigin auth d) a l auth"
  using assms by (cases "req_protocol auth") (auto simp: governs_def new_grant_def)

text \<open>A decision depends on the governing grants and, for HTTP, on the account's own flag.\<close>

lemma decisionFor_cong:
  assumes "governing (grants_list s) a (storageLabel origin) auth = governing (grants_list t) a (storageLabel origin) auth"
    "map_of (backend_flags s) a = map_of (backend_flags t) a"
  shows "decisionFor registry a origin auth s = decisionFor registry a origin auth t"
  unfolding decisionFor_def getDefaultBackendAuth_def Let_def assms by (rule refl)

subsection \<open>Identities\<close>

definition method_of :: "auth_request \<Rightarrow> string" where
  "method_of auth = (case req_method auth of None \<Rightarrow> [] | Some m \<Rightarrow> m)"

text \<open>A grant as this version writes it: its id is made of its own fields.\<close>

definition wf_grant :: "auth_grant \<Rightarrow> bool" where
  "wf_grant g \<longleftrightarrow>
     g_id g = json_array [g_accountId g, g_origin g, protocol_name (g_protocol g),
        (if g_protocol g = Nip98 then the (g_resource g) else g_destination g),
        (case g_method g of None \<Rightarrow> [] | Some m \<Rightarrow> m)]
     \<and> (g_protocol g = Nip98 \<longrightarrow> g_version g = Some ENDPOINT_GRANT_VERSION \<and> g_resource g \<noteq> None)"

lemma wf_new_grant: "wf_grant (new_grant a origin auth d)"
  by (auto simp: wf_grant_def new_grant_def grantId_def)

lemma wf_grant_same_id:
  "wf_grant g \<Longrightarrow> g_id g = grantId a grantOrigin auth \<Longrightarrow>
     g_accountId g = a \<and> g_origin g = grantOrigin \<and> g_protocol g = req_protocol auth
     \<and> (case g_method g of None \<Rightarrow> [] | Some m \<Rightarrow> m) = method_of auth
     \<and> (req_protocol auth = Nip98 \<longrightarrow> g_resource g = Some (req_url auth))"
  by (auto simp: wf_grant_def grantId_def json_array_inj protocol_name_inj method_of_def)

text \<open>Two requests that a consent for one must not answer for the other.\<close>

definition separate_requests ::
  "string \<Rightarrow> string \<Rightarrow> auth_request \<Rightarrow> string \<Rightarrow> string \<Rightarrow> auth_request \<Rightarrow> bool" where
  "separate_requests a origin auth a2 origin2 auth2 \<longleftrightarrow>
     a2 \<noteq> a \<or> req_protocol auth2 \<noteq> req_protocol auth \<or> method_of auth2 \<noteq> method_of auth
     \<or> (req_protocol auth2 = Nip98 \<and>
          (req_url auth2 \<noteq> req_url auth \<or> storageLabel origin2 \<noteq> storageLabel origin))"

lemma same_id_not_governs:
  assumes "wf_grant g" "g_id g = grantId a grantOrigin auth"
    "separate_requests a origin auth a2 origin2 auth2"
    "req_protocol auth = Nip98 \<longrightarrow> grantOrigin = storageLabel origin"
  shows "\<not> governs g a2 (storageLabel origin2) auth2"
  using wf_grant_same_id [OF assms(1,2)] assms(1,3,4)
  by (auto simp: governs_def separate_requests_def method_of_def wf_grant_def split: if_splits)

subsection \<open>Revocation\<close>

lemma port_set_Inr:
  assumes "port_set k v s = (Inr x, s')"
  shows "\<exists>w. s' = s\<lparr>mem := mem_set k v (mem s), writes_left := w\<rparr>"
  using assms by (cases k v s rule: port_set_cases) auto

lemma requireSome_if: "requireSome v what = (if v = Some [] then throw (EmptyLabel what) else ret ())"
  by (auto simp: requireSome_def requireLabel_def unlessE_def split: option.splits)

lemma revokeGrants_ok:
  assumes "revokeGrants flt s = (Inr (), s')"
  shows "grants_list s' = filter (\<lambda>g. \<not> revoked_by flt (map_option storageLabel (f_origin flt)) g) (grants_list s)
    \<and> backend_flags s' = (if f_id flt = None \<and> f_origin flt = None
        then (case f_accountId flt of None \<Rightarrow> [] | Some a \<Rightarrow> odel a (backend_flags s)) else backend_flags s)
    \<and> f_accountId flt \<noteq> Some []"
proof -
  obtain gs where gs: "gs = filter (\<lambda>g. \<not> revoked_by flt (map_option storageLabel (f_origin flt)) g) (grants_list s)"
    by blast
  have acc: "f_accountId flt \<noteq> Some []"
    and run: "andThen (revoke_backend flt) (\<lambda>_. port_set AUTHENTICATION_GRANTS_KEY (SGrants gs)) s = (Inr (), s')"
    using assms unfolding gs by (auto simp: revokeGrants_def requireSome_if Let_def throw_def split: if_splits)
  obtain t where t: "revoke_backend flt s = (Inr (), t)"
      "port_set AUTHENTICATION_GRANTS_KEY (SGrants gs) t = (Inr (), s')"
    using run by (elim andThen_InrE) auto
  then have s': "grants_list s' = gs" "backend_flags s' = backend_flags t"
    using port_set_Inr [OF t(2)] by (auto intro: grants_list_mem)
  have "backend_flags t = (if f_id flt = None \<and> f_origin flt = None
        then (case f_accountId flt of None \<Rightarrow> [] | Some a \<Rightarrow> odel a (backend_flags s)) else backend_flags s)"
  proof (cases "f_id flt = None \<and> f_origin flt = None")
    case True
    with t(1) show ?thesis unfolding revoke_backend_def
      by (auto dest!: port_set_Inr simp: backend_flags_def port_get_def mem.get_put)
  next
    case False
    with t(1) show ?thesis by (auto simp: revoke_backend_def ret_def)
  qed
  with s' acc gs show ?thesis by simp
qed

lemma revoke_account_decision:
  assumes "revokeGrants \<lparr>f_id = None, f_accountId = Some a, f_origin = None\<rparr> s = (Inr (), s')"
  shows "decisionFor registry a origin auth s' = None
    \<and> (a2 = a \<or> decisionFor registry a2 origin auth s' = decisionFor registry a2 origin auth s)"
proof -
  have gs: "grants_list s' = filter (\<lambda>g. g_accountId g \<noteq> a) (grants_list s)"
    and flags: "backend_flags s' = odel a (backend_flags s)"
    using revokeGrants_ok [OF assms] by (simp_all add: revoked_by_def)
  have none: "governing (grants_list s') a (storageLabel origin) auth = []"
    by (auto simp: gs governing_def governs_def filter_empty_conv)
  have "decisionFor registry a2 origin auth s' = decisionFor registry a2 origin auth s" if "a2 \<noteq> a"
  proof (rule decisionFor_cong)
    show "governing (grants_list s') a2 (storageLabel origin) auth = governing (grants_list s) a2 (storageLabel origin) auth"
      using that unfolding gs governing_def filter_filter by (intro filter_cong) (auto simp: governs_def)
    show "map_of (backend_flags s') a2 = map_of (backend_flags s) a2" using that by (simp add: flags)
  qed
  moreover have "decisionFor registry a origin auth s' = None"
    using none by (simp add: decisionFor_def Let_def getDefaultBackendAuth_def flags)
  ultimately show ?thesis by blast
qed

subsection \<open>Properties\<close>

text \<open>A request is refused outright exactly when its account and origin are named, it is not a
  legacy login, and some stored rejection governs it: any one rejection decides, whatever
  allowances stand beside it, the shared relay allowance and the account's default for its own
  backends included.\<close>

theorem decisionFor_deny_iff:
  "decisionFor registry a origin auth s = Some GrantDeny \<longleftrightarrow>
     req_protocol auth \<noteq> LegacyLogin \<and> a \<noteq> [] \<and> origin \<noteq> [] \<and>
     (\<exists>g. g \<in> set (grants_list s) \<and> governs g a (storageLabel origin) auth \<and> g_decision g = Some GrantDeny)"
  by (auto simp: decisionFor_def Let_def list_ex_iff governing_def)

definition relay_request :: auth_request where
  "relay_request = \<lparr>req_protocol = Nip42, req_url = ''wss://r.example'', req_destination = ''wss://r.example/'',
     req_method = None, req_crossOrigin = True\<rparr>"

definition login_request :: auth_request where
  "login_request = \<lparr>req_protocol = Nip98, req_url = ''https://b.example/login'',
     req_destination = ''https://b.example'', req_method = Some ''POST'', req_crossOrigin = True\<rparr>"

definition fresh_port :: port where
  "fresh_port = \<lparr>mem = MemoryStore [], writes_left = None\<rparr>"



text \<open>C29: An approval never erases a standing rejection: while a rejection governs the request, saving
  an allowance for it at any scope fails and leaves the store as it was, a one-time approval that
  would store nothing included.\<close>

theorem approval_cannot_override_denial:
  assumes "decisionFor registry a origin auth s = Some GrantDeny"
  shows "\<exists>e. saveGrant a origin auth scope chk GrantAllow s = (Inl e, s)"
proof -
  have "\<exists>g. g \<in> set (governing (grants_list s) a (storageLabel origin) auth) \<and> g_decision g = Some GrantDeny"
    using assms by (auto simp: decisionFor_deny_iff governing_def)
  then have "list_ex (\<lambda>g. g_decision g = Some GrantDeny) (governing (grants_list s) a (storageLabel origin) auth)"
    by (auto simp: list_ex_iff)
  then show ?thesis
    by (auto simp: saveGrant_def requireLabel_def andThen_unlessE Let_def throw_def split: option.splits)
qed

definition denied_port :: port where
  "denied_port = snd (saveGrant ''alice'' ''https://a.example'' relay_request Site (\<lambda>_. None) GrantDeny fresh_port)"

theorem approval_cannot_override_denial_witness:
  "\<exists>e. saveGrant ''alice'' ''https://a.example'' relay_request ConnectedSites (\<lambda>_. None) GrantAllow denied_port = (Inl e, denied_port)"
proof -
  have "decisionFor [] ''alice'' ''https://a.example'' relay_request denied_port = Some GrantDeny" by code_simp
  then show ?thesis by (rule approval_cannot_override_denial)
qed



text \<open>Deleting an account takes every credential held under it: after its grants are revoked, no
  request of that account is allowed or refused from memory, whatever the site, the protocol and
  the registry of backends, shared relay grants included; and nothing changes for any other
  account.\<close>

theorem revoking_an_account_leaves_nothing:
  assumes "revokeGrants \<lparr>f_id = None, f_accountId = Some a, f_origin = None\<rparr> s = (Inr (), s')"
  shows "decisionFor registry a origin auth s' = None
    \<and> (a2 = a \<or> decisionFor registry a2 origin auth s' = decisionFor registry a2 origin auth s)"
  by (rule revoke_account_decision [OF assms])

theorem revoking_an_account_leaves_nothing_witness:
  "decisionFor [] ''alice'' ''https://a.example'' relay_request denied_port = Some GrantDeny \<and>
   decisionFor [] ''alice'' ''https://a.example'' relay_request
     (snd (revokeGrants \<lparr>f_id = None, f_accountId = Some ''alice'', f_origin = None\<rparr> denied_port)) = None"
proof -
  obtain s' where s: "revokeGrants \<lparr>f_id = None, f_accountId = Some ''alice'', f_origin = None\<rparr> denied_port = (Inr (), s')"
  proof
    show "revokeGrants \<lparr>f_id = None, f_accountId = Some ''alice'', f_origin = None\<rparr> denied_port =
        (Inr (), snd (revokeGrants \<lparr>f_id = None, f_accountId = Some ''alice'', f_origin = None\<rparr> denied_port))"
      by code_simp
  qed
  have d: "decisionFor [] ''alice'' ''https://a.example'' relay_request denied_port = Some GrantDeny" by code_simp
  from revoking_an_account_leaves_nothing [OF s] s d show ?thesis by simp
qed

text \<open>Disconnecting a site leaves no consent for HTTP authentication under it: after its grants
  are revoked, no stored grant governs such a request from any spelling of the site, for any
  account. (A relay consent given for all connected sites stays.)\<close>

theorem revoking_a_site_leaves_nothing:
  assumes "revokeGrants \<lparr>f_id = None, f_accountId = None, f_origin = Some site\<rparr> s = (Inr (), s')"
    "storageLabel origin = storageLabel site" "g \<in> set (governing (grants_list s') a (storageLabel origin) auth)"
  shows "req_protocol auth = Nip42 \<and> g_origin g = SHARED_SITES_ORIGIN"
proof -
  have gs: "grants_list s' = filter (\<lambda>g. storageLabel site \<notin> set (siteScopes (g_origin g))) (grants_list s)"
    using revokeGrants_ok [OF assms(1)] by (simp add: revoked_by_def)
  have fixed: "storageLabel site \<in> set (siteScopes (storageLabel site))"
  proof (cases site rule: siteScopes_cases)
    case 1
    then show ?thesis by simp
  next
    case (2 c)
    then have "canonicalHttpOrigin c = Some c"
      using canonicalOrigin_fixed by (auto simp: canonicalHttpOrigin_def)
    with 2 show ?thesis by (simp add: siteScopes_def)
  qed
  from assms(3) have "g \<in> set (grants_list s')" "governs g a (storageLabel site) auth"
    by (auto simp: governing_def assms(2))
  with gs fixed show ?thesis by (auto simp: governs_def split: if_splits)
qed

definition shared_port :: port where
  "shared_port = snd (saveGrant ''alice'' ''https://a.example'' relay_request ConnectedSites (\<lambda>_. None) GrantAllow fresh_port)"

theorem revoking_a_site_leaves_nothing_witness:
  "\<exists>g. g \<in> set (governing (grants_list (snd (revokeGrants \<lparr>f_id = None, f_accountId = None, f_origin = Some ''https://A.example''\<rparr> shared_port)))
       ''alice'' (storageLabel ''https://a.example'') relay_request)
     \<and> req_protocol relay_request = Nip42 \<and> g_origin g = SHARED_SITES_ORIGIN"
proof -
  let ?s = "snd (revokeGrants \<lparr>f_id = None, f_accountId = None, f_origin = Some ''https://A.example''\<rparr> shared_port)"
  have s: "revokeGrants \<lparr>f_id = None, f_accountId = None, f_origin = Some ''https://A.example''\<rparr> shared_port = (Inr (), ?s)"
    by code_simp
  have l: "storageLabel ''https://a.example'' = storageLabel ''https://A.example''" by code_simp
  have "governing (grants_list ?s) ''alice'' (storageLabel ''https://a.example'') relay_request
      = [new_grant ''alice'' ''*'' relay_request GrantAllow]" by code_simp
  then have g: "new_grant ''alice'' ''*'' relay_request GrantAllow
      \<in> set (governing (grants_list ?s) ''alice'' (storageLabel ''https://a.example'') relay_request)" by simp
  from revoking_a_site_leaves_nothing [OF s l g] g show ?thesis by blast
qed

definition legacy_hostname_grant :: auth_grant where
  "legacy_hostname_grant = new_grant ''alice'' ''a.example'' relay_request GrantAllow"

text \<open>A consent stored under the bare hostname of a site, as older versions wrote it, survives the
  disconnection of the exact origin of that site: the stored grant's own scopes are searched for
  the origin, and a bare hostname has no other scope than itself.\<close>

theorem hostname_grant_survives_disconnect:
  "\<forall>site. canonicalHttpOrigin site = Some ''https://a.example'' \<longrightarrow>
     \<not> revoked_by \<lparr>f_id = None, f_accountId = None, f_origin = Some site\<rparr> (Some (storageLabel site)) legacy_hostname_grant"
proof -
  have "siteScopes ''a.example'' = [''a.example'']" by code_simp
  then show ?thesis
    by (simp add: revoked_by_def legacy_hostname_grant_def new_grant_def storageLabel_def siteScopes_def)
qed

theorem hostname_grant_survives_disconnect_witness:
  "\<not> revoked_by \<lparr>f_id = None, f_accountId = None, f_origin = Some ''https://a.example''\<rparr>
       (Some (storageLabel ''https://a.example'')) legacy_hostname_grant"
proof -
  have "canonicalHttpOrigin ''https://a.example'' = Some ''https://a.example''" by code_simp
  then show ?thesis using hostname_grant_survives_disconnect by blast
qed

end
