(* ===== verification/Perm_Store.thy ===== *)
theory Perm_Store
  imports Perm_Grants
begin

section \<open>The permission store\<close>

text \<open>
  \<^verbatim>\<open>packages/identity/src/permissions/store.ts\<close>, the class \<open>Permissions\<close>, and
  \<open>originPermissionBucket\<close> of \<open>scope.ts\<close>. The state is the port with the two caches, whether the
  instance listens to the store, and the denials reported to the logger. Each method is one
  operation; the body of a locked section runs as one step, which is what \<open>AsyncLock\<close> is for
  (theory \<open>Async_Lock\<close>). A store that starts refusing writes is \<open>writes_left\<close>, so an error between
  two writes of one method is a state of the model.

  A node of a stored tree is an object or, in trees older than the buckets, a string; reading
  the entries of a string enumerates its characters, and setting a property of one throws, as in
  JavaScript. The trees are read by their own properties. \<open>localeCompare\<close> is a parameter.
\<close>

subsection \<open>State\<close>

record store = port +
  cachedPerms :: "tree option"
  cachedUseGlobalDefaults :: "bool option"
  subscribed :: bool
  denials :: "(string \<times> string option \<times> string \<times> kind_arg) list"

type_synonym 'a store_op = "(store, perm_error, 'a) op"

definition open_store :: "stored memory_store \<Rightarrow> store" where
  "open_store m = \<lparr>mem = m, writes_left = None, cachedPerms = None, cachedUseGlobalDefaults = None,
     subscribed = True, denials = []\<rparr>"

definition invalidateCache :: "store \<Rightarrow> store" where
  "invalidateCache s = s\<lparr>cachedPerms := None, cachedUseGlobalDefaults := None\<rparr>"

definition dispose :: "store \<Rightarrow> store" where
  "dispose s = s\<lparr>subscribed := False\<rparr>"

text \<open>What the listener registered by the constructor does when a key changes.\<close>

definition on_change :: "string \<Rightarrow> store \<Rightarrow> store" where
  "on_change key s =
     (if subscribed s \<and> (key = PERMISSIONS_STORAGE_KEY \<or> key = GLOBAL_DEFAULTS_KEY)
      then invalidateCache s else s)"

definition store_set :: "string \<Rightarrow> stored \<Rightarrow> unit store_op" where
  "store_set key v = andThen (port_set key v) (\<lambda>_. modifies (on_change key))"

definition store_remove :: "string \<Rightarrow> unit store_op" where
  "store_remove key = andThen (port_remove key) (\<lambda>_. modifies (on_change key))"

text \<open>A write by another instance or another process over the same store.\<close>

definition external_set :: "string \<Rightarrow> stored \<Rightarrow> store \<Rightarrow> store" where
  "external_set key v s = on_change key (s\<lparr>mem := mem_set key v (mem s)\<rparr>)"

subsection \<open>Trees\<close>

fun decision_text :: "decision \<Rightarrow> string" where
  "decision_text Allow = ''allow''"
| "decision_text Deny = ''deny''"
| "decision_text Ask = ''ask''"
| "decision_text (Other s) = s"

text \<open>\<open>Object.entries\<close> of a node.\<close>

fun node_entries :: "node \<Rightarrow> bucket" where
  "node_entries (Bucket b) = b"
| "node_entries (Rule d) = map (\<lambda>(i, c). (show_nat i, Other [c])) (List.enumerate 0 (decision_text d))"

fun node_truthy :: "node option \<Rightarrow> bool" where
  "node_truthy None = False"
| "node_truthy (Some (Bucket _)) = True"
| "node_truthy (Some (Rule d)) = truthy d"

fun is_rule :: "node \<Rightarrow> bool" where
  "is_rule (Rule _) = True"
| "is_rule (Bucket _) = False"

definition node_at :: "tree \<Rightarrow> string \<Rightarrow> string \<Rightarrow> node option" where
  "node_at t origin bucket = Option.bind (map_of t origin) (\<lambda>o1. map_of o1 bucket)"

definition entries_at :: "tree \<Rightarrow> string \<Rightarrow> string \<Rightarrow> bucket" where
  "entries_at t origin bucket = (case node_at t origin bucket of None \<Rightarrow> [] | Some n \<Rightarrow> node_entries n)"

definition originPermissionBucket :: "tree \<Rightarrow> string \<Rightarrow> string \<Rightarrow> bucket" where
  "originPermissionBucket t origin bucket =
     fold (\<lambda>scope result. ospread result (entries_at t scope bucket)) (rev (siteScopes origin)) []"

definition effectiveOriginPermissions :: "tree \<Rightarrow> string \<Rightarrow> string \<Rightarrow> bucket" where
  "effectiveOriginPermissions perms origin accountId =
     fold (\<lambda>layer result. ospread result layer)
       [originPermissionBucket perms GLOBAL_RULES_SCOPE DEFAULT_BUCKET,
        originPermissionBucket perms GLOBAL_RULES_SCOPE accountId,
        originPermissionBucket perms origin DEFAULT_BUCKET,
        originPermissionBucket perms origin accountId] []"

text \<open>\<open>perms[label] ??= \<dots>; perms[label][bucket] ??= \<dots>; perms[label][bucket][key] = decision\<close>, or
  \<open>None\<close> where the last assignment throws because a string is in the way.\<close>

definition set_rule :: "string \<Rightarrow> string \<Rightarrow> string \<Rightarrow> decision \<Rightarrow> tree \<Rightarrow> tree option" where
  "set_rule label bucket key d t =
     (let o1 = (case map_of t label of None \<Rightarrow> [] | Some o1 \<Rightarrow> o1)
      in case map_of o1 bucket of
           Some (Bucket b) \<Rightarrow> Some (oset label (oset bucket (Bucket (oset key d b)) o1) t)
         | Some (Rule r) \<Rightarrow>
             if truthy r then None else Some (oset label (oset bucket (Bucket [(key, d)]) o1) t)
         | None \<Rightarrow> Some (oset label (oset bucket (Bucket [(key, d)]) o1) t))"

text \<open>A loop over the origins that rewrites or deletes each by itself.\<close>

definition map_origins :: "(string \<Rightarrow> origin_rules \<Rightarrow> origin_rules option) \<Rightarrow> tree \<Rightarrow> tree" where
  "map_origins f t = List.map_filter (\<lambda>(origin, o1). map_option (Pair origin) (f origin o1)) t"

definition DM_PERMISSION_KEYS :: "string list" where
  "DM_PERMISSION_KEYS = map sign_event_key DM_SIGN_KINDS"

definition RELAY_AUTH_KEY :: string where
  "RELAY_AUTH_KEY = sign_event_key NIP42_KIND"

definition BLANKET_KEYS :: "string list" where
  "BLANKET_KEYS = [''signEvent'', ''nip04Encrypt'', ''nip04Decrypt'', ''nip44Encrypt'', ''nip44Decrypt'', ''*'']"

fun RESTRICTIVENESS :: "decision \<Rightarrow> nat option" where
  "RESTRICTIVENESS Allow = Some 1"
| "RESTRICTIVENESS Ask = Some 2"
| "RESTRICTIVENESS Deny = Some 3"
| "RESTRICTIVENESS (Other _) = None"

subsection \<open>Loading and committing\<close>

definition pending :: "'z port_scheme \<Rightarrow> (tree \<times> bool) option" where
  "pending s = (case port_get MIGRATION_PENDING_KEY s of Some (SPending t g) \<Rightarrow> Some (t, g) | _ \<Rightarrow> None)"

definition stored_tree :: "'z port_scheme \<Rightarrow> tree" where
  "stored_tree s = (case port_get PERMISSIONS_STORAGE_KEY s of Some (STree t) \<Rightarrow> t | _ \<Rightarrow> [])"

definition stored_flag :: "'z port_scheme \<Rightarrow> bool" where
  "stored_flag s \<longleftrightarrow> port_get GLOBAL_DEFAULTS_KEY s \<noteq> Some (SBool False)"

definition inherits :: "'z port_scheme \<Rightarrow> bool" where
  "inherits s \<longleftrightarrow> port_get INHERITANCE_KEY s = Some (SBool True)"

definition consolidated :: "'z port_scheme \<Rightarrow> bool" where
  "consolidated s \<longleftrightarrow> port_get GLOBAL_RULES_VERSION_KEY s = Some (SNum 1)"

definition getUseGlobalDefaults :: "bool store_op" where
  "getUseGlobalDefaults s =
     (case cachedUseGlobalDefaults s of
        Some b \<Rightarrow> (Inr b, s)
      | None \<Rightarrow> (Inr (stored_flag s), s\<lparr>cachedUseGlobalDefaults := Some (stored_flag s)\<rparr>))"

definition load :: "tree store_op" where
  "load s =
     (if pending s \<noteq> None then (Inl MigrationIncomplete, s)
      else (case cachedPerms s of
              Some t \<Rightarrow> (Inr t, s)
            | None \<Rightarrow> (Inr (stored_tree s), s\<lparr>cachedPerms := Some (stored_tree s)\<rparr>)))"

text \<open>The draft is a deep copy: a value of the model.\<close>

definition draft :: "tree store_op" where "draft = load"

definition commit :: "tree \<Rightarrow> unit store_op" where
  "commit perms = finallyM (store_set PERMISSIONS_STORAGE_KEY (STree perms)) invalidateCache"

definition activeBucket :: "string \<Rightarrow> string option store_op" where
  "activeBucket accountId =
     andThen (reads inherits) (\<lambda>inh.
     andThen (if inh then ret False else getUseGlobalDefaults) (\<lambda>shared.
     ret (if shared then Some DEFAULT_BUCKET else if accountId = [] then None else Some accountId)))"

definition writeBucket :: "string \<Rightarrow> string store_op" where
  "writeBucket accountId =
     andThen (activeBucket accountId) (\<lambda>b. case b of None \<Rightarrow> throw NoWriteBucket | Some x \<Rightarrow> ret x)"

definition assertRuleScope :: "string \<Rightarrow> string \<Rightarrow> unit store_op" where
  "assertRuleScope origin bucket =
     andThen (reads consolidated) (\<lambda>c.
       unlessE (\<not> c \<or> (origin = GLOBAL_RULES_SCOPE) = (bucket = DEFAULT_BUCKET)) WrongRuleScope)"

subsection \<open>Reading\<close>

definition getForOrigin :: "string \<Rightarrow> string \<Rightarrow> bucket store_op" where
  "getForOrigin origin accountId =
     andThen (activeBucket accountId) (\<lambda>bucket.
       case bucket of
         None \<Rightarrow> ret []
       | Some b \<Rightarrow> andThen load (\<lambda>perms.
           andThen (reads inherits) (\<lambda>inh.
             ret (if inh then effectiveOriginPermissions perms origin accountId
                  else originPermissionBucket perms origin b))))"

definition log_denial :: "string \<Rightarrow> decision \<times> string option \<Rightarrow> string \<Rightarrow> kind_arg \<Rightarrow> unit store_op" where
  "log_denial origin answer method kind =
     whenM (fst answer = Deny)
       (modifies (\<lambda>s. s\<lparr>denials := denials s @ [(origin, snd answer, method, kind)]\<rparr>))"

definition check :: "string \<Rightarrow> string \<Rightarrow> kind_arg \<Rightarrow> string \<Rightarrow> decision store_op" where
  "check origin method kind accountId =
     andThen (getForOrigin origin accountId) (\<lambda>bucket.
       let answer = resolveDetailed bucket method kind
       in andThen (log_denial origin answer method kind) (\<lambda>_. ret (fst answer)))"

definition checkBlanketSignEvent :: "string \<Rightarrow> string \<Rightarrow> decision store_op" where
  "checkBlanketSignEvent origin accountId =
     andThen (getForOrigin origin accountId) (\<lambda>bucket.
       let answer = resolveBlanketSignEvent bucket
       in andThen (log_denial origin answer ''signEvent'' NullKind) (\<lambda>_. ret (fst answer)))"

definition getAll :: "string \<Rightarrow> (string, bucket) obj store_op" where
  "getAll accountId =
     andThen (activeBucket accountId) (\<lambda>bucket.
       case bucket of
         None \<Rightarrow> ret []
       | Some b \<Rightarrow> andThen load (\<lambda>perms.
           andThen (reads inherits) (\<lambda>inh.
             ret (filter (\<lambda>(_, data). data \<noteq> [])
               (map (\<lambda>origin. (origin, if inh then effectiveOriginPermissions perms origin accountId
                                      else entries_at perms origin b))
                 (filter (\<lambda>origin. origin \<noteq> GLOBAL_RULES_SCOPE) (okeys perms)))))))"

definition getAllRaw :: "tree store_op" where "getAllRaw = load"

definition getForOriginRaw :: "string \<Rightarrow> origin_rules store_op" where
  "getForOriginRaw origin =
     andThen load (\<lambda>perms. ret (case map_of perms (storageLabel origin) of None \<Rightarrow> [] | Some o1 \<Rightarrow> o1))"

subsection \<open>Writing\<close>

definition setUseGlobalDefaults :: "bool \<Rightarrow> unit store_op" where
  "setUseGlobalDefaults enabled =
     finallyM (store_set GLOBAL_DEFAULTS_KEY (SBool enabled)) invalidateCache"

definition write_rule :: "string \<Rightarrow> string \<Rightarrow> decision \<Rightarrow> string \<Rightarrow> unit store_op" where
  "write_rule label key d accountId =
     andThen (writeBucket accountId) (\<lambda>bucket.
     andThen (assertRuleScope label bucket) (\<lambda>_.
     andThen draft (\<lambda>perms.
       case set_rule label bucket key d perms of
         None \<Rightarrow> throw NotAnObject
       | Some perms' \<Rightarrow> commit perms')))"

definition saveDirect :: "string \<Rightarrow> string \<Rightarrow> decision \<Rightarrow> string \<Rightarrow> unit store_op" where
  "saveDirect origin key d accountId =
     andThen (requireLabel origin ''origin'') (\<lambda>_.
     andThen (requireLabel key ''permission key'') (\<lambda>_.
     andThen (unlessE (key \<notin> set DM_PERMISSION_KEYS) (NeverConsulted key)) (\<lambda>_.
     andThen (unlessE (\<not> (key = RELAY_AUTH_KEY \<and> d = Allow)) RelayAllowRefused) (\<lambda>_.
     write_rule (storageLabel origin) key d accountId))))"

definition save :: "string \<Rightarrow> string \<Rightarrow> kind_arg \<Rightarrow> decision \<Rightarrow> string \<Rightarrow> unit store_op" where
  "save origin method kind d accountId =
     (case permissionKey method kind of
        Inl e \<Rightarrow> throw (KeyRefused e)
      | Inr key \<Rightarrow> saveDirect origin key d accountId)"

definition saveRetiredKey :: "string \<Rightarrow> string \<Rightarrow> decision \<Rightarrow> string \<Rightarrow> unit store_op" where
  "saveRetiredKey origin key d accountId =
     andThen (requireLabel origin ''origin'') (\<lambda>_.
     andThen (unlessE (key \<in> set DM_PERMISSION_KEYS) (NotRetired key)) (\<lambda>_.
     write_rule (storageLabel origin) key d accountId))"

subsection \<open>Clearing\<close>

text \<open>Dropping one bucket of one origin, and the origin with it when it was the last.\<close>

definition drop_bucket :: "string \<Rightarrow> string \<Rightarrow> tree \<Rightarrow> tree" where
  "drop_bucket bucket scope t =
     (case map_of t scope of
        None \<Rightarrow> t
      | Some o1 \<Rightarrow> let o2 = odel bucket o1 in if o2 = [] then odel scope t else oset scope o2 t)"

definition revoke_for :: "string option \<Rightarrow> string \<Rightarrow> unit store_op" where
  "revoke_for origin accountId =
     revokeGrants \<lparr>f_id = None, f_accountId = (if accountId = [] then None else Some accountId),
       f_origin = origin\<rparr>"

definition clear :: "string option \<Rightarrow> string \<Rightarrow> unit store_op" where
  "clear origin accountId =
     (case origin of
        None \<Rightarrow>
          andThen (revoke_for None accountId) (\<lambda>_.
            finallyM (store_remove PERMISSIONS_STORAGE_KEY) invalidateCache)
      | Some o1 \<Rightarrow>
          andThen (requireLabel o1 ''origin'') (\<lambda>_.
          andThen (writeBucket accountId) (\<lambda>_.
          andThen (revoke_for (Some o1) accountId) (\<lambda>_.
          andThen (writeBucket accountId) (\<lambda>bucket.
          andThen draft (\<lambda>perms.
            commit (fold (drop_bucket bucket) (siteScopes o1) perms)))))))"

definition clearAllForOrigin :: "string \<Rightarrow> unit store_op" where
  "clearAllForOrigin origin =
     andThen (requireLabel origin ''origin'') (\<lambda>_.
     andThen (revoke_for (Some origin) []) (\<lambda>_.
     andThen draft (\<lambda>perms. commit (fold odel (siteScopes origin) perms))))"

definition clear_account :: "string \<Rightarrow> origin_rules \<Rightarrow> origin_rules option" where
  "clear_account accountId o1 =
     (if node_truthy (map_of o1 accountId)
      then let o2 = odel accountId o1 in if o2 = [] then None else Some o2 else Some o1)"

definition clearForAccount :: "string \<Rightarrow> unit store_op" where
  "clearForAccount accountId =
     andThen (requireLabel accountId ''account id'') (\<lambda>_.
     if accountId = DEFAULT_BUCKET then ret ()
     else andThen (revoke_for None accountId) (\<lambda>_.
          andThen draft (\<lambda>perms.
            whenM (list_ex (\<lambda>(_, o1). node_truthy (map_of o1 accountId)) perms)
              (commit (map_origins (\<lambda>_. clear_account accountId) perms)))))"

subsection \<open>Copying and new accounts\<close>

definition has_rules :: "node option \<Rightarrow> bool" where
  "has_rules n \<longleftrightarrow> (case n of None \<Rightarrow> False | Some m \<Rightarrow> node_truthy n \<and> node_entries m \<noteq> [])"

definition copy_bucket :: "string \<Rightarrow> string \<Rightarrow> origin_rules \<Rightarrow> origin_rules" where
  "copy_bucket source target o1 =
     (case map_of o1 source of
        None \<Rightarrow> o1
      | Some n \<Rightarrow> if has_rules (Some n) then oset target (Bucket (node_entries n)) o1 else o1)"

definition copyPermissions :: "string option \<Rightarrow> string \<Rightarrow> unit store_op" where
  "copyPermissions fromAccountId toAccountId =
     andThen (unlessE (fromAccountId \<noteq> Some []) EmptyCopySource) (\<lambda>_.
     andThen (requireLabel toAccountId ''target account id'') (\<lambda>_.
     let source = (case fromAccountId of None \<Rightarrow> DEFAULT_BUCKET | Some a \<Rightarrow> a)
     in andThen (reads consolidated) (\<lambda>cons.
        andThen (unlessE (\<not> (cons \<and> toAccountId = DEFAULT_BUCKET)) AccountRequired) (\<lambda>_.
        andThen draft (\<lambda>perms.
          let skip = (\<lambda>origin. cons \<and> origin = GLOBAL_RULES_SCOPE)
          in whenM (list_ex (\<lambda>(origin, o1). \<not> skip origin \<and> has_rules (map_of o1 source)) perms)
               (commit (map_origins (\<lambda>origin o1.
                  Some (if skip origin then o1 else copy_bucket source toAccountId o1)) perms)))))))"

text \<open>One round of the loop of \<open>setupNewAccountPermissions\<close> once accounts inherit.\<close>

definition setup_origin :: "bool \<Rightarrow> string \<Rightarrow> string option \<Rightarrow> string \<Rightarrow> tree \<Rightarrow> tree" where
  "setup_origin cons newAccountId copyFrom origin t =
     (if cons \<and> origin = GLOBAL_RULES_SCOPE then t
      else let o1 = odel newAccountId (case map_of t origin of None \<Rightarrow> [] | Some x \<Rightarrow> x);
               t1 = oset origin o1 t
        in if cons then
             (case copyFrom of
                None \<Rightarrow> t1
              | Some a \<Rightarrow> if a \<noteq> [] \<and> node_truthy (map_of o1 a)
                  then oset origin (oset newAccountId (Bucket (entries_at t1 origin a)) o1) t1 else t1)
           else let defaults = originPermissionBucket t1 origin DEFAULT_BUCKET
             in oset origin (oset newAccountId (Bucket
                  (case copyFrom of
                     Some a \<Rightarrow> if a \<noteq> [] then ospread defaults (originPermissionBucket t1 origin a)
                               else map (\<lambda>k. (k, Ask)) (okeys defaults)
                   | None \<Rightarrow> map (\<lambda>k. (k, Ask)) (okeys defaults))) o1) t1)"

definition setupNewAccountPermissions :: "string \<Rightarrow> string list \<Rightarrow> string option \<Rightarrow> unit store_op" where
  "setupNewAccountPermissions newAccountId existingAccountIds copyFrom =
     andThen (requireLabel newAccountId ''new account id'') (\<lambda>_.
     andThen (reads inherits) (\<lambda>inh.
       if inh then
         andThen (unlessE (newAccountId \<noteq> DEFAULT_BUCKET) AccountRequired) (\<lambda>_.
         andThen draft (\<lambda>tree0.
         andThen (reads consolidated) (\<lambda>cons.
           commit (fold (setup_origin cons newAccountId copyFrom) (okeys tree0) tree0))))
       else
         andThen getUseGlobalDefaults (\<lambda>shared.
         andThen (whenM shared
           (andThen (forM existingAccountIds (\<lambda>i.
               whenM (i \<noteq> [] \<and> i \<noteq> newAccountId) (copyPermissions (Some DEFAULT_BUCKET) i)))
             (\<lambda>_. setUseGlobalDefaults False))) (\<lambda>_.
         case copyFrom of
           Some a \<Rightarrow> if a \<noteq> [] then copyPermissions (Some a) newAccountId else clearForAccount newAccountId
         | None \<Rightarrow> clearForAccount newAccountId))))"

subsection \<open>Migrations\<close>

definition blanket_grant :: "string \<times> decision \<Rightarrow> bool" where
  "blanket_grant kd \<longleftrightarrow> fst kd \<in> set BLANKET_KEYS \<and> truthy (snd kd) \<and> snd kd \<noteq> Deny"

definition drop_blanket :: "bucket \<Rightarrow> bucket" where
  "drop_blanket b = filter (\<lambda>kd. \<not> blanket_grant kd) b"

text \<open>A flat origin may hold buckets too: an object under a blanket key is dropped like a grant.\<close>

fun flat_grant :: "string \<times> node \<Rightarrow> bool" where
  "flat_grant (k, Rule d) \<longleftrightarrow> blanket_grant (k, d)"
| "flat_grant (k, Bucket _) \<longleftrightarrow> k \<in> set BLANKET_KEYS"

fun per_kind_node :: "string \<times> node \<Rightarrow> (string \<times> node) option" where
  "per_kind_node (name, Rule d) = Some (name, Rule d)"
| "per_kind_node (name, Bucket b) =
     (let b' = drop_blanket b in if b' = [] then None else Some (name, Bucket b'))"

definition per_kind_origin :: "origin_rules \<Rightarrow> origin_rules option" where
  "per_kind_origin o1 =
     (let o2 = (if node_truthy (map_of o1 DEFAULT_BUCKET) then List.map_filter per_kind_node o1
                else filter (\<lambda>kn. \<not> flat_grant kn) o1)
      in if o2 = [] then None else Some o2)"

definition per_kind_changed :: "origin_rules \<Rightarrow> bool" where
  "per_kind_changed o1 \<longleftrightarrow>
     (if node_truthy (map_of o1 DEFAULT_BUCKET)
      then list_ex (\<lambda>(_, n). case n of Bucket b \<Rightarrow> list_ex blanket_grant b | Rule _ \<Rightarrow> False) o1
      else list_ex flat_grant o1)"

definition migrateToPerKind :: "unit store_op" where
  "migrateToPerKind =
     andThen draft (\<lambda>perms.
       whenM (list_ex (\<lambda>(_, o1). per_kind_changed o1) perms)
         (commit (map_origins (\<lambda>_. per_kind_origin) perms)))"

fun flat_rule :: "string \<times> node \<Rightarrow> (string \<times> decision) option" where
  "flat_rule (k, Rule d) = Some (k, d)"
| "flat_rule (k, Bucket _) = None"

definition needs_bucketing :: "origin_rules \<Rightarrow> bool" where
  "needs_bucketing o1 \<longleftrightarrow> \<not> node_truthy (map_of o1 DEFAULT_BUCKET) \<and> list_ex (\<lambda>(_, n). is_rule n) o1"

definition per_account_origin :: "origin_rules \<Rightarrow> origin_rules" where
  "per_account_origin o1 =
     (if needs_bucketing o1
      then oset DEFAULT_BUCKET (Bucket (List.map_filter flat_rule o1)) (filter (\<lambda>(_, n). \<not> is_rule n) o1)
      else o1)"

definition migrateToPerAccount :: "unit store_op" where
  "migrateToPerAccount =
     andThen draft (\<lambda>perms.
       whenM (list_ex (\<lambda>(_, o1). needs_bucketing o1) perms)
         (commit (map_origins (\<lambda>_ o1. Some (per_account_origin o1)) perms)))"

definition RETIRED_FORWARD :: decision where "RETIRED_FORWARD = Other ''forward''"

text \<open>A migration that rewrites the rules of each bucket and reports whether it changed one.\<close>

definition map_buckets :: "(bucket \<Rightarrow> bucket) \<Rightarrow> origin_rules \<Rightarrow> origin_rules" where
  "map_buckets f o1 = map (\<lambda>(name, n). (name, case n of Bucket b \<Rightarrow> Bucket (f b) | Rule d \<Rightarrow> Rule d)) o1"

definition some_bucket :: "(bucket \<Rightarrow> bool) \<Rightarrow> tree \<Rightarrow> bool" where
  "some_bucket P t \<longleftrightarrow>
     list_ex (\<lambda>(_, o1). list_ex (\<lambda>(_, n). case n of Bucket b \<Rightarrow> P b | Rule _ \<Rightarrow> False) o1) t"

definition forward_to_ask :: "bucket \<Rightarrow> bucket" where
  "forward_to_ask b = map (\<lambda>(k, d). (k, if d = RETIRED_FORWARD then Ask else d)) b"

definition migrateForwardToAsk :: "unit store_op" where
  "migrateForwardToAsk =
     andThen draft (\<lambda>perms.
       whenM (some_bucket (\<lambda>b. list_ex (\<lambda>(_, d). d = RETIRED_FORWARD) b) perms)
         (commit (map_origins (\<lambda>_ o1. Some (map_buckets forward_to_ask o1)) perms)))"

definition rank :: "decision \<Rightarrow> nat" where
  "rank d = (case RESTRICTIVENESS d of None \<Rightarrow> 0 | Some n \<Rightarrow> n)"

text \<open>The loop over the retired keys: the chosen decision, the bucket, whether anything changed.\<close>

fun fold_dm :: "string list \<Rightarrow> decision option \<Rightarrow> bucket \<Rightarrow> bool \<Rightarrow> decision option \<times> bucket \<times> bool" where
  "fold_dm [] chosen data changed = (chosen, data, changed)"
| "fold_dm (key # ks) chosen data changed =
     (case map_of data key of
        None \<Rightarrow> fold_dm ks chosen data changed
      | Some incoming \<Rightarrow>
          if \<not> truthy incoming then fold_dm ks chosen data changed
          else fold_dm ks
                 (case chosen of
                    None \<Rightarrow> Some incoming
                  | Some c \<Rightarrow> if \<not> truthy c \<or> rank incoming > rank c then Some incoming else Some c)
                 (odel key data) True)"

definition dm_bucket :: "bucket \<Rightarrow> bucket \<times> bool" where
  "dm_bucket data =
     (case fold_dm DM_PERMISSION_KEYS (map_of data ''sendMessages'') data False of
        (chosen, data', changed) \<Rightarrow>
          (case chosen of
             None \<Rightarrow> (data', changed)
           | Some c \<Rightarrow> if truthy c \<and> map_of data' ''sendMessages'' \<noteq> Some c
                       then (oset ''sendMessages'' c data', True) else (data', changed)))"

definition migrateDmKindsToSendMessages :: "unit store_op" where
  "migrateDmKindsToSendMessages =
     andThen draft (\<lambda>perms.
       whenM (some_bucket (\<lambda>b. snd (dm_bucket b)) perms)
         (commit (map_origins (\<lambda>_ o1. Some (map_buckets (fst \<circ> dm_bucket) o1)) perms)))"

definition migrate :: "unit store_op" where
  "migrate =
     andThen (reads (port_get MIGRATION_VERSION_KEY)) (\<lambda>version.
       if version = Some (SNum MIGRATION_VERSION) then ret ()
       else andThen migrateToPerKind (\<lambda>_.
            andThen migrateToPerAccount (\<lambda>_.
            andThen migrateForwardToAsk (\<lambda>_.
            andThen migrateDmKindsToSendMessages (\<lambda>_.
            store_set MIGRATION_VERSION_KEY (SNum MIGRATION_VERSION))))))"

subsection \<open>Inheritance and global rules\<close>

text \<open>The journal: the writes it describes are repeated until all have landed.\<close>

definition finishMigration :: "unit store_op" where
  "finishMigration =
     andThen (reads pending) (\<lambda>p.
       case p of
         None \<Rightarrow> ret ()
       | Some (t, g) \<Rightarrow>
           finallyM
             (andThen (store_set PERMISSIONS_STORAGE_KEY (STree t)) (\<lambda>_.
              andThen (store_set GLOBAL_DEFAULTS_KEY (SBool False)) (\<lambda>_.
              andThen (store_set INHERITANCE_KEY (SBool True)) (\<lambda>_.
              andThen (whenM g (store_set GLOBAL_RULES_VERSION_KEY (SNum 1))) (\<lambda>_.
              store_remove MIGRATION_PENDING_KEY)))))
             invalidateCache)"

definition migrationAccounts :: "tree \<Rightarrow> string list \<Rightarrow> string list store_op" where
  "migrationAccounts t accountIds =
     (let ids = js_set (accountIds @ filter (\<lambda>i. i \<noteq> DEFAULT_BUCKET) (concat (map (\<lambda>(_, o1). okeys o1) t)))
      in andThen (unlessE (\<forall>i \<in> set ids. i \<noteq> [] \<and> i \<noteq> DEFAULT_BUCKET) InvalidMigrationAccount) (\<lambda>_. ret ids))"

definition inherit_origin :: "bool \<Rightarrow> tree \<Rightarrow> string list \<Rightarrow> string \<Rightarrow> origin_rules \<Rightarrow> origin_rules" where
  "inherit_origin shared original ids origin o1 =
     (if shared then
        (case map_of o1 DEFAULT_BUCKET of
           Some n \<Rightarrow> if node_truthy (Some n) then [(DEFAULT_BUCKET, n)] else []
         | None \<Rightarrow> [])
      else fold (\<lambda>i acc. oset i (Bucket (ospread
               (map (\<lambda>k. (k, Ask)) (okeys (originPermissionBucket original origin DEFAULT_BUCKET)))
               (originPermissionBucket original origin i))) acc) ids o1)"

definition migrateToInheritance :: "string list \<Rightarrow> unit store_op" where
  "migrateToInheritance accountIds =
     andThen finishMigration (\<lambda>_.
     andThen (reads inherits) (\<lambda>inh.
     if inh then ret ()
     else andThen draft (\<lambda>original.
          andThen (migrationAccounts original accountIds) (\<lambda>ids.
          andThen getUseGlobalDefaults (\<lambda>shared.
          andThen (store_set MIGRATION_PENDING_KEY
            (SPending (map_origins (\<lambda>origin o1. Some (inherit_origin shared original ids origin o1)) original) False)) (\<lambda>_.
          finishMigration))))))"

definition stricter :: "decision \<Rightarrow> decision \<Rightarrow> bool" where
  "stricter a b \<longleftrightarrow>
     (case (RESTRICTIVENESS a, RESTRICTIVENESS b) of (Some m, Some n) \<Rightarrow> n < m | _ \<Rightarrow> False)"

text \<open>One default entry of one site folded into the global rules.\<close>

definition fold_global :: "bucket \<Rightarrow> string \<times> decision \<Rightarrow> bucket \<Rightarrow> bucket" where
  "fold_global existing kd globals =
     (case kd of (key, d) \<Rightarrow>
        if map_of existing key \<noteq> None then globals
        else (case map_of globals key of
                None \<Rightarrow> oset key d globals
              | Some g \<Rightarrow> if stricter d g then oset key d globals else globals))"

definition consolidate_globals :: "tree \<Rightarrow> bucket" where
  "consolidate_globals original =
     (let existing = entries_at original GLOBAL_RULES_SCOPE DEFAULT_BUCKET
      in fold (\<lambda>(origin, _) globals.
           if origin = GLOBAL_RULES_SCOPE then globals
           else fold (fold_global existing) (entries_at original origin DEFAULT_BUCKET) globals)
         original existing)"

definition strip_defaults :: "tree \<Rightarrow> tree" where
  "strip_defaults original =
     map_origins (\<lambda>origin o1. Some (if origin = GLOBAL_RULES_SCOPE then o1 else odel DEFAULT_BUCKET o1)) original"

text \<open>The rules of one account on one site, rewritten where the new layers answer differently.\<close>

definition or_ask :: "decision option \<Rightarrow> decision" where
  "or_ask d = (case d of None \<Rightarrow> Ask | Some x \<Rightarrow> x)"

fun foldO :: "('a \<Rightarrow> 'b \<Rightarrow> 'b option) \<Rightarrow> 'a list \<Rightarrow> 'b \<Rightarrow> 'b option" where
  "foldO f [] acc = Some acc"
| "foldO f (x # xs) acc = (case f x acc of None \<Rightarrow> None | Some acc' \<Rightarrow> foldO f xs acc')"

definition preserve_key :: "bucket \<Rightarrow> bucket \<Rightarrow> string \<Rightarrow> string \<Rightarrow> string \<Rightarrow> tree \<Rightarrow> tree option" where
  "preserve_key previous new origin i key t =
     (if or_ask (map_of previous key) = or_ask (map_of new key) then Some t
      else set_rule origin i key (or_ask (map_of previous key)) t)"

definition preserve_account :: "tree \<Rightarrow> string \<Rightarrow> string \<Rightarrow> tree \<Rightarrow> tree option" where
  "preserve_account original origin i t =
     (let previous = effectiveOriginPermissions original origin i;
          new = effectiveOriginPermissions t origin i
      in foldO (preserve_key previous new origin i) (js_set (okeys previous @ okeys new)) t)"

definition preserve_origin :: "tree \<Rightarrow> string list \<Rightarrow> string \<Rightarrow> tree \<Rightarrow> tree option" where
  "preserve_origin original ids origin t = foldO (preserve_account original origin) ids t"

fun insert_by :: "('a \<Rightarrow> 'a \<Rightarrow> bool) \<Rightarrow> 'a \<Rightarrow> 'a list \<Rightarrow> 'a list" where
  "insert_by before x [] = [x]"
| "insert_by before x (y # ys) = (if before y x then y # insert_by before x ys else x # y # ys)"

text \<open>
  \<open>sort\<close> with the comparator of the source, as a stable insertion sort: \<open>a\<close> comes before \<open>b\<close> when
  it has fewer scopes, or as many and a smaller name by \<open>localeCompare\<close>.
\<close>

definition origin_before :: "(string \<Rightarrow> string \<Rightarrow> int) \<Rightarrow> string \<Rightarrow> string \<Rightarrow> bool" where
  "origin_before localeCompare a b \<longleftrightarrow>
     length (siteScopes a) < length (siteScopes b)
     \<or> (length (siteScopes a) = length (siteScopes b) \<and> localeCompare a b < 0)"

definition sort_origins :: "(string \<Rightarrow> string \<Rightarrow> int) \<Rightarrow> string list \<Rightarrow> string list" where
  "sort_origins localeCompare xs = foldr (insert_by (origin_before localeCompare)) xs []"

definition global_rules_tree ::
  "(string \<Rightarrow> string \<Rightarrow> int) \<Rightarrow> tree \<Rightarrow> string list \<Rightarrow> string list \<Rightarrow> tree option" where
  "global_rules_tree localeCompare original ids contextOrigins =
     (let origins = js_set (filter (\<lambda>x. x \<noteq> GLOBAL_RULES_SCOPE) (okeys original) @ contextOrigins)
      in foldO (preserve_origin original ids) (sort_origins localeCompare origins)
           (oset GLOBAL_RULES_SCOPE [(DEFAULT_BUCKET, Bucket (consolidate_globals original))]
             (strip_defaults original)))"

definition migrateToGlobalRules ::
  "(string \<Rightarrow> string \<Rightarrow> int) \<Rightarrow> string list \<Rightarrow> string list \<Rightarrow> unit store_op" where
  "migrateToGlobalRules localeCompare accountIds contextOrigins =
     andThen (migrateToInheritance accountIds) (\<lambda>_.
     andThen finishMigration (\<lambda>_.
     andThen (reads consolidated) (\<lambda>cons.
     if cons then ret ()
     else andThen draft (\<lambda>original.
          andThen (migrationAccounts original accountIds) (\<lambda>ids.
          case global_rules_tree localeCompare original ids contextOrigins of
            None \<Rightarrow> throw NotAnObject
          | Some t \<Rightarrow> andThen (store_set MIGRATION_PENDING_KEY (SPending t True)) (\<lambda>_. finishMigration))))))"

definition reset_origin :: "origin_rules \<Rightarrow> origin_rules option" where
  "reset_origin o1 =
     (case map_of o1 DEFAULT_BUCKET of
        Some n \<Rightarrow> if node_truthy (Some n) then Some [(DEFAULT_BUCKET, n)] else None
      | None \<Rightarrow> None)"

definition resetAccountRules :: "unit store_op" where
  "resetAccountRules =
     andThen (reads inherits) (\<lambda>inh.
     andThen (unlessE inh NeedsInheritance) (\<lambda>_.
     andThen draft (\<lambda>t. commit (map_origins (\<lambda>_. reset_origin) t))))"

definition inherit_scope :: "string \<Rightarrow> string \<Rightarrow> string \<Rightarrow> tree \<Rightarrow> tree" where
  "inherit_scope key accountId scope t =
     (case map_of t scope of
        None \<Rightarrow> t
      | Some o1 \<Rightarrow> (case map_of o1 accountId of
          Some (Bucket b) \<Rightarrow> oset scope (oset accountId (Bucket (odel key b)) o1) t
        | _ \<Rightarrow> t))"

definition inheritRule :: "string \<Rightarrow> string \<Rightarrow> string \<Rightarrow> unit store_op" where
  "inheritRule origin key accountId =
     andThen (requireLabel origin ''origin'') (\<lambda>_.
     andThen (requireLabel key ''permission key'') (\<lambda>_.
     andThen (requireLabel accountId ''account id'') (\<lambda>_.
     andThen (unlessE (accountId \<noteq> DEFAULT_BUCKET) OverrideRequired) (\<lambda>_.
     andThen draft (\<lambda>t. commit (fold (inherit_scope key accountId) (siteScopes origin) t))))))"

definition clear_scope :: "string \<Rightarrow> string \<Rightarrow> tree \<Rightarrow> tree" where
  "clear_scope accountId scope t =
     (case map_of t scope of None \<Rightarrow> t | Some o1 \<Rightarrow> oset scope (odel accountId o1) t)"

definition clearRuleBucket :: "string \<Rightarrow> string \<Rightarrow> unit store_op" where
  "clearRuleBucket origin accountId =
     andThen (requireLabel origin ''origin'') (\<lambda>_.
     andThen (requireLabel accountId ''account id'') (\<lambda>_.
     andThen draft (\<lambda>t. commit (fold (clear_scope accountId) (siteScopes origin) t))))"

subsection \<open>Calls\<close>

text \<open>Everything that can happen to an open store: a call of a method, a write by somebody else,
  and the port starting or ceasing to accept writes.\<close>

datatype call =
  Check string string kind_arg string | CheckBlanket string string | GetAll string
| GetForOrigin string string | GetUseGlobalDefaults | SetUseGlobalDefaults bool
| Save string string kind_arg decision string | SaveDirect string string decision string
| SaveRetiredKey string string decision string
| Clear "string option" string | ClearAllForOrigin string | ClearForAccount string
| CopyPermissions "string option" string
| SetupNewAccount string "string list" "string option"
| Migrate | MigrateToInheritance "string list" | MigrateToGlobalRules "string list" "string list"
| ResetAccountRules | InheritRule string string string | ClearRuleBucket string string
| InvalidateCache | ExternalWrite string stored | Faults "nat option"

fun run_call :: "(string \<Rightarrow> string \<Rightarrow> int) \<Rightarrow> call \<Rightarrow> store \<Rightarrow> store" where
  "run_call cmp (Check o1 m k a) s = snd (check o1 m k a s)"
| "run_call cmp (CheckBlanket o1 a) s = snd (checkBlanketSignEvent o1 a s)"
| "run_call cmp (GetAll a) s = snd (getAll a s)"
| "run_call cmp (GetForOrigin o1 a) s = snd (getForOrigin o1 a s)"
| "run_call cmp GetUseGlobalDefaults s = snd (getUseGlobalDefaults s)"
| "run_call cmp (SetUseGlobalDefaults b) s = snd (setUseGlobalDefaults b s)"
| "run_call cmp (Save o1 m k d a) s = snd (save o1 m k d a s)"
| "run_call cmp (SaveDirect o1 k d a) s = snd (saveDirect o1 k d a s)"
| "run_call cmp (SaveRetiredKey o1 k d a) s = snd (saveRetiredKey o1 k d a s)"
| "run_call cmp (Clear o1 a) s = snd (clear o1 a s)"
| "run_call cmp (ClearAllForOrigin o1) s = snd (clearAllForOrigin o1 s)"
| "run_call cmp (ClearForAccount a) s = snd (clearForAccount a s)"
| "run_call cmp (CopyPermissions f a) s = snd (copyPermissions f a s)"
| "run_call cmp (SetupNewAccount a ids f) s = snd (setupNewAccountPermissions a ids f s)"
| "run_call cmp Migrate s = snd (migrate s)"
| "run_call cmp (MigrateToInheritance ids) s = snd (migrateToInheritance ids s)"
| "run_call cmp (MigrateToGlobalRules ids os) s = snd (migrateToGlobalRules cmp ids os s)"
| "run_call cmp ResetAccountRules s = snd (resetAccountRules s)"
| "run_call cmp (InheritRule o1 k a) s = snd (inheritRule o1 k a s)"
| "run_call cmp (ClearRuleBucket o1 a) s = snd (clearRuleBucket o1 a s)"
| "run_call cmp InvalidateCache s = invalidateCache s"
| "run_call cmp (ExternalWrite k v) s = external_set k v s"
| "run_call cmp (Faults w) s = s\<lparr>writes_left := w\<rparr>"

subsection \<open>Invariants of every method\<close>

text \<open>
  The interface between the methods and the port: what the primitives keep, every method keeps.
\<close>

lemma keeps_option_case [keeps_intros]:
  "keeps P m \<Longrightarrow> (\<And>x. keeps P (f x)) \<Longrightarrow> keeps P (case v of None \<Rightarrow> m | Some x \<Rightarrow> f x)"
  by (cases v) auto

lemma keeps_key_case [keeps_intros]:
  "(\<And>e. keeps P (f e)) \<Longrightarrow> (\<And>x. keeps P (g x)) \<Longrightarrow> keeps P (case v of Inl e \<Rightarrow> f e | Inr x \<Rightarrow> g x)"
  by (cases v) auto

locale store_invariant =
  fixes P :: "store \<Rightarrow> bool"
  assumes load_keeps: "keeps P load"
    and flag_keeps: "keeps P getUseGlobalDefaults"
    and commit_keeps: "keeps P (commit t)"
    and setUseGlobalDefaults_keeps: "keeps P (setUseGlobalDefaults b)"
    and wipe_keeps: "keeps P (finallyM (store_remove PERMISSIONS_STORAGE_KEY) invalidateCache)"
    and finishMigration_keeps: "keeps P finishMigration"
    and other_set_keeps: "key \<noteq> PERMISSIONS_STORAGE_KEY \<Longrightarrow> key \<noteq> GLOBAL_DEFAULTS_KEY \<Longrightarrow> keeps P (store_set key v)"
    and port_set_keeps: "key \<noteq> PERMISSIONS_STORAGE_KEY \<Longrightarrow> key \<noteq> GLOBAL_DEFAULTS_KEY \<Longrightarrow> keeps P (port_set key v)"
    and log_keeps: "P s \<Longrightarrow> P (s\<lparr>denials := ds\<rparr>)"
begin

lemmas primitives =
  load_keeps flag_keeps commit_keeps setUseGlobalDefaults_keeps wipe_keeps finishMigration_keeps

lemma draft_keeps: "keeps P draft"
  unfolding draft_def by (rule load_keeps)

lemma set_pending_keeps:
  "keeps P (store_set MIGRATION_PENDING_KEY v)" "keeps P (store_set MIGRATION_VERSION_KEY v)"
  by (rule other_set_keeps; simp add: store_keys)+

lemma activeBucket_keeps: "keeps P (activeBucket a)"
  unfolding activeBucket_def by (intro keeps_intros primitives)

lemma writeBucket_keeps: "keeps P (writeBucket a)"
  unfolding writeBucket_def by (intro keeps_intros activeBucket_keeps)

lemma assertRuleScope_keeps: "keeps P (assertRuleScope o1 b)"
  unfolding assertRuleScope_def by (intro keeps_intros)

lemma getForOrigin_keeps: "keeps P (getForOrigin o1 a)"
  unfolding getForOrigin_def by (intro keeps_intros primitives activeBucket_keeps)

lemma log_denial_keeps: "keeps P (log_denial o1 ans method kind)"
  unfolding log_denial_def by (intro keeps_intros keeps_modifies log_keeps)

lemma write_rule_keeps: "keeps P (write_rule l k d a)"
  unfolding write_rule_def
  by (intro keeps_intros primitives draft_keeps writeBucket_keeps assertRuleScope_keeps)

lemma revokeGrants_keeps: "keeps P (revokeGrants flt)"
proof -
  have "keeps P (revoke_backend flt)"
    unfolding revoke_backend_def keeps_def
    using port_set_keeps [of DEFAULT_BACKEND_AUTH_KEY] by (auto simp: keeps_def ret_def store_keys)
  then have "keeps P (andThen (revoke_backend flt) (\<lambda>_. port_set AUTHENTICATION_GRANTS_KEY x))" for x
    by (intro keeps_intros port_set_keeps) (auto simp: store_keys)
  then have "keeps P (\<lambda>s0. andThen (revoke_backend flt) (\<lambda>_. port_set AUTHENTICATION_GRANTS_KEY (gs s0)) s0)" for gs
    by (simp add: keeps_def)
  then show ?thesis
    unfolding revokeGrants_def requireSome_if Let_def by (intro keeps_intros) auto
qed

lemma revoke_for_keeps: "keeps P (revoke_for o1 a)"
  unfolding revoke_for_def by (rule revokeGrants_keeps)

lemma copyPermissions_keeps: "keeps P (copyPermissions f a)"
  unfolding copyPermissions_def Let_def by (intro keeps_intros primitives draft_keeps)

lemma clearForAccount_keeps: "keeps P (clearForAccount a)"
  unfolding clearForAccount_def by (intro keeps_intros primitives draft_keeps revoke_for_keeps)

lemma saveDirect_keeps: "keeps P (saveDirect o1 k d a)"
  unfolding saveDirect_def by (intro keeps_intros write_rule_keeps)

lemma migrationAccounts_keeps: "keeps P (migrationAccounts t ids)"
  unfolding migrationAccounts_def Let_def by (intro keeps_intros)

lemma migrateToInheritance_keeps: "keeps P (migrateToInheritance ids)"
  unfolding migrateToInheritance_def
  by (intro keeps_intros primitives draft_keeps migrationAccounts_keeps set_pending_keeps)

lemmas operations =
  check_def checkBlanketSignEvent_def getAll_def save_def saveRetiredKey_def clear_def
  clearAllForOrigin_def setupNewAccountPermissions_def migrate_def migrateToPerKind_def
  migrateToPerAccount_def migrateForwardToAsk_def migrateDmKindsToSendMessages_def
  migrateToGlobalRules_def resetAccountRules_def inheritRule_def clearRuleBucket_def

lemmas parts =
  primitives draft_keeps set_pending_keeps activeBucket_keeps writeBucket_keeps getForOrigin_keeps
  log_denial_keeps write_rule_keeps revoke_for_keeps copyPermissions_keeps clearForAccount_keeps
  saveDirect_keeps migrationAccounts_keeps migrateToInheritance_keeps

lemma methods_keep:
  "keeps P (check origin method kind a)" "keeps P (checkBlanketSignEvent origin a)" "keeps P (getAll a)"
  "keeps P (save origin method kind d a)" "keeps P (saveRetiredKey origin key d a)" "keeps P (clear site a)"
  "keeps P (clearAllForOrigin origin)" "keeps P (setupNewAccountPermissions a ids from)" "keeps P migrate"
  "keeps P (migrateToGlobalRules cmp ids sites)" "keeps P resetAccountRules" "keeps P (inheritRule origin key a)"
  "keeps P (clearRuleBucket origin a)"
  unfolding operations Let_def by (intro keeps_intros parts)+

lemma run_call_keeps:
  assumes "P s" "\<And>k v. P s \<Longrightarrow> P (external_set k v s)" "\<And>w. P s \<Longrightarrow> P (s\<lparr>writes_left := w\<rparr>)" "P s \<Longrightarrow> P (invalidateCache s)"
  shows "P (run_call cmp c s)"
  using assms by (cases c) (auto intro!: keepsD [where P = P and s = s, OF _ assms(1)] methods_keep parts)

end

subsection \<open>The caches agree with the store\<close>

definition coherent :: "store \<Rightarrow> bool" where
  "coherent s \<longleftrightarrow>
     (\<forall>t. cachedPerms s = Some t \<longrightarrow> t = stored_tree s) \<and>
     (\<forall>b. cachedUseGlobalDefaults s = Some b \<longrightarrow> b = stored_flag s)"

lemma coherent_invalidate [simp]: "coherent (invalidateCache s)"
  by (simp add: coherent_def invalidateCache_def)

lemma keeps_finally_invalidate: "keeps coherent (finallyM m invalidateCache)"
  by (auto simp: keeps_def finallyM_def split: prod.splits)

lemma coherent_set_other:
  "key \<noteq> PERMISSIONS_STORAGE_KEY \<Longrightarrow> key \<noteq> GLOBAL_DEFAULTS_KEY \<Longrightarrow> coherent s \<Longrightarrow>
     coherent (s\<lparr>mem := mem_set key v (mem s), writes_left := w\<rparr>)"
  by (auto simp: coherent_def stored_tree_def stored_flag_def port_get_def mem.get_put)

lemma keeps_coherent_port_set:
  assumes "key \<noteq> PERMISSIONS_STORAGE_KEY" "key \<noteq> GLOBAL_DEFAULTS_KEY"
  shows "keeps coherent (port_set key v)"
  unfolding keeps_def
proof (intro allI impI)
  fix s :: store
  assume "coherent s"
  then show "coherent (snd (port_set key v s))"
    using coherent_set_other [OF assms] by (cases key v s rule: port_set_cases) auto
qed

lemma keeps_coherent_store_set:
  "key \<noteq> PERMISSIONS_STORAGE_KEY \<Longrightarrow> key \<noteq> GLOBAL_DEFAULTS_KEY \<Longrightarrow> keeps coherent (store_set key v)"
  unfolding store_set_def
  by (intro keeps_andThen keeps_coherent_port_set keeps_modifies) (auto simp: on_change_def)

interpretation cache: store_invariant coherent
proof
  show "keeps coherent load" "keeps coherent getUseGlobalDefaults"
    by (auto simp: keeps_def load_def getUseGlobalDefaults_def coherent_def stored_tree_def stored_flag_def
        port_get_def split: option.splits)
  show "keeps coherent (commit t)" "keeps coherent (setUseGlobalDefaults b)"
    "keeps coherent (finallyM (store_remove PERMISSIONS_STORAGE_KEY) invalidateCache)" for t b
    unfolding commit_def setUseGlobalDefaults_def by (rule keeps_finally_invalidate)+
  show "keeps coherent finishMigration"
    unfolding finishMigration_def
    by (intro keeps_intros allI) (auto split: prod.splits intro: keeps_intros keeps_finally_invalidate)
  show "coherent (s\<lparr>denials := ds\<rparr>)" if "coherent s" for s ds
    using that by (simp add: coherent_def stored_tree_def stored_flag_def port_get_def)
qed (fact keeps_coherent_store_set keeps_coherent_port_set)+

lemma subscribed_invalidate [simp]: "subscribed (invalidateCache s) = subscribed s"
  by (simp add: invalidateCache_def)

lemma subscribed_on_change [simp]: "subscribed (on_change key s) = subscribed s"
  by (simp add: on_change_def)

lemma keeps_subscribed_port: "keeps subscribed (port_write f)"
  by (auto simp: keeps_def port_write_def split: option.splits nat.splits)

lemma keeps_subscribed_store:
  "keeps subscribed (port_set key v)" "keeps subscribed (store_set key v)" "keeps subscribed (store_remove key)"
  unfolding store_set_def store_remove_def port_set_def port_remove_def
  by (intro keeps_intros keeps_modifies keeps_subscribed_port; simp)+

interpretation listening: store_invariant subscribed
proof
  show "keeps subscribed load" "keeps subscribed getUseGlobalDefaults"
    by (auto simp: keeps_def load_def getUseGlobalDefaults_def split: option.splits)
  show "keeps subscribed (commit t)" "keeps subscribed (setUseGlobalDefaults b)"
    "keeps subscribed (finallyM (store_remove PERMISSIONS_STORAGE_KEY) invalidateCache)" for t b
    unfolding commit_def setUseGlobalDefaults_def by (intro keeps_intros keeps_subscribed_store; simp)+
  show "keeps subscribed finishMigration"
    unfolding finishMigration_def
    by (intro keeps_intros allI) (auto split: prod.splits intro!: keeps_intros keeps_subscribed_store)
qed (auto intro: keeps_subscribed_store)

lemma coherent_external: "subscribed s \<Longrightarrow> coherent s \<Longrightarrow> coherent (external_set k v s)"
  by (auto simp: external_set_def on_change_def invalidateCache_def coherent_def stored_tree_def stored_flag_def port_get_def mem.get_put)

lemma run_call_coherent:
  assumes "coherent s \<and> subscribed s" shows "coherent (run_call cmp c s) \<and> subscribed (run_call cmp c s)"
proof
  show "coherent (run_call cmp c s)"
    using assms coherent_external
    by (intro cache.run_call_keeps) (auto simp: coherent_def stored_tree_def stored_flag_def port_get_def invalidateCache_def)
  show "subscribed (run_call cmp c s)"
    using assms by (intro listening.run_call_keeps) (auto simp: external_set_def)
qed

lemma run_calls_coherent:
  "coherent s \<and> subscribed s \<Longrightarrow> coherent (fold (run_call cmp) cs s) \<and> subscribed (fold (run_call cmp) cs s)"
  by (induction cs arbitrary: s) (use run_call_coherent in auto)

lemma coherent_open: "coherent (open_store m) \<and> subscribed (open_store m)"
  by (simp add: open_store_def coherent_def)


end
