(* ===== verification/Perm_Rules.thy ===== *)
theory Perm_Rules
  imports Perm_Store
begin

section \<open>What the permission store promises\<close>

text \<open>
  The specification of \<open>Permissions\<close> over the persistent store alone (\<open>rules_for\<close>), the proof that
  the cached reads implement it, and the contracts of the writes: what a saved rule changes and
  what it leaves alone, that a refused write leaves nothing behind, and what the clearing
  operations remove.
\<close>

subsection \<open>The specification\<close>

definition bucket_of :: "'z port_scheme \<Rightarrow> string \<Rightarrow> string option" where
  "bucket_of s accountId =
     (if \<not> inherits s \<and> stored_flag s then Some DEFAULT_BUCKET
      else if accountId = [] then None else Some accountId)"

definition rules_for :: "'z port_scheme \<Rightarrow> string \<Rightarrow> string \<Rightarrow> bucket" where
  "rules_for s origin accountId =
     (case bucket_of s accountId of
        None \<Rightarrow> []
      | Some b \<Rightarrow> if inherits s then effectiveOriginPermissions (stored_tree s) origin accountId
                  else originPermissionBucket (stored_tree s) origin b)"

text \<open>A state that differs in its caches only.\<close>

definition same_store :: "store \<Rightarrow> store \<Rightarrow> bool" where
  "same_store s t \<longleftrightarrow> mem t = mem s \<and> writes_left t = writes_left s \<and> coherent t \<and> subscribed t = subscribed s"

lemma port_get_mem: "mem t = mem s \<Longrightarrow> port_get k t = port_get k s"
  by (simp add: port_get_def)

lemma port_reads_mem:
  assumes "mem t = mem s"
  shows "inherits t = inherits s" "stored_tree t = stored_tree s" "stored_flag t = stored_flag s"
    "pending t = pending s" "consolidated t = consolidated s" "bucket_of t = bucket_of s" "rules_for t = rules_for s"
  using port_get_mem [OF assms]
  by (simp_all add: inherits_def stored_tree_def stored_flag_def pending_def consolidated_def bucket_of_def
      rules_for_def fun_eq_iff)

lemma getUseGlobalDefaults_run:
  assumes "coherent s"
  obtains s1 where "getUseGlobalDefaults s = (Inr (stored_flag s), s1)" "same_store s s1"
  using assms that
  by (cases "cachedUseGlobalDefaults s")
    (auto simp: getUseGlobalDefaults_def coherent_def same_store_def stored_tree_def stored_flag_def port_get_def)

lemma load_run:
  assumes "coherent s" "pending s = None"
  obtains s1 where "load s = (Inr (stored_tree s), s1)" "same_store s s1"
  using assms that
  by (cases "cachedPerms s")
    (auto simp: load_def coherent_def same_store_def stored_tree_def stored_flag_def port_get_def)

lemma load_pending: "pending s \<noteq> None \<Longrightarrow> load s = (Inl MigrationIncomplete, s)"
  by (simp add: load_def)

lemma same_store_refl: "coherent s \<Longrightarrow> same_store s s"
  by (simp add: same_store_def)

lemma same_store_trans: "same_store s t \<Longrightarrow> same_store t u \<Longrightarrow> same_store s u"
  by (simp add: same_store_def)

lemma same_store_reads:
  assumes "same_store s t"
  shows "inherits t = inherits s" "stored_tree t = stored_tree s" "stored_flag t = stored_flag s"
    "pending t = pending s" "consolidated t = consolidated s" "bucket_of t = bucket_of s" "rules_for t = rules_for s"
    "mem t = mem s" "coherent t"
  using assms port_reads_mem [of t s] by (auto simp: same_store_def)

lemma activeBucket_run:
  assumes "coherent s"
  obtains s1 where "activeBucket a s = (Inr (bucket_of s a), s1)" "same_store s s1"
proof (cases "inherits s")
  case True
  then have "activeBucket a s = (Inr (bucket_of s a), s)"
    by (simp add: activeBucket_def bucket_of_def andThen_reads ret_apply)
  with that same_store_refl [OF assms] show ?thesis by blast
next
  case False
  obtain s1 where "getUseGlobalDefaults s = (Inr (stored_flag s), s1)" "same_store s s1"
    using getUseGlobalDefaults_run [OF assms] .
  with False that show ?thesis
    by (simp add: activeBucket_def bucket_of_def andThen_reads andThen_Inr ret_apply)
qed

lemma getForOrigin_run:
  assumes "coherent s" "pending s = None"
  obtains s1 where "getForOrigin origin a s = (Inr (rules_for s origin a), s1)" "same_store s s1"
proof -
  obtain s1 where 1: "activeBucket a s = (Inr (bucket_of s a), s1)" "same_store s s1"
    using activeBucket_run [OF assms(1)] .
  note r1 = same_store_reads [OF 1(2)]
  obtain s2 where 2: "load s1 = (Inr (stored_tree s1), s2)" "same_store s1 s2"
    using load_run [of s1] r1 assms by metis
  note r2 = same_store_reads [OF 2(2)]
  show ?thesis
  proof (cases "bucket_of s a")
    case None
    with 1 that show ?thesis
      by (simp add: getForOrigin_def andThen_Inr rules_for_def ret_apply)
  next
    case (Some b)
    then have "getForOrigin origin a s = (Inr (rules_for s origin a), s2)"
      using 1(1) 2(1) r1 r2
      by (simp add: getForOrigin_def andThen_Inr rules_for_def ret_apply andThen_reads)
    with that same_store_trans [OF 1(2) 2(2)] show ?thesis by blast
  qed
qed

lemma check_run:
  assumes "coherent s" "pending s = None"
  shows "fst (check origin method kind a s) = Inr (resolve (rules_for s origin a) method kind)"
proof -
  obtain s1 where "getForOrigin origin a s = (Inr (rules_for s origin a), s1)"
    using getForOrigin_run [OF assms] .
  then show ?thesis
    by (simp add: check_def andThen_Inr Let_def log_denial_def whenM_def resolve_def andThen_modifies ret_apply)
qed

lemma check_pending:
  assumes "coherent s" "pending s \<noteq> None" "bucket_of s a \<noteq> None"
  shows "fst (check origin method kind a s) = Inl MigrationIncomplete"
proof -
  obtain s1 where 1: "activeBucket a s = (Inr (bucket_of s a), s1)" "same_store s s1"
    using activeBucket_run [OF assms(1)] .
  then have "load s1 = (Inl MigrationIncomplete, s1)"
    using assms(2) same_store_reads [OF 1(2)] by (intro load_pending) simp
  with 1 assms(3) show ?thesis
    by (auto simp: check_def getForOrigin_def andThen_assoc andThen_Inr andThen_Inl)
qed

subsection \<open>Committing\<close>

lemma commit_ok:
  assumes "commit t s = (Inr (), s')"
  shows "stored_tree s' = t \<and> (\<forall>k. k \<noteq> PERMISSIONS_STORAGE_KEY \<longrightarrow> port_get k s' = port_get k s) \<and> coherent s'"
proof -
  obtain w where "s' = invalidateCache (on_change PERMISSIONS_STORAGE_KEY
      (s\<lparr>mem := mem_set PERMISSIONS_STORAGE_KEY (STree t) (mem s), writes_left := w\<rparr>))"
    using assms
    by (cases PERMISSIONS_STORAGE_KEY "STree t" s rule: port_set_cases)
      (auto simp: commit_def finallyM_def store_set_def andThen_def modifies_def)
  then show ?thesis
    by (auto simp: stored_tree_def port_get_def mem.get_put on_change_def invalidateCache_def coherent_def)
qed

lemma commit_failed: "commit t s = (Inl e, s') \<Longrightarrow> e = StoreFailed \<and> mem s' = mem s"
  by (cases PERMISSIONS_STORAGE_KEY "STree t" s rule: port_set_cases)
    (auto simp: commit_def finallyM_def store_set_def andThen_def modifies_def invalidateCache_def)

text \<open>Only the rules differ.\<close>

definition only_tree :: "store \<Rightarrow> store \<Rightarrow> bool" where
  "only_tree s s' \<longleftrightarrow> (\<forall>k. k \<noteq> PERMISSIONS_STORAGE_KEY \<longrightarrow> port_get k s' = port_get k s) \<and> coherent s'"

lemma only_tree_reads:
  assumes "only_tree s s'"
  shows "inherits s' = inherits s" "stored_flag s' = stored_flag s" "pending s' = pending s"
    "consolidated s' = consolidated s" "bucket_of s' = bucket_of s" "coherent s'"
  using assms
  by (auto simp: only_tree_def inherits_def stored_flag_def pending_def consolidated_def bucket_of_def
      store_keys fun_eq_iff)

text \<open>A locked section: read the draft, rewrite it, commit it.\<close>

lemma draft_run:
  assumes "coherent s" "andThen draft f s = (Inr x, s')"
  obtains s1 where "pending s = None" "same_store s s1" "f (stored_tree s) s1 = (Inr x, s')"
proof (cases "pending s")
  case None
  obtain s1 where "load s = (Inr (stored_tree s), s1)" "same_store s s1"
    using load_run [OF assms(1) None] .
  with assms(2) that None show ?thesis by (simp add: draft_def andThen_Inr)
next
  case (Some p)
  with assms(2) show ?thesis by (simp add: draft_def load_def andThen_def)
qed

lemma draft_commit:
  assumes "coherent s" "andThen draft (\<lambda>t. commit (f t)) s = (Inr (), s')"
  shows "pending s = None \<and> stored_tree s' = f (stored_tree s) \<and> only_tree s s'"
proof -
  obtain s1 where 1: "pending s = None" "same_store s s1" "commit (f (stored_tree s)) s1 = (Inr (), s')"
    using draft_run [OF assms] .
  with commit_ok [OF 1(3)] port_get_mem [of s1 s] show ?thesis
    by (simp add: only_tree_def same_store_def)
qed

lemma write_rule_ok:
  assumes "coherent s" "write_rule label key d a s = (Inr (), s')"
  shows "\<exists>b. bucket_of s a = Some b \<and> set_rule label b key d (stored_tree s) = Some (stored_tree s')
     \<and> pending s = None \<and> only_tree s s' \<and> (consolidated s \<longrightarrow> (label = GLOBAL_RULES_SCOPE) = (b = DEFAULT_BUCKET))"
proof -
  obtain s1 where 1: "activeBucket a s = (Inr (bucket_of s a), s1)" "same_store s s1"
    using activeBucket_run [OF assms(1)] .
  note r1 = same_store_reads [OF 1(2)]
  obtain b where b: "bucket_of s a = Some b"
    using assms(2) 1(1) by (cases "bucket_of s a") (auto simp: write_rule_def writeBucket_def andThen_Inr andThen_assoc throw_def)
  then have "andThen (assertRuleScope label b) (\<lambda>_. andThen draft (\<lambda>perms.
       case set_rule label b key d perms of None \<Rightarrow> throw NotAnObject | Some perms' \<Rightarrow> commit perms')) s1 = (Inr (), s')"
    using assms(2) 1(1) by (simp add: write_rule_def writeBucket_def andThen_Inr andThen_assoc)
  then have c: "consolidated s \<longrightarrow> (label = GLOBAL_RULES_SCOPE) = (b = DEFAULT_BUCKET)"
    and run: "andThen draft (\<lambda>perms. case set_rule label b key d perms of
        None \<Rightarrow> throw NotAnObject | Some perms' \<Rightarrow> commit perms') s1 = (Inr (), s')"
    using r1 by (auto simp: assertRuleScope_def andThen_assoc andThen_reads andThen_unlessE throw_def split: if_splits)
  obtain s2 where 2: "pending s1 = None" "same_store s1 s2"
      "(case set_rule label b key d (stored_tree s1) of None \<Rightarrow> throw NotAnObject | Some perms' \<Rightarrow> commit perms') s2 = (Inr (), s')"
    using draft_run [OF r1(9) run] .
  then obtain t where t: "set_rule label b key d (stored_tree s) = Some t" "commit t s2 = (Inr (), s')"
    using r1 by (auto simp: throw_def split: option.splits)
  have "stored_tree s' = t" "only_tree s s'"
    using commit_ok [OF t(2)] same_store_trans [OF 1(2) 2(2)] port_get_mem [of s2 s]
    by (auto simp: only_tree_def same_store_def)
  with b t c 2(1) r1 show ?thesis by auto
qed

lemma saveDirect_ok:
  assumes "coherent s" "saveDirect origin key d a s = (Inr (), s')"
  shows "origin \<noteq> [] \<and> key \<noteq> [] \<and> key \<notin> set DM_PERMISSION_KEYS \<and> \<not> (key = RELAY_AUTH_KEY \<and> d = Allow)
    \<and> write_rule (storageLabel origin) key d a s = (Inr (), s')"
  using assms(2)
  by (auto simp: saveDirect_def requireLabel_def andThen_unlessE throw_def split: if_splits)

subsection \<open>Trees as objects\<close>

text \<open>No object of a stored tree repeats a key.\<close>

fun wf_node :: "node \<Rightarrow> bool" where
  "wf_node (Bucket b) = wf_obj b"
| "wf_node (Rule d) = True"

definition wf_rules :: "origin_rules \<Rightarrow> bool" where
  "wf_rules o1 \<longleftrightarrow> wf_obj o1 \<and> (\<forall>n \<in> set (map snd o1). wf_node n)"

definition wf_tree :: "tree \<Rightarrow> bool" where
  "wf_tree t \<longleftrightarrow> wf_obj t \<and> (\<forall>o1 \<in> set (map snd t). wf_rules o1)"

lemma wf_tree_rules: "wf_tree t \<Longrightarrow> map_of t l = Some o1 \<Longrightarrow> wf_rules o1"
  by (force simp: wf_tree_def dest!: map_of_SomeD)

lemma wf_rules_node: "wf_rules o1 \<Longrightarrow> map_of o1 b = Some n \<Longrightarrow> wf_node n"
  by (force simp: wf_rules_def dest!: map_of_SomeD)

lemma okeys_enumerate: "okeys (map (\<lambda>(i, c). (show_nat i, f c)) (List.enumerate n xs)) = map show_nat [n ..< n + length xs]"
  by (induction xs arbitrary: n) (auto simp: upt_rec)

lemma wf_node_entries: "wf_node n \<Longrightarrow> wf_obj (node_entries n)"
  using show_nat_inj
  by (cases n) (auto simp: wf_obj_def okeys_enumerate distinct_map inj_on_def simp del: map_map)

lemma wf_entries_at: "wf_tree t \<Longrightarrow> wf_obj (entries_at t l b)"
  by (auto simp: entries_at_def node_at_def bind_eq_Some_conv split: option.splits
      intro: wf_node_entries wf_rules_node wf_tree_rules)

text \<open>The layers of a caller: the legacy hostname below the exact origin.\<close>

lemma wf_originPermissionBucket [simp]: "wf_obj (originPermissionBucket t origin b)"
proof -
  have "wf_obj (fold (\<lambda>scope result. ospread result (entries_at t scope b)) xs acc)" if "wf_obj acc" for xs acc
    using that by (induction xs arbitrary: acc) auto
  then show ?thesis by (simp add: originPermissionBucket_def)
qed

lemma map_of_originPermissionBucket:
  assumes "wf_tree t"
  shows "map_of (originPermissionBucket t origin b) =
    (case canonicalHttpOrigin origin of
       None \<Rightarrow> map_of (entries_at t origin b)
     | Some c \<Rightarrow> map_of (entries_at t (hostnameOf c) b) ++ map_of (entries_at t c b))"
  using wf_entries_at [OF assms]
  by (auto simp: originPermissionBucket_def siteScopes_def map_of_ospread split: option.splits)

lemma originPermissionBucket_top:
  assumes "wf_tree t" "map_of (entries_at t (storageLabel origin) b) k = Some d"
  shows "map_of (originPermissionBucket t origin b) k = Some d"
  using assms by (cases origin rule: siteScopes_cases)
    (auto simp: map_of_originPermissionBucket storageLabel_def siteScopes_def)

lemma originPermissionBucket_cong:
  "(\<And>l. l \<in> set (siteScopes origin) \<Longrightarrow> entries_at t l b = entries_at u l b) \<Longrightarrow>
     originPermissionBucket t origin b = originPermissionBucket u origin b"
  by (cases origin rule: siteScopes_cases) (auto simp: originPermissionBucket_def)

lemma originPermissionBucket_empty:
  "(\<And>l. l \<in> set (siteScopes origin) \<Longrightarrow> entries_at t l b = []) \<Longrightarrow> originPermissionBucket t origin b = []"
  by (cases origin rule: siteScopes_cases) (auto simp: originPermissionBucket_def)

lemma map_of_effective:
  "map_of (effectiveOriginPermissions t origin a) =
     map_of (originPermissionBucket t GLOBAL_RULES_SCOPE DEFAULT_BUCKET) ++
     map_of (originPermissionBucket t GLOBAL_RULES_SCOPE a) ++
     map_of (originPermissionBucket t origin DEFAULT_BUCKET) ++
     map_of (originPermissionBucket t origin a)"
  by (simp add: effectiveOriginPermissions_def map_of_ospread map_add_assoc)

lemma siteScopes_cong: "storageLabel a = storageLabel b \<Longrightarrow> siteScopes a = siteScopes b"
proof (cases a rule: siteScopes_cases; cases b rule: siteScopes_cases)
  fix c
  assume h: "storageLabel a = storageLabel b" "canonicalHttpOrigin a = None" "storageLabel a = a"
    "canonicalHttpOrigin b = Some c" "storageLabel b = c"
  then have "canonicalHttpOrigin c = Some c" using canonicalOrigin_fixed by (auto simp: canonicalHttpOrigin_def)
  with h show ?thesis by simp
next
  fix c
  assume h: "storageLabel a = storageLabel b" "canonicalHttpOrigin b = None" "storageLabel b = b"
    "canonicalHttpOrigin a = Some c" "storageLabel a = c"
  then have "canonicalHttpOrigin c = Some c" using canonicalOrigin_fixed by (auto simp: canonicalHttpOrigin_def)
  with h show ?thesis by simp
qed auto

lemma siteScopes_global: "siteScopes GLOBAL_RULES_SCOPE = [GLOBAL_RULES_SCOPE]"
  by code_simp

lemma node_at_oset: "node_at (oset l o1 t) l' b = (if l' = l then map_of o1 b else node_at t l' b)"
  by (simp add: node_at_def)

lemma node_at_odel: "node_at (odel l t) l' b = (if l' = l then None else node_at t l' b)"
  by (simp add: node_at_def)

lemma node_at_bound: "map_of t l = Some o1 \<Longrightarrow> node_at t l b = map_of o1 b"
  by (simp add: node_at_def)

lemma set_rule_SomeD:
  assumes "set_rule l b k d t = Some t'"
  shows "\<exists>o1. t' = oset l (oset b (Bucket (oset k d (entries_at t l b))) o1) t
    \<and> o1 = (case map_of t l of None \<Rightarrow> [] | Some o1 \<Rightarrow> o1)"
proof (cases "map_of t l")
  case None
  with assms show ?thesis by (simp add: set_rule_def entries_at_def node_at_def)
next
  case (Some o1)
  then have e: "entries_at t l b = (case map_of o1 b of None \<Rightarrow> [] | Some n \<Rightarrow> node_entries n)"
    by (simp add: entries_at_def node_at_def)
  show ?thesis
  proof (cases "map_of o1 b")
    case None
    with assms Some e show ?thesis by (simp add: set_rule_def)
  next
    case n: (Some n)
    with assms Some e show ?thesis by (cases n) (auto simp: set_rule_def truthy_def split: if_splits)
  qed
qed

lemma set_rule_entries:
  assumes "set_rule l b k d t = Some t'"
  shows "entries_at t' l' b' = (if l' = l \<and> b' = b then oset k d (entries_at t l b) else entries_at t l' b')"
proof -
  obtain o1 where t': "t' = oset l (oset b (Bucket (oset k d (entries_at t l b))) o1) t"
    and o1: "o1 = (case map_of t l of None \<Rightarrow> [] | Some o1 \<Rightarrow> o1)"
    using set_rule_SomeD [OF assms] by blast
  have at: "map_of o1 b' = node_at t l b'" by (auto simp: o1 node_at_def split: option.splits)
  have n: "node_at t' l' b' = (if l' = l \<and> b' = b then Some (Bucket (oset k d (entries_at t l b))) else node_at t l' b')"
    by (auto simp: t' node_at_oset at)
  show ?thesis unfolding entries_at_def [of t'] n by (simp add: entries_at_def [of t l'])
qed

lemma snd_oset: "x \<in> set (oset k v xs) \<Longrightarrow> snd x = v \<or> (\<exists>y \<in> set xs. snd x = snd y)"
  by (induction xs) (auto split: if_splits)

lemma wf_rules_oset: "wf_rules o1 \<Longrightarrow> wf_node n \<Longrightarrow> wf_rules (oset b n o1)"
  using snd_oset [of _ b n o1] by (fastforce simp: wf_rules_def)

lemma wf_tree_oset: "wf_tree t \<Longrightarrow> wf_rules o1 \<Longrightarrow> wf_tree (oset l o1 t)"
  using snd_oset [of _ l o1 t] by (fastforce simp: wf_tree_def)

lemma wf_tree_set_rule:
  assumes "wf_tree t" "set_rule l b k d t = Some t'" shows "wf_tree t'"
proof -
  obtain o1 where t': "t' = oset l (oset b (Bucket (oset k d (entries_at t l b))) o1) t"
    and o1: "o1 = (case map_of t l of None \<Rightarrow> [] | Some o1 \<Rightarrow> o1)"
    using set_rule_SomeD [OF assms(2)] by blast
  have "wf_rules []" by (simp add: wf_rules_def)
  then have "wf_rules o1" using wf_tree_rules [OF assms(1)] by (auto simp: o1 split: option.splits)
  then show ?thesis
    unfolding t' using assms(1) wf_entries_at by (intro wf_tree_oset wf_rules_oset) auto
qed

subsection \<open>Clearing\<close>

lemma entries_at_fold_odel:
  "entries_at (fold odel ls t) l b = (if l \<in> set ls then [] else entries_at t l b)"
  by (induction ls arbitrary: t) (auto simp: entries_at_def node_at_odel)

lemma keeps_port_get_set: "k \<noteq> key \<Longrightarrow> keeps (\<lambda>s. port_get k s = v) (port_set key x)"
  unfolding keeps_def
proof (intro allI impI)
  fix s :: "'a port_scheme"
  assume "k \<noteq> key" "port_get k s = v"
  then show "port_get k (snd (port_set key x s)) = v"
    by (cases key x s rule: port_set_cases) (auto simp: port_get_def mem.get_put)
qed

lemma revokeGrants_frame:
  fixes s :: "'z port_scheme"
  assumes "k \<noteq> AUTHENTICATION_GRANTS_KEY" "k \<noteq> DEFAULT_BACKEND_AUTH_KEY"
  shows "port_get k (snd (revokeGrants flt s)) = port_get k s"
proof -
  have "keeps (\<lambda>s :: 'z port_scheme. port_get k s = v) (revokeGrants flt)" for v
  proof -
    have "keeps (\<lambda>s :: 'z port_scheme. port_get k s = v) (revoke_backend flt)"
      unfolding revoke_backend_def keeps_def
      using keeps_port_get_set [OF assms(2)] by (auto simp: keeps_def ret_def)
    then have "keeps (\<lambda>s :: 'z port_scheme. port_get k s = v) (andThen (revoke_backend flt) (\<lambda>_. port_set AUTHENTICATION_GRANTS_KEY x))" for x
      by (intro keeps_intros keeps_port_get_set assms) auto
    then have "keeps (\<lambda>s :: 'z port_scheme. port_get k s = v) (\<lambda>s0. andThen (revoke_backend flt) (\<lambda>_. port_set AUTHENTICATION_GRANTS_KEY (gs s0)) s0)" for gs
      unfolding keeps_def by blast
    then show ?thesis
      unfolding revokeGrants_def requireSome_if Let_def by (intro keeps_intros) auto
  qed
  then show ?thesis by (simp add: keeps_def)
qed

lemma revoke_for_run:
  assumes "coherent s" "revoke_for o1 a s = (Inr (), s1)"
  shows "coherent s1 \<and> stored_tree s1 = stored_tree s \<and> pending s1 = pending s \<and> inherits s1 = inherits s
    \<and> stored_flag s1 = stored_flag s \<and> bucket_of s1 = bucket_of s"
proof -
  have s1: "s1 = snd (revokeGrants \<lparr>f_id = None, f_accountId = (if a = [] then None else Some a), f_origin = o1\<rparr> s)"
    using assms(2) by (simp add: revoke_for_def)
  have "coherent s1" using keepsD [OF cache.revoke_for_keeps assms(1), of o1 a] assms(2) by simp
  then show ?thesis
    unfolding s1 by (simp add: stored_tree_def pending_def inherits_def stored_flag_def bucket_of_def
        revokeGrants_frame store_keys fun_eq_iff)
qed

lemma clearAllForOrigin_ok:
  assumes "coherent s" "clearAllForOrigin origin s = (Inr (), s')"
  shows "stored_tree s' = fold odel (siteScopes origin) (stored_tree s) \<and> coherent s'
    \<and> inherits s' = inherits s \<and> stored_flag s' = stored_flag s \<and> pending s' = None"
proof -
  have "andThen (revoke_for (Some origin) []) (\<lambda>_. andThen draft (\<lambda>perms. commit (fold odel (siteScopes origin) perms))) s = (Inr (), s')"
    using assms(2) by (auto simp: clearAllForOrigin_def requireLabel_def andThen_unlessE throw_def split: if_splits)
  then obtain s1 where 1: "revoke_for (Some origin) [] s = (Inr (), s1)"
      "andThen draft (\<lambda>perms. commit (fold odel (siteScopes origin) perms)) s1 = (Inr (), s')"
    by (rule andThen_InrE) auto
  note r = revoke_for_run [OF assms(1) 1(1)]
  have "pending s1 = None \<and> stored_tree s' = fold odel (siteScopes origin) (stored_tree s1) \<and> only_tree s1 s'"
    using draft_commit [OF _ 1(2)] r by blast
  with r only_tree_reads [of s1 s'] show ?thesis by simp
qed

lemma okeys_map_origins: "map_of t l = None \<Longrightarrow> map_of (map_origins f t) l = None"
  by (induction t) (auto simp: map_origins_def List.map_filter_simps split: option.splits if_splits)

lemma map_of_map_origins:
  assumes "wf_tree t" shows "map_of (map_origins f t) l = Option.bind (map_of t l) (f l)"
proof -
  have "map_of (map_origins f t) l = Option.bind (map_of t l) (f l)" if "wf_obj t" for t
    using that
  proof (induction t)
    case (Cons p t)
    obtain l1 o1 where p: "p = (l1, o1)" by (cases p)
    have "map_of (map_origins f t) l1 = None"
      using Cons.prems p by (intro okeys_map_origins) (auto simp: wf_obj_def map_of_eq_None_iff)
    with Cons p show ?case
      by (auto simp: wf_obj_def map_origins_def List.map_filter_simps split: option.splits)
  qed (simp add: map_origins_def List.map_filter_simps)
  with assms show ?thesis by (simp add: wf_tree_def)
qed

lemma node_at_map_origins:
  assumes "wf_tree t"
  shows "node_at (map_origins f t) l b = Option.bind (map_of t l) (\<lambda>o1. Option.bind (f l o1) (\<lambda>o2. map_of o2 b))"
  by (simp add: node_at_def map_of_map_origins [OF assms])

lemma clear_account_node:
  "Option.bind (clear_account a o1) (\<lambda>o2. map_of o2 b) = (if b = a \<and> node_truthy (map_of o1 a) then None else map_of o1 b)"
proof -
  have "map_of o1 b = None" if "odel a o1 = []" "b \<noteq> a"
    using that map_of_odel [of a o1] by (metis fun_upd_apply map_of.simps(1))
  then show ?thesis by (auto simp: clear_account_def Let_def)
qed

lemma clearForAccount_ok:
  assumes "coherent s" "wf_tree (stored_tree s)" "clearForAccount a s = (Inr (), s')" "a \<noteq> DEFAULT_BUCKET"
  shows "entries_at (stored_tree s') l b = (if b = a then [] else entries_at (stored_tree s) l b)
    \<and> decisionFor registry a origin auth s' = None"
proof -
  obtain f where f: "f = (\<lambda>perms. whenM (list_ex (\<lambda>(_, o1). node_truthy (map_of o1 a)) perms)
              (commit (map_origins (\<lambda>_. clear_account a) perms)))" by blast
  have "a \<noteq> []" and "andThen (revoke_for None a) (\<lambda>_. andThen draft f) s = (Inr (), s')"
    using assms(3,4) unfolding f
    by (auto simp: clearForAccount_def requireLabel_def andThen_unlessE throw_def split: if_splits)
  then have a: "a \<noteq> []" and run: "andThen (revoke_for None a) (\<lambda>_. andThen draft f) s = (Inr (), s')" by auto
  from run obtain s1 where 1: "revoke_for None a s = (Inr (), s1)" "andThen draft f s1 = (Inr (), s')"
    by (rule andThen_InrE) auto
  note r = revoke_for_run [OF assms(1) 1(1)]
  obtain s2 where 2: "same_store s1 s2" "f (stored_tree s1) s2 = (Inr (), s')"
    using draft_run [OF _ 1(2)] r by blast
  note r2 = same_store_reads [OF 2(1)]
  have none: "decisionFor registry a origin auth s1 = None"
    using revoke_account_decision [of a s s1 registry origin auth] 1(1) a by (simp add: revoke_for_def)
  have dec: "decisionFor registry a origin auth t = decisionFor registry a origin auth u"
    if "\<And>k. k \<noteq> PERMISSIONS_STORAGE_KEY \<Longrightarrow> port_get k t = port_get k u" for t u :: store
    using that [of AUTHENTICATION_GRANTS_KEY] that [of DEFAULT_BACKEND_AUTH_KEY]
    by (intro decisionFor_cong) (auto simp: grants_list_def backend_flags_def store_keys)
  have rules: "\<not> node_truthy (node_at t l a) \<Longrightarrow> entries_at t l a = []" for t
    by (cases "node_at t l a") (auto simp: entries_at_def truthy_def elim: node_truthy.elims)
  show ?thesis
  proof (cases "list_ex (\<lambda>(_, o1). node_truthy (map_of o1 a)) (stored_tree s)")
    case False
    then have "s' = s2" using 2(2) r unfolding f by (simp add: whenM_def ret_def)
    then have t: "stored_tree s' = stored_tree s" "mem s' = mem s1" using r r2 by auto
    have "\<not> node_truthy (node_at (stored_tree s) l a)"
    proof (cases "map_of (stored_tree s) l")
      case (Some o1)
      with False have "\<not> node_truthy (map_of o1 a)" by (auto simp: list_ex_iff dest: map_of_SomeD)
      with Some show ?thesis by (simp add: node_at_bound)
    qed (simp add: node_at_def)
    then show ?thesis using rules t none dec [of s' s1] port_get_mem [of s' s1] by auto
  next
    case True
    then have c: "commit (map_origins (\<lambda>_. clear_account a) (stored_tree s)) s2 = (Inr (), s')"
      using 2(2) r unfolding f by (simp add: whenM_def)
    have n: "node_at (stored_tree s') l b = (if b = a \<and> node_truthy (node_at (stored_tree s) l a) then None else node_at (stored_tree s) l b)" for b
      using commit_ok [OF c] node_at_map_origins [OF assms(2)] clear_account_node
      by (cases "map_of (stored_tree s) l") (auto simp: node_at_def)
    have "\<not> node_truthy (node_at (stored_tree s') l a)" by (simp add: n)
    with rules have "entries_at (stored_tree s') l a = []" by blast
    moreover have "b \<noteq> a \<Longrightarrow> entries_at (stored_tree s') l b = entries_at (stored_tree s) l b"
      by (simp add: entries_at_def n)
    moreover have "decisionFor registry a origin auth s' = None"
      using none dec [of s' s1] commit_ok [OF c] port_get_mem [of s2 s1] r2 by auto
    ultimately show ?thesis by simp
  qed
qed

subsection \<open>Properties\<close>

lemma check_spec:
  assumes "coherent s"
  shows "fst (check origin method kind a s) =
    (if pending s \<noteq> None \<and> bucket_of s a \<noteq> None then Inl MigrationIncomplete
     else Inr (resolve (rules_for s origin a) method kind))"
proof (cases "pending s \<noteq> None \<and> bucket_of s a = None")
  case True
  obtain s1 where "activeBucket a s = (Inr (bucket_of s a), s1)" "same_store s s1"
    using activeBucket_run [OF assms] .
  with True have "getForOrigin origin a s = (Inr (rules_for s origin a), s1)"
    by (simp add: getForOrigin_def andThen_Inr rules_for_def ret_apply)
  with True show ?thesis
    by (simp add: check_def andThen_Inr Let_def log_denial_def whenM_def resolve_def andThen_modifies ret_apply)
next
  case False
  then show ?thesis
    using check_run [OF assms, of origin "method" kind a] check_pending [OF assms, of a origin "method" kind]
    by (cases "pending s = None") simp_all
qed


text \<open>C26: A saved rule is read back: after a rule has been saved, every spelling of the same site reads
  exactly that decision under the key, for the account it was saved for, whatever the other
  layers hold, in the shared mode, in the per-account mode and under inheritance.\<close>

theorem saved_rule_is_read:
  assumes "coherent s" "wf_tree (stored_tree s)" "saveDirect origin key d a s = (Inr (), s')"
    "storageLabel origin' = storageLabel origin"
  shows "\<exists>b t. getForOrigin origin' a s' = (Inr b, t) \<and> map_of b key = Some d"
proof -
  obtain b where b: "bucket_of s a = Some b"
    "set_rule (storageLabel origin) b key d (stored_tree s) = Some (stored_tree s')"
    "pending s = None" "only_tree s s'"
    using write_rule_ok [OF assms(1)] saveDirect_ok [OF assms(1,3)] by blast
  note r = only_tree_reads [OF b(4)]
  have wf: "wf_tree (stored_tree s')" using wf_tree_set_rule [OF assms(2) b(2)] .
  have "map_of (entries_at (stored_tree s') (storageLabel origin') b) key = Some d"
    by (simp add: set_rule_entries [OF b(2)] assms(4))
  then have top: "map_of (originPermissionBucket (stored_tree s') origin' b) key = Some d"
    using wf by (intro originPermissionBucket_top)
  have "map_of (rules_for s' origin' a) key = Some d"
  proof (cases "inherits s")
    case True
    then have "b = a" using b(1) by (auto simp: bucket_of_def split: if_splits)
    with True r b(1) top show ?thesis by (simp add: rules_for_def map_of_effective)
  next
    case False
    with r b(1) top show ?thesis by (simp add: rules_for_def)
  qed
  moreover obtain t where "getForOrigin origin' a s' = (Inr (rules_for s' origin' a), t)"
    using getForOrigin_run [of s'] r b(3) by metis
  ultimately show ?thesis by blast
qed

definition example_store :: store where
  "example_store = open_store (MemoryStore
     [(PERMISSIONS_STORAGE_KEY, STree [(''a.example'', [(''_default'', Bucket [(''sendMessages'', Allow)])])])])"

lemma example_store_ok: "coherent example_store \<and> wf_tree (stored_tree example_store)"
proof -
  have "stored_tree example_store = [(''a.example'', [(''_default'', Bucket [(''sendMessages'', Allow)])])]"
    by code_simp
  then show ?thesis
    using coherent_open by (simp add: example_store_def wf_tree_def wf_rules_def wf_obj_def)
qed

theorem saved_rule_is_read_witness:
  "\<exists>b t. getForOrigin ''https://A.example:443'' ''alice''
      (snd (saveDirect ''https://a.example'' ''sendMessages'' Deny ''alice'' example_store)) = (Inr b, t)
    \<and> map_of b ''sendMessages'' = Some Deny"
proof -
  have s: "saveDirect ''https://a.example'' ''sendMessages'' Deny ''alice'' example_store =
      (Inr (), snd (saveDirect ''https://a.example'' ''sendMessages'' Deny ''alice'' example_store))"
    by code_simp
  have l: "storageLabel ''https://A.example:443'' = storageLabel ''https://a.example''" by code_simp
  show ?thesis using saved_rule_is_read [OF _ _ s l] example_store_ok by blast
qed

text \<open>A saved rule concerns one site: it changes nothing of what any account reads for a caller
  that does not have the saved label among its scopes, unless it was saved as a global rule.\<close>

theorem saved_rule_is_local:
  assumes "coherent s" "saveDirect origin key d a s = (Inr (), s')"
    "storageLabel origin \<notin> set (siteScopes origin2)" "storageLabel origin \<noteq> GLOBAL_RULES_SCOPE"
  shows "rules_for s' origin2 a2 = rules_for s origin2 a2"
proof -
  obtain b where b: "set_rule (storageLabel origin) b key d (stored_tree s) = Some (stored_tree s')" "only_tree s s'"
    using write_rule_ok [OF assms(1)] saveDirect_ok [OF assms(1,2)] by blast
  have "originPermissionBucket (stored_tree s') x c = originPermissionBucket (stored_tree s) x c"
    if "storageLabel origin \<notin> set (siteScopes x)" for x c
    using that by (intro originPermissionBucket_cong) (auto simp: set_rule_entries [OF b(1)])
  then show ?thesis
    using assms(3,4) only_tree_reads [OF b(2)]
    by (simp add: rules_for_def effectiveOriginPermissions_def siteScopes_global split: option.splits)
qed

theorem saved_rule_is_local_witness:
  "rules_for (snd (saveDirect ''https://b.example'' ''sendMessages'' Deny ''alice'' example_store)) ''https://a.example'' ''bob''
     = rules_for example_store ''https://a.example'' ''bob''"
proof -
  have s: "saveDirect ''https://b.example'' ''sendMessages'' Deny ''alice'' example_store =
      (Inr (), snd (saveDirect ''https://b.example'' ''sendMessages'' Deny ''alice'' example_store))"
    by code_simp
  have l: "storageLabel ''https://b.example'' \<notin> set (siteScopes ''https://a.example'')"
    "storageLabel ''https://b.example'' \<noteq> GLOBAL_RULES_SCOPE" by code_simp+
  show ?thesis using saved_rule_is_local [OF _ s l] example_store_ok by blast
qed

text \<open>An operation that fails without having written anything.\<close>

definition fails_clean :: "'a store_op \<Rightarrow> bool" where
  "fails_clean m \<longleftrightarrow> (\<forall>s e s'. m s = (Inl e, s') \<longrightarrow> mem s' = mem s)"

definition never_writes :: "'a store_op \<Rightarrow> bool" where
  "never_writes m \<longleftrightarrow> (\<forall>s r s'. m s = (r, s') \<longrightarrow> mem s' = mem s)"

lemma fails_clean_commit: "fails_clean (commit t)"
  using commit_failed by (auto simp: fails_clean_def)

lemma andThen_cases:
  assumes "andThen m f s = (r, s')"
  obtains e where "m s = (Inl e, s')" "r = Inl e"
  | a s1 where "m s = (Inr a, s1)" "f a s1 = (r, s')"
  using assms by (auto simp: andThen_def split: prod.splits sum.splits)

lemma fails_clean_andThen:
  assumes "never_writes m" "\<And>a. fails_clean (f a)" shows "fails_clean (andThen m f)"
  unfolding fails_clean_def
proof (intro allI impI)
  fix s e s' assume "andThen m f s = (Inl e, s')"
  then show "mem s' = mem s"
    using assms unfolding fails_clean_def never_writes_def by (cases rule: andThen_cases) metis+
qed

lemma never_writes_andThen:
  assumes "never_writes m" "\<And>a. never_writes (f a)" shows "never_writes (andThen m f)"
  unfolding never_writes_def
proof (intro allI impI)
  fix s r s' assume "andThen m f s = (r, s')"
  then show "mem s' = mem s"
    using assms unfolding never_writes_def by (cases rule: andThen_cases) metis+
qed

lemma never_writes_basic [simp]:
  "never_writes (ret x)" "never_writes (throw e)" "never_writes (reads f)" "never_writes (unlessE b e')"
  "never_writes (requireLabel v w)" "never_writes load" "never_writes draft" "never_writes getUseGlobalDefaults"
  by (auto simp: never_writes_def ret_def throw_def reads_def unlessE_def requireLabel_def load_def draft_def
      getUseGlobalDefaults_def split: option.splits)

lemma never_writes_fails_clean: "never_writes m \<Longrightarrow> fails_clean m"
  unfolding never_writes_def fails_clean_def by blast

lemma never_writes_buckets [simp]:
  "never_writes (activeBucket a)" "never_writes (writeBucket a)" "never_writes (assertRuleScope l b)"
  unfolding writeBucket_def activeBucket_def assertRuleScope_def
  by (intro never_writes_andThen; simp split: option.splits)+

lemma fails_clean_write_rule: "fails_clean (write_rule l k d a)"
  unfolding write_rule_def
  by (intro fails_clean_andThen) (auto simp: fails_clean_commit never_writes_fails_clean split: option.splits)

lemma fails_clean_saveDirect: "fails_clean (saveDirect origin key d a)"
  unfolding saveDirect_def by (intro fails_clean_andThen fails_clean_write_rule never_writes_basic)


text \<open>Disconnecting a site removes every rule it had: after all its rules are cleared, no bucket of
  any account answers anything for any spelling of the site, its bare hostname included, while
  the rules of labels that are not scopes of the site stay as they were.\<close>

theorem disconnect_clears_every_bucket:
  assumes "coherent s" "clearAllForOrigin origin s = (Inr (), s')" "storageLabel origin' = storageLabel origin"
  shows "originPermissionBucket (stored_tree s') origin' b = []
    \<and> (label \<in> set (siteScopes origin) \<or> entries_at (stored_tree s') label b = entries_at (stored_tree s) label b)"
proof -
  have t: "stored_tree s' = fold odel (siteScopes origin) (stored_tree s)"
    using clearAllForOrigin_ok [OF assms(1,2)] by blast
  have "siteScopes origin' = siteScopes origin" using siteScopes_cong [OF assms(3)] .
  then show ?thesis
    unfolding t by (auto simp: entries_at_fold_odel intro!: originPermissionBucket_empty)
qed

theorem disconnect_clears_every_bucket_witness:
  "originPermissionBucket (stored_tree (snd (clearAllForOrigin ''https://A.example'' example_store))) ''https://a.example'' ''_default'' = []
   \<and> originPermissionBucket (stored_tree example_store) ''https://a.example'' ''_default'' \<noteq> []"
proof -
  have s: "clearAllForOrigin ''https://A.example'' example_store = (Inr (), snd (clearAllForOrigin ''https://A.example'' example_store))"
    by code_simp
  have l: "storageLabel ''https://a.example'' = storageLabel ''https://A.example''" by code_simp
  have "originPermissionBucket (stored_tree example_store) ''https://a.example'' ''_default'' \<noteq> []" by code_simp
  with disconnect_clears_every_bucket [OF _ s l] example_store_ok show ?thesis by blast
qed

text \<open>C35: Deleting an account removes everything held under it: afterwards its bucket is empty under
  every label and no remembered consent answers a request of it, while every other bucket, the
  shared one included, reads as before.\<close>

theorem deleted_account_keeps_nothing:
  assumes "coherent s" "wf_tree (stored_tree s)" "clearForAccount a s = (Inr (), s')" "a \<noteq> DEFAULT_BUCKET"
  shows "originPermissionBucket (stored_tree s') origin a = []
    \<and> decisionFor registry a origin auth s' = None
    \<and> (b = a \<or> originPermissionBucket (stored_tree s') origin b = originPermissionBucket (stored_tree s) origin b)"
proof -
  note ok = clearForAccount_ok [OF assms, where registry = registry and origin = origin and auth = auth]
  have "originPermissionBucket (stored_tree s') origin a = []"
    using ok by (intro originPermissionBucket_empty) simp
  moreover have "originPermissionBucket (stored_tree s') origin b = originPermissionBucket (stored_tree s) origin b" if "b \<noteq> a"
    using ok that by (intro originPermissionBucket_cong) simp
  ultimately show ?thesis using ok by blast
qed

definition two_accounts :: store where
  "two_accounts = open_store (MemoryStore
     [(GLOBAL_DEFAULTS_KEY, SBool False),
      (PERMISSIONS_STORAGE_KEY, STree [(''https://a.example'',
         [(''alice'', Bucket [(''signEvent:1'', Allow)]), (''bob'', Bucket [(''signEvent:1'', Deny)])])])])"

lemma two_accounts_ok: "coherent two_accounts \<and> wf_tree (stored_tree two_accounts)"
proof -
  have "stored_tree two_accounts = [(''https://a.example'',
         [(''alice'', Bucket [(''signEvent:1'', Allow)]), (''bob'', Bucket [(''signEvent:1'', Deny)])])]"
    by code_simp
  then show ?thesis
    using coherent_open by (simp add: two_accounts_def wf_tree_def wf_rules_def wf_obj_def)
qed

theorem deleted_account_keeps_nothing_witness:
  "originPermissionBucket (stored_tree (snd (clearForAccount ''alice'' two_accounts))) ''https://a.example'' ''alice'' = []
   \<and> originPermissionBucket (stored_tree two_accounts) ''https://a.example'' ''alice'' \<noteq> []"
proof -
  have s: "clearForAccount ''alice'' two_accounts = (Inr (), snd (clearForAccount ''alice'' two_accounts))"
    by code_simp
  have "originPermissionBucket (stored_tree two_accounts) ''https://a.example'' ''alice'' \<noteq> []" by code_simp
  with deleted_account_keeps_nothing [OF _ _ s, of "''https://a.example''" "[]" login_request "''bob''"] two_accounts_ok
  show ?thesis by (simp add: DEFAULT_BUCKET_def)
qed

end
