(* ===== verification/Perm_Migrate.thy ===== *)
theory Perm_Migrate
  imports Perm_Rules
begin

section \<open>Migrations of the permission store\<close>

text \<open>
  What the migrations of \<open>Permissions\<close> promise: an interrupted migration is completed by
  repeating it, the format migrations never lose a refusal, and the consolidation into global
  rules neither loses a refusal nor grants what was not granted.
\<close>

subsection \<open>The journal\<close>

lemma store_set_run:
  assumes "store_set key v s = (r, s')"
  obtains e where "r = Inl e" "mem s' = mem s" "writes_left s = Some 0"
  | "r = Inr ()" "\<And>j. port_get j s' = (if j = key then Some v else port_get j s)"
      "writes_left s' = None \<longleftrightarrow> writes_left s = None"
  using assms
  by (cases key v s rule: port_set_cases)
    (auto simp: store_set_def andThen_def modifies_def on_change_def invalidateCache_def port_get_def mem.get_put
      split: if_splits)

lemma store_remove_run:
  assumes "store_remove key s = (r, s')"
  obtains e where "r = Inl e" "mem s' = mem s" "writes_left s = Some 0"
  | "r = Inr ()" "\<And>j. port_get j s' = (if j = key then None else port_get j s)"
  using assms
  by (cases "writes_left s")
    (auto simp: store_remove_def port_remove_def port_write_def andThen_def modifies_def on_change_def
      invalidateCache_def port_get_def mem.get_del split: if_splits nat.splits)

text \<open>What the store holds once the journal \<open>(t, g)\<close> has been worked off.\<close>

definition journal_get :: "tree \<Rightarrow> bool \<Rightarrow> (string \<Rightarrow> stored option) \<Rightarrow> string \<Rightarrow> stored option" where
  "journal_get t g f k =
     (if k = MIGRATION_PENDING_KEY then None
      else if k = PERMISSIONS_STORAGE_KEY then Some (STree t)
      else if k = GLOBAL_DEFAULTS_KEY then Some (SBool False)
      else if k = INHERITANCE_KEY then Some (SBool True)
      else if k = GLOBAL_RULES_VERSION_KEY \<and> g then Some (SNum 1)
      else f k)"

definition between :: "tree \<Rightarrow> bool \<Rightarrow> (string \<Rightarrow> stored option) \<Rightarrow> (string \<Rightarrow> stored option) \<Rightarrow> bool" where
  "between t g f h \<longleftrightarrow>
     (\<forall>k. h k = f k \<or> (k \<noteq> MIGRATION_PENDING_KEY \<and> h k = journal_get t g f k))"

lemma between_same: "between t g f f"
  by (simp add: between_def)

lemma journal_get_between:
  assumes "between t g f h" shows "journal_get t g h = journal_get t g f"
proof
  fix k
  show "journal_get t g h k = journal_get t g f k"
    using assms by (auto simp: between_def journal_get_def dest: spec [of _ k])
qed

lemma between_set:
  assumes "between t g f (\<lambda>k. port_get k s)" "\<And>j. port_get j s' = (if j = key then Some v else port_get j s)"
    "key \<noteq> MIGRATION_PENDING_KEY" "journal_get t g f key = Some v"
  shows "between t g f (\<lambda>k. port_get k s')"
  using assms by (auto simp: between_def)

text \<open>The body of \<open>finishMigration\<close>, from any state between the two.\<close>

lemma finish_body:
  assumes "(andThen (store_set PERMISSIONS_STORAGE_KEY (STree t)) (\<lambda>_.
              andThen (store_set GLOBAL_DEFAULTS_KEY (SBool False)) (\<lambda>_.
              andThen (store_set INHERITANCE_KEY (SBool True)) (\<lambda>_.
              andThen (whenM g (store_set GLOBAL_RULES_VERSION_KEY (SNum 1))) (\<lambda>_.
              store_remove MIGRATION_PENDING_KEY))))) s = (r, s')"
    and f: "f = (\<lambda>k. port_get k s)"
  shows "(case r of Inl _ \<Rightarrow> between t g f (\<lambda>k. port_get k s') \<and> writes_left s \<noteq> None
        | Inr _ \<Rightarrow> (\<lambda>k. port_get k s') = journal_get t g f)"
proof -
  obtain J where J: "J = journal_get t g f" by blast
  have jg: "J PERMISSIONS_STORAGE_KEY = Some (STree t)" "J GLOBAL_DEFAULTS_KEY = Some (SBool False)"
    "J INHERITANCE_KEY = Some (SBool True)" "g \<Longrightarrow> J GLOBAL_RULES_VERSION_KEY = Some (SNum 1)"
    by (simp_all add: J journal_get_def store_keys)
  have keys: "PERMISSIONS_STORAGE_KEY \<noteq> MIGRATION_PENDING_KEY" "GLOBAL_DEFAULTS_KEY \<noteq> MIGRATION_PENDING_KEY"
    "INHERITANCE_KEY \<noteq> MIGRATION_PENDING_KEY" "GLOBAL_RULES_VERSION_KEY \<noteq> MIGRATION_PENDING_KEY"
    by (simp_all add: store_keys)
  obtain b where b: "b = (\<lambda>s :: store. between t g f (\<lambda>k. port_get k s))" by blast
  have err: "b s'" if "b s1" "mem s' = mem s1" for s1 s'
    using that port_get_mem [of s' s1] by (simp add: b)
  have b0: "b s" by (simp add: b f between_same)
  show ?thesis
    using assms(1)
  proof (cases rule: andThen_cases)
    case (1 e)
    then show ?thesis using b0 err by (cases rule: store_set_run [OF 1(1)]) (auto simp: b)
  next
    case A: (2 a s1)
    from A(1) have s1: "\<And>j. port_get j s1 = (if j = PERMISSIONS_STORAGE_KEY then Some (STree t) else port_get j s)"
      "writes_left s1 = None \<longleftrightarrow> writes_left s = None"
      by (cases rule: store_set_run; simp)+
    have b1: "b s1" using between_set [OF b0 [unfolded b] s1(1) keys(1)] jg(1) by (simp add: b J)
    show ?thesis
      using A(2)
    proof (cases rule: andThen_cases)
      case (1 e)
      then show ?thesis using b1 s1(2) err by (cases rule: store_set_run [OF 1(1)]) (auto simp: b)
    next
      case B: (2 a s2)
      from B(1) have s2: "\<And>j. port_get j s2 = (if j = GLOBAL_DEFAULTS_KEY then Some (SBool False) else port_get j s1)"
        "writes_left s2 = None \<longleftrightarrow> writes_left s1 = None"
        by (cases rule: store_set_run; simp)+
      have b2: "b s2" using between_set [OF b1 [unfolded b] s2(1) keys(2)] jg(2) by (simp add: b J)
      show ?thesis
        using B(2)
      proof (cases rule: andThen_cases)
        case (1 e)
        then show ?thesis using b2 s1(2) s2(2) err by (cases rule: store_set_run [OF 1(1)]) (auto simp: b)
      next
        case C: (2 a s3)
        from C(1) have s3: "\<And>j. port_get j s3 = (if j = INHERITANCE_KEY then Some (SBool True) else port_get j s2)"
          "writes_left s3 = None \<longleftrightarrow> writes_left s2 = None"
          by (cases rule: store_set_run; simp)+
        have b3: "b s3" using between_set [OF b2 [unfolded b] s3(1) keys(3)] jg(3) by (simp add: b J)
        show ?thesis
          using C(2)
        proof (cases rule: andThen_cases)
          case (1 e)
          then have g and "store_set GLOBAL_RULES_VERSION_KEY (SNum 1) s3 = (Inl e, s')"
            by (auto simp: whenM_def ret_def split: if_splits)
          then show ?thesis using 1 b3 s1(2) s2(2) s3(2) err by (auto elim!: store_set_run simp: b)
        next
          case D: (2 a s4)
          have s4: "\<And>j. port_get j s4 = (if g \<and> j = GLOBAL_RULES_VERSION_KEY then Some (SNum 1) else port_get j s3)"
            "writes_left s4 = None \<longleftrightarrow> writes_left s3 = None"
            using D(1) by (auto simp: whenM_def ret_def split: if_splits elim: store_set_run)
          have b4: "b s4"
            using between_set [OF b3 [unfolded b] _ keys(4), of s4 "SNum 1"] jg(4) b3 s4(1)
            by (cases g) (auto simp: b J)
          have final: "(\<lambda>k. if k = MIGRATION_PENDING_KEY then None else port_get k s4) = J"
            by (rule ext) (simp add: J journal_get_def s4(1) s3(1) s2(1) s1(1) f)
          show ?thesis
            using D(2) b4 err s1(2) s2(2) s3(2) s4(2) final
            by (auto elim!: store_remove_run simp: b J)
        qed
      qed
    qed
  qed
qed

lemma finishMigration_run:
  assumes "pending s = Some (t, g)" "finishMigration s = (r, s')"
  shows "(case r of Inl _ \<Rightarrow> between t g (\<lambda>k. port_get k s) (\<lambda>k. port_get k s') \<and> writes_left s \<noteq> None
        | Inr _ \<Rightarrow> (\<lambda>k. port_get k s') = journal_get t g (\<lambda>k. port_get k s)) \<and> coherent s'"
proof -
  obtain u where u: "(andThen (store_set PERMISSIONS_STORAGE_KEY (STree t)) (\<lambda>_.
              andThen (store_set GLOBAL_DEFAULTS_KEY (SBool False)) (\<lambda>_.
              andThen (store_set INHERITANCE_KEY (SBool True)) (\<lambda>_.
              andThen (whenM g (store_set GLOBAL_RULES_VERSION_KEY (SNum 1))) (\<lambda>_.
              store_remove MIGRATION_PENDING_KEY))))) s = (r, u)" "s' = invalidateCache u"
    using assms by (auto simp: finishMigration_def andThen_reads finallyM_def split: prod.splits)
  have eq: "port_get k s' = port_get k u" for k by (simp add: u(2) port_get_def invalidateCache_def)
  have "coherent s'" by (simp add: u(2))
  then show ?thesis using finish_body [OF u(1) refl] by (simp only: eq simp_thms)
qed

lemma finishMigration_none: "pending s = None \<Longrightarrow> finishMigration s = (Inr (), s)"
  by (simp add: finishMigration_def andThen_reads ret_def)

lemma pending_get:
  assumes "port_get MIGRATION_PENDING_KEY t = port_get MIGRATION_PENDING_KEY s" shows "pending t = pending s"
  using assms by (simp add: pending_def)

text \<open>C28: A migration that is interrupted loses nothing and half-applies nothing: if the store refuses a
  write in the middle of applying the journal, the journal is still there, every permission check
  that would read the rules is refused, and applying it again, once the store accepts writes,
  ends in exactly the contents an uninterrupted run would have ended in.\<close>

theorem interrupted_migration_is_completed:
  assumes "pending s = Some (t, g)" "finishMigration s = (Inl e, s1)"
  shows "pending s1 = Some (t, g)
    \<and> (bucket_of s1 a = None \<or> fst (check origin method kind a s1) = Inl MigrationIncomplete)
    \<and> (\<exists>s2 s3. finishMigration (s1\<lparr>writes_left := None\<rparr>) = (Inr (), s2)
         \<and> finishMigration (s\<lparr>writes_left := None\<rparr>) = (Inr (), s3)
         \<and> (\<forall>k. port_get k s2 = port_get k s3) \<and> pending s2 = None)"
proof -
  have run: "between t g (\<lambda>k. port_get k s) (\<lambda>k. port_get k s1)" "coherent s1"
    using finishMigration_run [OF assms] by simp_all
  have p1: "pending s1 = Some (t, g)"
    using run(1) assms(1) by (auto simp: between_def intro: pending_get [THEN trans])
  have total: "\<exists>u'. finishMigration (u\<lparr>writes_left := None\<rparr>) = (Inr (), u')
      \<and> (\<lambda>k. port_get k u') = journal_get t g (\<lambda>k. port_get k u)" if "pending u = Some (t, g)" for u
  proof -
    obtain r u' where r: "finishMigration (u\<lparr>writes_left := None\<rparr>) = (r, u')" by fastforce
    moreover have "pending (u\<lparr>writes_left := None\<rparr>) = Some (t, g)"
      using that by (simp add: pending_def port_get_def)
    moreover have "port_get k (u\<lparr>writes_left := None\<rparr>) = port_get k u" for k by (simp add: port_get_def)
    ultimately show ?thesis using finishMigration_run [of "u\<lparr>writes_left := None\<rparr>" t g r u'] by (cases r) auto
  qed
  obtain s2 where s2: "finishMigration (s1\<lparr>writes_left := None\<rparr>) = (Inr (), s2)"
      "(\<lambda>k. port_get k s2) = journal_get t g (\<lambda>k. port_get k s1)"
    using total [OF p1] by blast
  obtain s3 where s3: "finishMigration (s\<lparr>writes_left := None\<rparr>) = (Inr (), s3)"
      "(\<lambda>k. port_get k s3) = journal_get t g (\<lambda>k. port_get k s)"
    using total [OF assms(1)] by blast
  have same: "\<forall>k. port_get k s2 = port_get k s3"
    using s2(2) s3(2) journal_get_between [OF run(1)] by metis
  have "port_get MIGRATION_PENDING_KEY s2 = None"
    using fun_cong [OF s2(2), of MIGRATION_PENDING_KEY] by (simp add: journal_get_def)
  then have "pending s2 = None" by (simp add: pending_def)
  moreover have "bucket_of s1 a = None \<or> fst (check origin method kind a s1) = Inl MigrationIncomplete"
    using check_pending [OF run(2)] p1 by blast
  ultimately show ?thesis using p1 same s2(1) s3(1) by blast
qed

definition interrupted :: store where
  "interrupted = (open_store (MemoryStore
     [(PERMISSIONS_STORAGE_KEY, STree [(''a.example'', [(''_default'', Bucket [(''sendMessages'', Allow)])])]),
      (MIGRATION_PENDING_KEY, SPending [(''a.example'', [(''_default'', Bucket [(''sendMessages'', Ask)])])] True)]))
     \<lparr>writes_left := Some 2\<rparr>"

theorem interrupted_migration_is_completed_witness:
  "\<exists>e s1. finishMigration interrupted = (Inl e, s1) \<and> pending s1 \<noteq> None
     \<and> fst (check ''a.example'' ''nip44Encrypt'' NoKind ''alice'' s1) = Inl MigrationIncomplete"
proof -
  have f: "finishMigration interrupted = (Inl StoreFailed, snd (finishMigration interrupted))" by code_simp
  have p: "pending interrupted = Some ([(''a.example'', [(''_default'', Bucket [(''sendMessages'', Ask)])])], True)"
    by code_simp
  have b: "bucket_of (snd (finishMigration interrupted)) ''alice'' \<noteq> None" by code_simp
  show ?thesis
    using interrupted_migration_is_completed [OF p f, of "''alice''" "''a.example''" "''nip44Encrypt''" NoKind] f b
    by (intro exI conjI) (rule f, auto)
qed

subsection \<open>Refusals in force\<close>

text \<open>
  A refusal of key \<open>k\<close> under label \<open>l\<close>: in the bucket \<open>b\<close>, or, for a site not yet bucketed, directly
  on the site, which the default bucket inherits.
\<close>

definition in_bucket :: "tree \<Rightarrow> string \<Rightarrow> string \<Rightarrow> string \<Rightarrow> bool" where
  "in_bucket t l b k \<longleftrightarrow> (\<exists>x. node_at t l b = Some (Bucket x) \<and> map_of x k = Some Deny)"

definition on_site :: "tree \<Rightarrow> string \<Rightarrow> string \<Rightarrow> string \<Rightarrow> bool" where
  "on_site t l b k \<longleftrightarrow>
     b = DEFAULT_BUCKET \<and> \<not> node_truthy (node_at t l DEFAULT_BUCKET) \<and> node_at t l k = Some (Rule Deny)"

definition refused :: "tree \<Rightarrow> string \<Rightarrow> string \<Rightarrow> string \<Rightarrow> bool" where
  "refused t l b k \<longleftrightarrow> in_bucket t l b k \<or> on_site t l b k"

text \<open>The key a rule is filed under after the direct-message kinds have been folded.\<close>

definition folded_key :: "string \<Rightarrow> string" where
  "folded_key k = (if k \<in> set DM_PERMISSION_KEYS then ''sendMessages'' else k)"

lemma map_of_filter_keep:
  "map_of xs k = Some v \<Longrightarrow> P (k, v) \<Longrightarrow> map_of (filter P xs) k = Some v"
  by (induction xs) auto

lemma map_of_filter_SomeD:
  "wf_obj xs \<Longrightarrow> map_of (filter P xs) k = Some v \<Longrightarrow> map_of xs k = Some v"
proof (induction xs)
  case (Cons p xs)
  have "map_of xs (fst p) = None" using Cons.prems(1) by (simp add: wf_obj_def map_of_eq_None_iff)
  moreover have "map_of (filter P xs) (fst p) = None"
    using Cons.prems(1) by (auto simp: wf_obj_def map_of_eq_None_iff)
  ultimately show ?case using Cons by (cases p) (auto simp: wf_obj_def split: if_splits)
qed simp

lemma map_of_per_kind:
  assumes "wf_obj o1" "map_of o1 b = Some (Bucket x)" "drop_blanket x \<noteq> []"
  shows "map_of (List.map_filter per_kind_node o1) b = Some (Bucket (drop_blanket x))"
proof -
  have names: "fst q = fst p" if "per_kind_node p = Some q" for p q
    using that by (cases p rule: per_kind_node.cases) (auto simp: Let_def split: if_splits)
  have "map_of (List.map_filter per_kind_node o1) b = (case map_of o1 b of None \<Rightarrow> None
      | Some n \<Rightarrow> map_option snd (per_kind_node (b, n)))" if "wf_obj o1" for o1
    using that
  proof (induction o1)
    case (Cons p o1)
    have none: "map_of (List.map_filter per_kind_node o1) (fst p) = None"
    proof -
      have "fst q \<noteq> fst p" if "q \<in> set (List.map_filter per_kind_node o1)" for q
        using that Cons.prems names by (force simp: List.map_filter_def wf_obj_def image_iff)
      then show ?thesis by (force simp: map_of_eq_None_iff)
    qed
    from Cons show ?case
      using none names by (cases p) (fastforce simp: wf_obj_def List.map_filter_simps split: option.splits)
  qed (simp add: List.map_filter_simps)
  with assms show ?thesis by (simp add: Let_def)
qed

lemma drop_blanket_deny: "map_of x k = Some Deny \<Longrightarrow> map_of (drop_blanket x) k = Some Deny"
  unfolding drop_blanket_def by (rule map_of_filter_keep) (auto simp: blanket_grant_def)

lemma node_at_mapped:
  assumes "wf_tree t" "node_at t l b = Some n"
  obtains o1 where "map_of t l = Some o1" "map_of o1 b = Some n" "wf_rules o1"
    "\<And>f o2. f l o1 = Some o2 \<Longrightarrow> node_at (map_origins f t) l c = map_of o2 c"
  using assms wf_tree_rules [OF assms(1)]
  by (auto simp: node_at_def bind_eq_Some_conv map_of_map_origins [OF assms(1)])

lemma refused_per_kind:
  assumes wf: "wf_tree t" and b: "b \<notin> set BLANKET_KEYS" and r: "refused t l b k"
  shows "refused (map_origins (\<lambda>_. per_kind_origin) t) l b k"
  using r [unfolded refused_def]
proof (elim disjE)
  assume "in_bucket t l b k"
  then obtain x where x: "node_at t l b = Some (Bucket x)" "map_of x k = Some Deny"
    by (auto simp: in_bucket_def)
  obtain o1 where o1: "map_of t l = Some o1" "map_of o1 b = Some (Bucket x)" "wf_rules o1"
    using node_at_mapped [OF wf x(1)] .
  have d: "map_of (drop_blanket x) k = Some Deny" using drop_blanket_deny x(2) .
  then have ne: "drop_blanket x \<noteq> []" by auto
  obtain o2 where o2: "o2 = (if node_truthy (map_of o1 DEFAULT_BUCKET) then List.map_filter per_kind_node o1
      else filter (\<lambda>kn. \<not> flat_grant kn) o1)" by blast
  have "\<exists>y. map_of o2 b = Some (Bucket y) \<and> map_of y k = Some Deny"
  proof (cases "node_truthy (map_of o1 DEFAULT_BUCKET)")
    case True
    with map_of_per_kind [OF _ o1(2) ne] o1(3) d show ?thesis by (simp add: o2 wf_rules_def)
  next
    case False
    with map_of_filter_keep [OF o1(2), of "\<lambda>kn. \<not> flat_grant kn"] b x(2) show ?thesis by (simp add: o2)
  qed
  moreover from this have "per_kind_origin o1 = Some o2" by (auto simp: per_kind_origin_def o2 [symmetric])
  ultimately have "in_bucket (map_origins (\<lambda>_. per_kind_origin) t) l b k"
    using o1(1) by (simp add: in_bucket_def node_at_map_origins [OF wf])
  then show ?thesis by (simp add: refused_def)
next
  assume os: "on_site t l b k"
  then have n: "node_at t l k = Some (Rule Deny)" by (simp add: on_site_def)
  obtain o1 where o1: "map_of t l = Some o1" "map_of o1 k = Some (Rule Deny)" "wf_rules o1"
    using node_at_mapped [OF wf n] .
  have nt: "\<not> node_truthy (map_of o1 DEFAULT_BUCKET)" using os o1(1) by (simp add: on_site_def node_at_bound)
  obtain o2 where o2: "o2 = filter (\<lambda>kn. \<not> flat_grant kn) o1" by blast
  have k: "map_of o2 k = Some (Rule Deny)"
    unfolding o2 using o1(2) by (rule map_of_filter_keep) (simp add: blanket_grant_def)
  then have "per_kind_origin o1 = Some o2" using nt by (auto simp: per_kind_origin_def o2 Let_def)
  moreover have "\<not> node_truthy (map_of o2 DEFAULT_BUCKET)"
    using nt o1(3) map_of_filter_SomeD [of o1 _ DEFAULT_BUCKET]
    by (cases "map_of o2 DEFAULT_BUCKET") (auto simp: o2 wf_rules_def)
  ultimately have "on_site (map_origins (\<lambda>_. per_kind_origin) t) l b k"
    using o1(1) k os by (simp add: on_site_def node_at_map_origins [OF wf])
  then show ?thesis by (simp add: refused_def)
qed

lemma flat_rules_deny: "map_of o1 k = Some (Rule Deny) \<Longrightarrow> map_of (List.map_filter flat_rule o1) k = Some Deny"
proof (induction o1)
  case (Cons p o1)
  then show ?case by (cases p rule: flat_rule.cases) (auto simp: List.map_filter_simps split: if_splits)
qed simp

lemma per_account_bucketed:
  assumes "refused t l b k" "wf_tree t"
  shows "in_bucket (map_origins (\<lambda>_ o1. Some (per_account_origin o1)) t) l b k"
  using assms(1) unfolding refused_def
proof (elim disjE)
  assume "in_bucket t l b k"
  then obtain x where x: "node_at t l b = Some (Bucket x)" "map_of x k = Some Deny"
    by (auto simp: in_bucket_def)
  obtain o1 where o1: "map_of t l = Some o1" "map_of o1 b = Some (Bucket x)"
    using node_at_mapped [OF assms(2) x(1)] .
  have "map_of (per_account_origin o1) b = Some (Bucket x)"
  proof (cases "needs_bucketing o1")
    case True
    then have "b \<noteq> DEFAULT_BUCKET" using o1(2) by (auto simp: needs_bucketing_def)
    with True show ?thesis
      using map_of_filter_keep [OF o1(2), of "\<lambda>(_, n). \<not> is_rule n"] by (simp add: per_account_origin_def)
  qed (simp add: per_account_origin_def o1(2))
  with o1(1) x(2) show ?thesis by (simp add: in_bucket_def node_at_map_origins [OF assms(2)])
next
  assume os: "on_site t l b k"
  then have n: "node_at t l k = Some (Rule Deny)" by (simp add: on_site_def)
  obtain o1 where o1: "map_of t l = Some o1" "map_of o1 k = Some (Rule Deny)"
    using node_at_mapped [OF assms(2) n] .
  have "list_ex (\<lambda>(_, n). is_rule n) o1"
    using o1(2) by (auto simp: list_ex_iff dest!: map_of_SomeD intro!: bexI)
  then have "needs_bucketing o1" using os o1(1) by (simp add: needs_bucketing_def on_site_def node_at_bound)
  with flat_rules_deny [OF o1(2)] os o1(1) show ?thesis
    by (simp add: in_bucket_def on_site_def per_account_origin_def node_at_map_origins [OF assms(2)])
qed

lemma map_of_map_buckets:
  "map_of (map_buckets f o1) b = map_option (\<lambda>n. case n of Bucket x \<Rightarrow> Bucket (f x) | Rule d \<Rightarrow> Rule d) (map_of o1 b)"
  by (induction o1) (auto simp: map_buckets_def)

lemma in_bucket_map_buckets:
  assumes "wf_tree t" "in_bucket t l b k" "\<And>x. map_of x k = Some Deny \<Longrightarrow> map_of (f x) k' = Some Deny"
  shows "in_bucket (map_origins (\<lambda>_ o1. Some (map_buckets f o1)) t) l b k'"
proof -
  obtain x where x: "node_at t l b = Some (Bucket x)" "map_of x k = Some Deny"
    using assms(2) by (auto simp: in_bucket_def)
  obtain o1 where o1: "map_of t l = Some o1" "map_of o1 b = Some (Bucket x)"
    using node_at_mapped [OF assms(1) x(1)] .
  with assms(3) [OF x(2)] show ?thesis
    by (simp add: in_bucket_def node_at_map_origins [OF assms(1)] map_of_map_buckets)
qed

lemma map_of_forward_to_ask:
  "map_of (forward_to_ask b) k = map_option (\<lambda>d. if d = RETIRED_FORWARD then Ask else d) (map_of b k)"
  by (induction b) (auto simp: forward_to_ask_def)

lemma forward_deny: "map_of x k = Some Deny \<Longrightarrow> map_of (forward_to_ask x) k = Some Deny"
  by (simp add: map_of_forward_to_ask RETIRED_FORWARD_def)

lemma rank_le: "rank d \<le> 3"
  by (cases d) (auto simp: rank_def)

lemma fold_dm_other: "k \<notin> set ks \<Longrightarrow> map_of (fst (snd (fold_dm ks c data ch))) k = map_of data k"
  by (induction ks arbitrary: c data ch) (auto split: option.splits)

lemma fold_dm_changed: "ch \<Longrightarrow> snd (snd (fold_dm ks c data ch))"
  by (induction ks arbitrary: c data ch) (auto split: option.splits)

lemma fold_dm_deny_stays: "fst (fold_dm ks (Some Deny) data ch) = Some Deny"
proof (induction ks arbitrary: data ch)
  case (Cons k ks)
  have "\<not> rank incoming > rank Deny" for incoming using rank_le [of incoming] by (simp add: rank_def)
  with Cons show ?case by (auto simp: truthy_def split: option.splits)
qed simp

lemma fold_dm_deny:
  "distinct ks \<Longrightarrow> k \<in> set ks \<Longrightarrow> map_of data k = Some Deny \<Longrightarrow>
     fst (fold_dm ks c data ch) = Some Deny \<and> snd (snd (fold_dm ks c data ch))"
proof (induction ks arbitrary: c data ch)
  case (Cons x ks)
  show ?case
  proof (cases "x = k")
    case True
    have "(case c of None \<Rightarrow> Some Deny | Some c \<Rightarrow> if \<not> truthy c \<or> rank Deny > rank c then Some Deny else Some c) = Some Deny"
    proof (cases c)
      case (Some e)
      then show ?thesis by (cases e) (auto simp: truthy_def rank_def)
    qed simp
    with True Cons.prems(3) fold_dm_deny_stays fold_dm_changed show ?thesis by (simp add: truthy_def)
  next
    case False
    with Cons show ?thesis by (auto split: option.splits)
  qed
qed simp

lemma DM_keys: "DM_PERMISSION_KEYS = [''signEvent:4'', ''signEvent:13'', ''signEvent:14'', ''signEvent:1059'']"
  by code_simp

lemma dm_keys_facts: "distinct DM_PERMISSION_KEYS" "''sendMessages'' \<notin> set DM_PERMISSION_KEYS"
  by (simp_all add: DM_keys)

lemma dm_bucket_deny:
  assumes "map_of x k = Some Deny" shows "map_of (fst (dm_bucket x)) (folded_key k) = Some Deny"
proof -
  obtain c data ch where r: "fold_dm DM_PERMISSION_KEYS (map_of x ''sendMessages'') x False = (c, data, ch)"
    by (cases "fold_dm DM_PERMISSION_KEYS (map_of x ''sendMessages'') x False") auto
  have other: "map_of data j = map_of x j" if "j \<notin> set DM_PERMISSION_KEYS" for j
    using fold_dm_other [OF that, of "map_of x ''sendMessages''" x False] by (simp add: r)
  show ?thesis
  proof (cases "k \<in> set DM_PERMISSION_KEYS")
    case True
    with fold_dm_deny [OF dm_keys_facts(1) True assms, of "map_of x ''sendMessages''" False] have "c = Some Deny"
      by (simp add: r)
    with True show ?thesis by (auto simp: dm_bucket_def r folded_key_def truthy_def)
  next
    case False
    show ?thesis
    proof (cases "k = ''sendMessages''")
      case True
      have "c = fst (fold_dm DM_PERMISSION_KEYS (map_of x ''sendMessages'') x False)" by (simp add: r)
      with True assms fold_dm_deny_stays [of DM_PERMISSION_KEYS x False] have "c = Some Deny" by simp
      with True False show ?thesis by (auto simp: dm_bucket_def r folded_key_def truthy_def)
    next
      case ns: False
      with False other [OF False] assms show ?thesis
        by (auto simp: dm_bucket_def r folded_key_def split: option.splits)
    qed
  qed
qed

lemma dm_bucket_unchanged:
  assumes "\<not> snd (dm_bucket x)" "map_of x k = Some Deny" shows "folded_key k = k"
proof (rule ccontr)
  assume "folded_key k \<noteq> k"
  then have "k \<in> set DM_PERMISSION_KEYS" by (simp add: folded_key_def split: if_splits)
  with fold_dm_deny [OF dm_keys_facts(1) this assms(2), of "map_of x ''sendMessages''" False] assms(1)
  show False by (auto simp: dm_bucket_def split: prod.splits option.splits if_splits)
qed

subsection \<open>The four format migrations in a row\<close>

lemma wf_obj_mapped:
  "wf_obj xs \<Longrightarrow> (\<And>p q. f p = Some q \<Longrightarrow> fst q = fst p) \<Longrightarrow> wf_obj (List.map_filter f xs)"
proof (induction xs)
  case (Cons p xs)
  have fresh: "fst p \<notin> fst ` set (List.map_filter f xs)"
  proof
    assume "fst p \<in> fst ` set (List.map_filter f xs)"
    then obtain x q where "x \<in> set xs" "f x = Some q" "fst q = fst p"
      by (auto simp: List.map_filter_def)
    moreover from this have "fst x = fst p" using Cons.prems(2) by metis
    ultimately have "fst p \<in> fst ` set xs" by (metis image_eqI)
    with Cons.prems(1) show False by (simp add: wf_obj_def)
  qed
  have wf: "wf_obj (List.map_filter f xs)" using Cons by (simp add: wf_obj_def)
  show ?case
  proof (cases "f p")
    case (Some q)
    with fresh wf Cons.prems(2) [OF Some] show ?thesis by (simp add: wf_obj_def List.map_filter_simps)
  qed (use wf in \<open>simp add: List.map_filter_simps\<close>)
qed (simp add: List.map_filter_simps)

lemma wf_map_origins:
  assumes "wf_tree t" "\<And>l o1 o2. wf_rules o1 \<Longrightarrow> f l o1 = Some o2 \<Longrightarrow> wf_rules o2"
  shows "wf_tree (map_origins f t)"
proof -
  have "wf_obj (map_origins f t)"
    unfolding map_origins_def using assms(1) by (intro wf_obj_mapped) (auto simp: wf_tree_def)
  moreover have "wf_rules o2" if "(l, o2) \<in> set (map_origins f t)" for l o2
    using that assms by (force simp: map_origins_def List.map_filter_def wf_tree_def)
  ultimately show ?thesis by (force simp: wf_tree_def)
qed

lemma wf_per_kind: "wf_rules o1 \<Longrightarrow> per_kind_origin o1 = Some o2 \<Longrightarrow> wf_rules o2"
proof -
  assume wf: "wf_rules o1" and o2: "per_kind_origin o1 = Some o2"
  have names: "fst q = fst p" "wf_node (snd p) \<Longrightarrow> wf_node (snd q)" if "per_kind_node p = Some q" for p q
    using that by (cases p rule: per_kind_node.cases; auto simp: Let_def drop_blanket_def wf_obj_filter split: if_splits)+
  show ?thesis
  proof (cases "node_truthy (map_of o1 DEFAULT_BUCKET)")
    case True
    then have "o2 = List.map_filter per_kind_node o1" using o2 by (auto simp: per_kind_origin_def Let_def split: if_splits)
    with wf names wf_obj_mapped [of o1 per_kind_node] show ?thesis
      by (force simp: wf_rules_def List.map_filter_def)
  next
    case False
    then have "o2 = filter (\<lambda>kn. \<not> flat_grant kn) o1" using o2 by (auto simp: per_kind_origin_def Let_def split: if_splits)
    with wf show ?thesis by (auto simp: wf_rules_def wf_obj_filter)
  qed
qed

lemma wf_per_account: "wf_rules o1 \<Longrightarrow> wf_rules (per_account_origin o1)"
proof -
  assume wf: "wf_rules o1"
  have "fst q = fst p" if "flat_rule p = Some q" for p q
    using that by (cases p rule: flat_rule.cases) auto
  then have "wf_obj (List.map_filter flat_rule o1)" using wf wf_obj_mapped [of o1 flat_rule] by (simp add: wf_rules_def)
  with wf show ?thesis
    by (auto simp: per_account_origin_def intro!: wf_rules_oset) (auto simp: wf_rules_def wf_obj_filter)
qed

lemma wf_map_buckets: "wf_rules o1 \<Longrightarrow> (\<And>b. wf_obj b \<Longrightarrow> wf_obj (f b)) \<Longrightarrow> wf_rules (map_buckets f o1)"
proof -
  assume wf: "wf_rules o1" and f: "\<And>b. wf_obj b \<Longrightarrow> wf_obj (f b)"
  have "okeys (map_buckets f o1) = okeys o1" by (induction o1) (auto simp: map_buckets_def)
  moreover have "wf_node (case n of Bucket b \<Rightarrow> Bucket (f b) | Rule d \<Rightarrow> Rule d)" if "wf_node n" for n
    using f that by (cases n) auto
  then have "\<forall>n \<in> set (map snd (map_buckets f o1)). wf_node n"
    using wf by (auto simp: wf_rules_def map_buckets_def)
  ultimately show ?thesis using wf by (simp add: wf_rules_def wf_obj_def)
qed

lemma wf_forward_to_ask: "wf_obj b \<Longrightarrow> wf_obj (forward_to_ask b)"
proof -
  have "okeys (forward_to_ask b) = okeys b" by (induction b) (auto simp: forward_to_ask_def)
  then show "wf_obj b \<Longrightarrow> wf_obj (forward_to_ask b)" by (simp add: wf_obj_def)
qed

text \<open>One migration: the tree is rewritten, or left alone when nothing calls for a change.\<close>

definition migrated :: "(tree \<Rightarrow> bool) \<Rightarrow> (tree \<Rightarrow> tree) \<Rightarrow> store \<Rightarrow> store \<Rightarrow> bool" where
  "migrated needed f s s' \<longleftrightarrow>
     coherent s' \<and> port_get MIGRATION_VERSION_KEY s' = port_get MIGRATION_VERSION_KEY s
     \<and> stored_tree s' = (if needed (stored_tree s) then f (stored_tree s) else stored_tree s)"

lemma migration_run:
  assumes "coherent s" "andThen draft (\<lambda>t. whenM (needed t) (commit (f t))) s = (Inr (), s')"
  shows "migrated needed f s s'"
proof -
  obtain s1 where 1: "pending s = None" "same_store s s1"
      "whenM (needed (stored_tree s)) (commit (f (stored_tree s))) s1 = (Inr (), s')"
    using draft_run [OF assms] .
  note r = same_store_reads [OF 1(2)]
  show ?thesis
  proof (cases "needed (stored_tree s)")
    case True
    with 1(3) have "commit (f (stored_tree s)) s1 = (Inr (), s')" by (simp add: whenM_def)
    from commit_ok [OF this] True r port_get_mem [of s1 s] show ?thesis
      by (auto simp: migrated_def store_keys)
  next
    case False
    with 1(3) have "s' = s1" by (simp add: whenM_def ret_def)
    with False r port_get_mem [of s1 s] show ?thesis by (simp add: migrated_def)
  qed
qed

lemma not_some_bucket:
  assumes "\<not> some_bucket P t" "node_at t l b = Some (Bucket x)" shows "\<not> P x"
proof -
  obtain o1 where "(l, o1) \<in> set t" "(b, Bucket x) \<in> set o1"
    using assms(2) by (auto simp: node_at_def bind_eq_Some_conv dest!: map_of_SomeD)
  with assms(1) show ?thesis by (force simp: some_bucket_def list_ex_iff)
qed

lemma migrate_refused:
  assumes "coherent s" "wf_tree (stored_tree s)" "migrate s = (Inr (), s')"
    "port_get MIGRATION_VERSION_KEY s \<noteq> Some (SNum MIGRATION_VERSION)"
    "refused (stored_tree s) l b k" "b \<notin> set BLANKET_KEYS"
  shows "in_bucket (stored_tree s') l b (folded_key k)"
proof -
  have "andThen migrateToPerKind (\<lambda>_. andThen migrateToPerAccount (\<lambda>_. andThen migrateForwardToAsk (\<lambda>_.
      andThen migrateDmKindsToSendMessages (\<lambda>_. store_set MIGRATION_VERSION_KEY (SNum MIGRATION_VERSION))))) s = (Inr (), s')"
    using assms(3,4) by (simp add: migrate_def andThen_reads)
  then obtain s1 s2 s3 s4 where run: "migrateToPerKind s = (Inr (), s1)" "migrateToPerAccount s1 = (Inr (), s2)"
    "migrateForwardToAsk s2 = (Inr (), s3)" "migrateDmKindsToSendMessages s3 = (Inr (), s4)"
    "store_set MIGRATION_VERSION_KEY (SNum MIGRATION_VERSION) s4 = (Inr (), s')"
    by (elim andThen_InrE) auto
  note m1 = migration_run [OF assms(1) run(1) [unfolded migrateToPerKind_def]]
  have c1: "coherent s1" using m1 by (simp add: migrated_def)
  note m2 = migration_run [OF c1 run(2) [unfolded migrateToPerAccount_def]]
  have c2: "coherent s2" using m2 by (simp add: migrated_def)
  note m3 = migration_run [OF c2 run(3) [unfolded migrateForwardToAsk_def]]
  have c3: "coherent s3" using m3 by (simp add: migrated_def)
  note m4 = migration_run [OF c3 run(4) [unfolded migrateDmKindsToSendMessages_def]]
  have w1: "wf_tree (stored_tree s1)"
    using m1 assms(2) wf_map_origins [of "stored_tree s" "\<lambda>_. per_kind_origin"] wf_per_kind by (auto simp: migrated_def)
  have w2: "wf_tree (stored_tree s2)"
    using m2 w1 wf_map_origins [of "stored_tree s1" "\<lambda>_ o1. Some (per_account_origin o1)"] wf_per_account
    by (auto simp: migrated_def)
  have w3: "wf_tree (stored_tree s3)"
    using m3 w2 wf_map_origins [of "stored_tree s2" "\<lambda>_ o1. Some (map_buckets forward_to_ask o1)"]
      wf_map_buckets [of _ forward_to_ask] wf_forward_to_ask
    by (auto simp: migrated_def)
  have r1: "refused (stored_tree s1) l b k"
    using m1 assms(5) refused_per_kind [OF assms(2,6,5)] by (simp add: migrated_def)
  have r2: "in_bucket (stored_tree s2) l b k"
  proof (cases "list_ex (\<lambda>(_, o1). needs_bucketing o1) (stored_tree s1)")
    case True
    with m2 per_account_bucketed [OF r1 w1] show ?thesis by (simp add: migrated_def)
  next
    case False
    have "\<not> on_site (stored_tree s1) l b k"
    proof
      assume os: "on_site (stored_tree s1) l b k"
      then have n: "node_at (stored_tree s1) l k = Some (Rule Deny)" by (simp add: on_site_def)
      obtain o1 where o1: "map_of (stored_tree s1) l = Some o1" "map_of o1 k = Some (Rule Deny)"
        using node_at_mapped [OF w1 n] .
      have "list_ex (\<lambda>(_, n). is_rule n) o1"
        using o1(2) by (auto simp: list_ex_iff dest!: map_of_SomeD intro!: bexI)
      then have "needs_bucketing o1" using os o1(1) by (simp add: needs_bucketing_def on_site_def node_at_bound)
      with False o1(1) show False by (auto simp: list_ex_iff dest: map_of_SomeD)
    qed
    with r1 False m2 show ?thesis by (simp add: migrated_def refused_def)
  qed
  have r3: "in_bucket (stored_tree s3) l b k"
    using m3 r2 in_bucket_map_buckets [OF w2 r2 forward_deny] by (simp add: migrated_def)
  have r4: "in_bucket (stored_tree s4) l b (folded_key k)"
  proof (cases "some_bucket (\<lambda>b. snd (dm_bucket b)) (stored_tree s3)")
    case True
    with m4 in_bucket_map_buckets [OF w3 r3, of "fst \<circ> dm_bucket"] dm_bucket_deny show ?thesis by (simp add: migrated_def)
  next
    case False
    obtain x where x: "node_at (stored_tree s3) l b = Some (Bucket x)" "map_of x k = Some Deny"
      using r3 by (auto simp: in_bucket_def)
    have "folded_key k = k" using not_some_bucket [OF False x(1)] dm_bucket_unchanged x(2) by blast
    with False m4 r3 show ?thesis by (simp add: migrated_def)
  qed
  have "stored_tree s' = stored_tree s4"
    using run(5) by (cases rule: store_set_run) (auto simp: stored_tree_def store_keys)
  with r4 show ?thesis by simp
qed

text \<open>C27: Upgrading a store never loses a refusal: every decision to deny stored by an older version, in
  a bucket or, in the oldest format, directly on the site, is still stored as a denial when all
  format migrations have run, in the same bucket (the shared one for the oldest format) and under
  the same key, or under the shared key for messages when its own key was retired.\<close>

theorem migration_keeps_refusals:
  assumes "coherent s" "wf_tree (stored_tree s)" "migrate s = (Inr (), s')"
    "port_get MIGRATION_VERSION_KEY s \<noteq> Some (SNum MIGRATION_VERSION)"
    "refused (stored_tree s) l b k" "b \<notin> set BLANKET_KEYS"
  shows "in_bucket (stored_tree s') l b (folded_key k)"
  using migrate_refused [OF assms] .

definition old_store :: store where
  "old_store = open_store (MemoryStore
     [(PERMISSIONS_STORAGE_KEY, STree
        [(''a.example'', [(''signEvent:4'', Rule Deny), (''sendMessages'', Rule Allow)]),
         (''b.example'', [(''_default'', Bucket [(''signEvent'', Deny), (''nip04Encrypt'', Allow)])])])])"

theorem migration_keeps_refusals_witness:
  "in_bucket (stored_tree (snd (migrate old_store))) ''a.example'' ''_default'' ''sendMessages''"
proof -
  have t: "stored_tree old_store = [(''a.example'', [(''signEvent:4'', Rule Deny), (''sendMessages'', Rule Allow)]),
         (''b.example'', [(''_default'', Bucket [(''signEvent'', Deny), (''nip04Encrypt'', Allow)])])]"
    by code_simp
  have m: "migrate old_store = (Inr (), snd (migrate old_store))" by code_simp
  have v: "port_get MIGRATION_VERSION_KEY old_store \<noteq> Some (SNum MIGRATION_VERSION)" by code_simp
  have c: "coherent old_store" using coherent_open by (simp add: old_store_def)
  have w: "wf_tree (stored_tree old_store)" by (simp add: t wf_tree_def wf_rules_def wf_obj_def)
  have r: "refused (stored_tree old_store) ''a.example'' ''_default'' ''signEvent:4''"
    by (simp add: t refused_def on_site_def node_at_def DEFAULT_BUCKET_def)
  have b: "''_default'' \<notin> set BLANKET_KEYS" by (simp add: BLANKET_KEYS_def)
  from migration_keeps_refusals [OF c w m v r b] show ?thesis by (simp add: folded_key_def DM_keys)
qed

definition account_only_store :: store where
  "account_only_store = open_store (MemoryStore
     [(GLOBAL_DEFAULTS_KEY, SBool False),
      (PERMISSIONS_STORAGE_KEY, STree
        [(''https://a.example'', [(''alice'', Bucket [(''signEvent'', Allow)])]),
         (''https://b.example'', [(''_default'', Bucket []), (''alice'', Bucket [(''signEvent'', Allow)])])])])"

text \<open>The migration that drops blanket grants does not look into the buckets of a site that has only
  per-account rules: such a site has no shared bucket, is taken for a site of the oldest format,
  and keeps an account's blanket allowance.\<close>

theorem blanket_grant_survives_migration:
  "fst (migrate account_only_store) = Inr ()
   \<and> fst (check ''https://a.example'' ''signEvent'' (Kind 1) ''alice'' (snd (migrate account_only_store))) = Inr Allow
   \<and> fst (check ''https://b.example'' ''signEvent'' (Kind 1) ''alice'' (snd (migrate account_only_store))) = Inr Ask"
  by code_simp

end
