(* ===== verification/Bounded_Map.thy ===== *)
theory Bounded_Map
  imports Prelude
begin

section \<open>Bounded containers\<close>

text \<open>
  \<^verbatim>\<open>packages/sdk/src/relay/hub/bounded-map.ts\<close>: the one cache primitive of the relay hub
  (\<open>BoundedMap\<close>) and the set of recent ids (\<open>BoundedSet\<close>). A \<open>Map\<close> and a \<open>Set\<close> are lists in
  insertion order. The options of the constructor are fields of the state; the clock is an
  argument of the operations that read it; the calls of \<open>onEvict\<close> are recorded in order. Stored
  values are never \<open>undefined\<close>. The contract both containers share, they never grow past their
  bound, is the locale \<open>bounded_container\<close>.
\<close>

subsection \<open>BoundedMap\<close>

datatype EvictReason = Capacity | Bytes | Expired | Trim | Deleted | Cleared

record 'v entry =
  e_value :: 'v
  e_bytes :: int
  expiresAt :: "int option"

record ('k, 'v) bounded_map =
  bm_map :: "('k, 'v entry) obj"
  totalBytes :: int
  lru :: bool
  maxEntries :: nat
  maxBytes :: "int option"
  sizeOf :: "('v \<Rightarrow> 'k \<Rightarrow> int) option"
  ttlMs :: "int option"
  evicted :: "('k \<times> 'v \<times> EvictReason) list"

text \<open>The constructor; \<open>None\<close> where it throws. \<open>cap\<close> is the option, rounded down.\<close>

definition BoundedMap ::
  "int \<Rightarrow> bool \<Rightarrow> int option \<Rightarrow> ('v \<Rightarrow> 'k \<Rightarrow> int) option \<Rightarrow> int option \<Rightarrow> ('k, 'v) bounded_map option" where
  "BoundedMap cap policy_lru bytes weigh ttl =
     (if \<not> cap \<ge> 1 then None
      else Some \<lparr>bm_map = [], totalBytes = 0, lru = policy_lru, maxEntries = nat cap, maxBytes = bytes,
        sizeOf = weigh, ttlMs = ttl, evicted = []\<rparr>)"

definition bm_size :: "('k, 'v) bounded_map \<Rightarrow> nat" where
  "bm_size m = length (bm_map m)"

definition bm_remove :: "'k \<Rightarrow> 'v entry \<Rightarrow> EvictReason \<Rightarrow> bool \<Rightarrow> ('k, 'v) bounded_map \<Rightarrow> ('k, 'v) bounded_map" where
  "bm_remove key entry reason notify m =
     m\<lparr>bm_map := odel key (bm_map m), totalBytes := totalBytes m - e_bytes entry,
       evicted := (if notify then evicted m @ [(key, e_value entry, reason)] else evicted m)\<rparr>"

definition expired_at :: "int \<Rightarrow> 'v entry \<Rightarrow> bool" where
  "expired_at now entry \<longleftrightarrow> (case expiresAt entry of None \<Rightarrow> False | Some t \<Rightarrow> t \<le> now)"

definition peek :: "int \<Rightarrow> 'k \<Rightarrow> ('k, 'v) bounded_map \<Rightarrow> 'v option \<times> ('k, 'v) bounded_map" where
  "peek now key m =
     (case map_of (bm_map m) key of
        None \<Rightarrow> (None, m)
      | Some entry \<Rightarrow>
          if expired_at now entry then (None, bm_remove key entry Expired True m)
          else (Some (e_value entry), m))"

definition bm_has :: "int \<Rightarrow> 'k \<Rightarrow> ('k, 'v) bounded_map \<Rightarrow> bool \<times> ('k, 'v) bounded_map" where
  "bm_has now key m = (case peek now key m of (v, m') \<Rightarrow> (v \<noteq> None, m'))"

definition bm_get :: "int \<Rightarrow> 'k \<Rightarrow> ('k, 'v) bounded_map \<Rightarrow> 'v option \<times> ('k, 'v) bounded_map" where
  "bm_get now key m =
     (case peek now key m of
        (None, m') \<Rightarrow> (None, m')
      | (Some v, m') \<Rightarrow>
          (Some v,
           if lru m' then
             (case map_of (bm_map m') key of
                None \<Rightarrow> m'
              | Some entry \<Rightarrow> m'\<lparr>bm_map := oset key entry (odel key (bm_map m'))\<rparr>)
           else m'))"

text \<open>A loop that removes the oldest entry while a condition on the size and the bytes holds.\<close>

fun evict_while :: "(nat \<Rightarrow> int \<Rightarrow> bool) \<Rightarrow> EvictReason \<Rightarrow> ('k, 'v entry) obj \<Rightarrow> int
    \<Rightarrow> ('k \<times> 'v \<times> EvictReason) list \<Rightarrow> ('k, 'v entry) obj \<times> int \<times> ('k \<times> 'v \<times> EvictReason) list" where
  "evict_while c r [] tot events = ([], tot, events)"
| "evict_while c r ((k, e) # xs) tot events =
     (if c (Suc (length xs)) tot
      then evict_while c r xs (tot - e_bytes e) (events @ [(k, e_value e, r)])
      else ((k, e) # xs, tot, events))"

definition bm_evict :: "(nat \<Rightarrow> int \<Rightarrow> bool) \<Rightarrow> EvictReason \<Rightarrow> ('k, 'v) bounded_map \<Rightarrow> ('k, 'v) bounded_map" where
  "bm_evict c r m =
     (case evict_while c r (bm_map m) (totalBytes m) (evicted m) of
        (xs, t, ev) \<Rightarrow> m\<lparr>bm_map := xs, totalBytes := t, evicted := ev\<rparr>)"

definition bm_enforce :: "('k, 'v) bounded_map \<Rightarrow> ('k, 'v) bounded_map" where
  "bm_enforce m =
     (let m1 = bm_evict (\<lambda>n _. n > maxEntries m) Capacity m
      in case maxBytes m1 of
           None \<Rightarrow> m1
         | Some b \<Rightarrow> bm_evict (\<lambda>n t. t > b \<and> n > 1) Bytes m1)"

definition bm_set :: "int \<Rightarrow> 'k \<Rightarrow> 'v \<Rightarrow> int option \<Rightarrow> ('k, 'v) bounded_map \<Rightarrow> ('k, 'v) bounded_map" where
  "bm_set now key v ttl m =
     (let m1 = (case map_of (bm_map m) key of None \<Rightarrow> m | Some old \<Rightarrow> bm_remove key old Deleted False m);
          bytes = (case sizeOf m of None \<Rightarrow> 0 | Some f \<Rightarrow> f v key);
          life = (case ttl of Some t \<Rightarrow> Some t | None \<Rightarrow> ttlMs m);
          entry = \<lparr>e_value = v, e_bytes = bytes, expiresAt = map_option (\<lambda>t. now + t) life\<rparr>
      in bm_enforce (m1\<lparr>bm_map := oset key entry (bm_map m1), totalBytes := totalBytes m1 + bytes\<rparr>))"

definition bm_delete :: "'k \<Rightarrow> ('k, 'v) bounded_map \<Rightarrow> bool \<times> ('k, 'v) bounded_map" where
  "bm_delete key m =
     (case map_of (bm_map m) key of
        None \<Rightarrow> (False, m)
      | Some entry \<Rightarrow> (True, bm_remove key entry Deleted True m))"

definition bm_clear :: "('k, 'v) bounded_map \<Rightarrow> ('k, 'v) bounded_map" where
  "bm_clear m = fold (\<lambda>(key, entry). bm_remove key entry Cleared True) (bm_map m) m"

definition sweep :: "int \<Rightarrow> ('k, 'v) bounded_map \<Rightarrow> nat \<times> ('k, 'v) bounded_map" where
  "sweep now m =
     fold (\<lambda>(key, entry) (dropped, m1).
         if expired_at now entry then (Suc dropped, bm_remove key entry Expired True m1) else (dropped, m1))
       (bm_map m) (0, m)"

definition trimTo :: "int \<Rightarrow> ('k, 'v) bounded_map \<Rightarrow> nat \<times> ('k, 'v) bounded_map" where
  "trimTo n m =
     (let m' = bm_evict (\<lambda>size _. size > nat (max 0 n)) Trim m in (bm_size m - bm_size m', m'))"

definition bm_keys :: "('k, 'v) bounded_map \<Rightarrow> 'k list" where
  "bm_keys m = okeys (bm_map m)"

subsection \<open>BoundedSet\<close>

record 'a bounded_set =
  bs_set :: "'a list"
  bs_max :: nat

definition BoundedSet :: "int \<Rightarrow> 'a bounded_set option" where
  "BoundedSet cap = (if \<not> cap \<ge> 1 then None else Some \<lparr>bs_set = [], bs_max = nat cap\<rparr>)"

definition bs_has :: "'a \<Rightarrow> 'a bounded_set \<Rightarrow> bool" where
  "bs_has v s \<longleftrightarrow> v \<in> set (bs_set s)"

fun drop_over :: "nat \<Rightarrow> 'a list \<Rightarrow> 'a list" where
  "drop_over n [] = []"
| "drop_over n (x # xs) = (if Suc (length xs) > n then drop_over n xs else x # xs)"

definition bs_add :: "'a \<Rightarrow> 'a bounded_set \<Rightarrow> bool \<times> 'a bounded_set" where
  "bs_add v s =
     (if v \<in> set (bs_set s) then (False, s)
      else (True, s\<lparr>bs_set := drop_over (bs_max s) (bs_set s @ [v])\<rparr>))"

definition bs_delete :: "'a \<Rightarrow> 'a bounded_set \<Rightarrow> bool \<times> 'a bounded_set" where
  "bs_delete v s = (v \<in> set (bs_set s), s\<lparr>bs_set := filter (\<lambda>x. x \<noteq> v) (bs_set s)\<rparr>)"

definition bs_clear :: "'a bounded_set \<Rightarrow> 'a bounded_set" where
  "bs_clear s = s\<lparr>bs_set := []\<rparr>"

subsection \<open>The contract\<close>

text \<open>
  A container with a bound it never passes, in which what is inserted is found. The number of
  further insertions an element is sure to survive is its slack: whatever is inserted costs at
  most one.
\<close>

locale bounded_container =
  fixes inv :: "'s \<Rightarrow> bool"
    and card_of :: "'s \<Rightarrow> nat"
    and bound :: "'s \<Rightarrow> nat"
    and put :: "'x \<Rightarrow> 's \<Rightarrow> 's"
    and slack :: "'k \<Rightarrow> 's \<Rightarrow> nat"
    and key :: "'x \<Rightarrow> 'k"
  assumes inv_put: "inv s \<Longrightarrow> inv (put x s)"
    and card_bound: "inv s \<Longrightarrow> card_of s \<le> bound s"
    and bound_put: "bound (put x s) = bound s"
    and slack_new: "inv s \<Longrightarrow> slack (key x) s = 0 \<Longrightarrow> slack (key x) (put x s) = bound s"
    and slack_other: "inv s \<Longrightarrow> k \<noteq> key x \<Longrightarrow> slack k s \<le> Suc (slack k (put x s))"
begin

lemma puts_inv: "inv s \<Longrightarrow> inv (fold put xs s) \<and> bound (fold put xs s) = bound s"
  by (induction xs arbitrary: s) (auto simp: inv_put bound_put)

lemma puts_bounded: "inv s \<Longrightarrow> card_of (fold put xs s) \<le> bound s"
  using puts_inv [of s xs] card_bound [of "fold put xs s"] by simp

lemma puts_slack: "inv s \<Longrightarrow> k \<notin> key ` set xs \<Longrightarrow> slack k s \<le> length xs + slack k (fold put xs s)"
proof (induction xs arbitrary: s)
  case (Cons x xs)
  then have "slack k (put x s) \<le> length xs + slack k (fold put xs (put x s))" by (simp add: inv_put)
  with slack_other [of s k x] Cons.prems show ?case by auto
qed simp

lemma recent_survives:
  "inv s \<Longrightarrow> k \<notin> key ` set xs \<Longrightarrow> length xs < slack k s \<Longrightarrow> 0 < slack k (fold put xs s)"
  using puts_slack [of s k xs] by linarith

lemma new_survives:
  "inv s \<Longrightarrow> slack (key x) s = 0 \<Longrightarrow> key x \<notin> key ` set xs \<Longrightarrow> length xs < bound s \<Longrightarrow>
     0 < slack (key x) (fold put xs (put x s))"
  by (rule recent_survives) (simp_all add: inv_put slack_new)

end

subsection \<open>Loops that drop the oldest\<close>

lemma evict_while_suffix:
  "evict_while c r xs t ev = (ys, u, ev') \<Longrightarrow>
     \<exists>zs. xs = zs @ ys \<and> u = t - sum_list (map (\<lambda>p. e_bytes (snd p)) zs) \<and> ev' = ev @ map (\<lambda>(k, e). (k, e_value e, r)) zs
       \<and> (ys = [] \<or> \<not> c (length ys) u)"
proof (induction xs arbitrary: t ev)
  case (Cons p xs)
  obtain k e where p: "p = (k, e)" by (cases p)
  show ?case
  proof (cases "c (Suc (length xs)) t")
    case True
    with Cons.prems p have "evict_while c r xs (t - e_bytes e) (ev @ [(k, e_value e, r)]) = (ys, u, ev')" by simp
    from Cons.IH [OF this] obtain zs where "xs = zs @ ys" "u = t - e_bytes e - sum_list (map (\<lambda>p. e_bytes (snd p)) zs)"
      "ev' = (ev @ [(k, e_value e, r)]) @ map (\<lambda>(k, e). (k, e_value e, r)) zs" "ys = [] \<or> \<not> c (length ys) u" by blast
    then show ?thesis by (intro exI [of _ "p # zs"]) (auto simp: p)
  next
    case False
    with Cons.prems p show ?thesis by (intro exI [of _ "[]"]) auto
  qed
qed auto

lemma evict_while_capacity:
  "fst (evict_while (\<lambda>n _. n > m) r xs t ev) = drop (length xs - m) xs"
proof (induction xs arbitrary: t ev)
  case (Cons p xs)
  then show ?case by (cases p) (auto simp: Suc_diff_le)
qed simp

lemma drop_over_drop: "drop_over n xs = drop (length xs - n) xs"
  by (induction xs) (auto simp: Suc_diff_le)

subsection \<open>Both containers keep the contract\<close>

text \<open>How many entries follow a key, and what is left of the bound.\<close>

definition after_key :: "'k \<Rightarrow> 'k list \<Rightarrow> nat" where
  "after_key k ks = length (takeWhile (\<lambda>j. j \<noteq> k) (rev ks))"

definition slack_in :: "nat \<Rightarrow> 'k \<Rightarrow> 'k list \<Rightarrow> nat" where
  "slack_in n k ks = (if k \<in> set ks then n - after_key k ks else 0)"

lemma slack_in_pos: "0 < slack_in n k ks \<Longrightarrow> k \<in> set ks"
  by (auto simp: slack_in_def split: if_splits)

lemma after_key_last [simp]: "after_key k (ks @ [k]) = 0"
  by (simp add: after_key_def)

lemma after_key_append [simp]: "j \<noteq> k \<Longrightarrow> after_key k (ks @ [j]) = Suc (after_key k ks)"
  by (simp add: after_key_def)

lemma after_key_filter: "j \<noteq> k \<Longrightarrow> after_key k (filter (\<lambda>x. x \<noteq> j) ks) \<le> after_key k ks"
proof -
  assume j: "j \<noteq> k"
  have "length (takeWhile (\<lambda>x. x \<noteq> k) (filter (\<lambda>x. x \<noteq> j) ls)) \<le> length (takeWhile (\<lambda>x. x \<noteq> k) ls)" for ls
    using j by (induction ls) auto
  then show ?thesis by (simp add: after_key_def rev_filter)
qed

lemma after_key_drop:
  assumes "distinct ks" "k \<in> set ks"
  shows "after_key k (drop n ks) = after_key k ks \<or> k \<notin> set (drop n ks)"
proof (cases "k \<in> set (drop n ks)")
  case True
  have "rev ks = rev (drop n ks) @ rev (take n ks)" by (metis append_take_drop_id rev_append)
  with True show ?thesis by (simp add: after_key_def takeWhile_append1)
qed simp

lemma after_key_index:
  "distinct ks \<Longrightarrow> i < length ks \<Longrightarrow> after_key (ks ! i) ks = length ks - Suc i"
proof (induction ks rule: rev_induct)
  case (snoc x ks)
  show ?case
  proof (cases "i = length ks")
    case False
    then have "i < length ks" using snoc.prems(2) by simp
    moreover from this have "x \<noteq> ks ! i" using snoc.prems(1) nth_mem [of i ks] by auto
    ultimately show ?thesis using snoc by (simp add: nth_append Suc_diff_le)
  qed simp
qed simp

lemma slack_in_trim_append:
  assumes "distinct ks" "j \<noteq> k" "j \<notin> set ks"
  shows "slack_in n k ks \<le> Suc (slack_in n k (drop (Suc (length ks) - n) (ks @ [j])))"
proof (cases "k \<in> set ks")
  case True
  let ?d = "Suc (length ks) - n"
  obtain i where i: "i < length ks" "k = ks ! i" using True by (auto simp: in_set_conv_nth)
  have a: "after_key k ks = length ks - Suc i" using after_key_index [OF assms(1) i(1)] i(2) by simp
  show ?thesis
  proof (cases "?d \<le> i")
    case True
    have dis: "distinct (ks @ [j])" using assms by simp
    have "i - ?d < length (drop ?d ks)" "drop ?d ks ! (i - ?d) = k" using True i by auto
    then have "k \<in> set (drop ?d ks)" by (metis nth_mem)
    moreover have "set (drop ?d ks) \<subseteq> set (drop ?d (ks @ [j]))" by auto
    ultimately have "k \<in> set (drop ?d (ks @ [j]))" by blast
    with after_key_drop [OF dis, of k ?d] have "after_key k (drop ?d (ks @ [j])) = Suc (after_key k ks)"
      using assms(2) i by auto
    moreover have "n - after_key k ks \<le> Suc (n - Suc (after_key k ks))" by arith
    ultimately show ?thesis using \<open>k \<in> set (drop ?d (ks @ [j]))\<close> by (simp only: slack_in_def) simp
  next
    case False
    with a have "n - after_key k ks \<le> 1" by linarith
    then show ?thesis by (simp add: slack_in_def)
  qed
qed (simp add: slack_in_def)

subsection \<open>The invariant of BoundedMap\<close>

definition sizes :: "('k, 'v entry) obj \<Rightarrow> int" where
  "sizes xs = sum_list (map (\<lambda>p. e_bytes (snd p)) xs)"

definition bm_inv :: "('k, 'v) bounded_map \<Rightarrow> bool" where
  "bm_inv m \<longleftrightarrow>
     wf_obj (bm_map m) \<and> 0 < maxEntries m \<and> length (bm_map m) \<le> maxEntries m
     \<and> totalBytes m = sizes (bm_map m)
     \<and> (\<forall>e \<in> snd ` set (bm_map m). 0 \<le> e_bytes e)
     \<and> (\<forall>b. maxBytes m = Some b \<longrightarrow> totalBytes m \<le> b \<or> length (bm_map m) \<le> 1)
     \<and> (\<forall>f v k. sizeOf m = Some f \<longrightarrow> 0 \<le> f v k)"

text \<open>All but the two bounds, which \<open>set\<close> restores before it returns.\<close>

definition bm_pre :: "('k, 'v) bounded_map \<Rightarrow> bool" where
  "bm_pre m \<longleftrightarrow>
     wf_obj (bm_map m) \<and> 0 < maxEntries m \<and> totalBytes m = sizes (bm_map m)
     \<and> (\<forall>e \<in> snd ` set (bm_map m). 0 \<le> e_bytes e)
     \<and> (\<forall>f v k. sizeOf m = Some f \<longrightarrow> 0 \<le> f v k)"

lemma bm_inv_pre: "bm_inv m \<Longrightarrow> bm_pre m"
  by (simp add: bm_inv_def bm_pre_def)

lemma sizes_append [simp]: "sizes (xs @ ys) = sizes xs + sizes ys"
  by (simp add: sizes_def)

lemma sizes_Nil [simp]: "sizes [] = 0" "sizes (p # xs) = e_bytes (snd p) + sizes xs"
  by (simp_all add: sizes_def)

lemma sizes_nonneg: "\<forall>e \<in> snd ` set xs. 0 \<le> e_bytes e \<Longrightarrow> 0 \<le> sizes xs"
  by (induction xs) auto

lemma odel_absent: "map_of xs k = None \<Longrightarrow> odel k xs = xs"
  by (simp add: AList.delete_eq filter_id_conv map_of_eq_None_iff) force

lemma oset_absent: "map_of xs k = None \<Longrightarrow> oset k v xs = xs @ [(k, v)]"
  by (induction xs) (auto split: if_splits)

lemma okeys_odel: "okeys (odel k xs) = filter (\<lambda>x. x \<noteq> k) (okeys xs)"
  by (induction xs) (auto simp: AList.delete_eq)

lemma sizes_odel: "wf_obj xs \<Longrightarrow> map_of xs k = Some e \<Longrightarrow> sizes (odel k xs) = sizes xs - e_bytes e"
proof (induction xs)
  case (Cons p xs)
  then show ?case
    by (cases p) (auto simp: wf_obj_def odel_absent map_of_eq_None_iff split: if_splits)
qed simp

lemma length_odel: "length (odel k xs) \<le> length xs"
  by (simp add: length_delete_le)

lemma set_odel: "set (odel k xs) \<subseteq> set xs"
  by (auto simp: AList.delete_eq)

lemma bm_pre_remove:
  assumes "bm_pre m" "map_of (bm_map m) k = Some e"
  shows "bm_pre (bm_remove k e r b m)"
  using assms set_odel [of k "bm_map m"] by (auto simp: bm_pre_def bm_remove_def sizes_odel)

lemma bm_inv_remove:
  assumes "bm_inv m" "map_of (bm_map m) k = Some e"
  shows "bm_inv (bm_remove k e r b m)"
proof -
  have p: "bm_pre (bm_remove k e r b m)" by (rule bm_pre_remove [OF bm_inv_pre [OF assms(1)] assms(2)])
  have "0 \<le> e_bytes e" using assms by (force simp: bm_inv_def dest!: map_of_SomeD)
  with p assms length_odel [of k "bm_map m"] show ?thesis
    by (fastforce simp: bm_pre_def bm_inv_def bm_remove_def)
qed

lemma bm_evict_run:
  obtains zs ys where "bm_map m = zs @ ys" "bm_map (bm_evict c r m) = ys"
    "totalBytes (bm_evict c r m) = totalBytes m - sizes zs"
    "ys = [] \<or> \<not> c (length ys) (totalBytes (bm_evict c r m))"
    "maxEntries (bm_evict c r m) = maxEntries m" "maxBytes (bm_evict c r m) = maxBytes m"
    "sizeOf (bm_evict c r m) = sizeOf m" "ttlMs (bm_evict c r m) = ttlMs m" "lru (bm_evict c r m) = lru m"
proof -
  obtain ys u ev where e: "evict_while c r (bm_map m) (totalBytes m) (evicted m) = (ys, u, ev)"
    by (cases "evict_while c r (bm_map m) (totalBytes m) (evicted m)") auto
  obtain zs where "bm_map m = zs @ ys" "u = totalBytes m - sizes zs" "ys = [] \<or> \<not> c (length ys) u"
    using evict_while_suffix [OF e] by (auto simp: sizes_def)
  with e that show ?thesis by (simp add: bm_evict_def)
qed

lemma bm_pre_evict: "bm_pre m \<Longrightarrow> bm_pre (bm_evict c r m)"
  by (rule bm_evict_run [of m c r]) (auto simp: bm_pre_def wf_obj_def)

lemma bm_enforce_inv:
  assumes "bm_pre m" shows "bm_inv (bm_enforce m)"
proof -
  let ?m1 = "bm_evict (\<lambda>n _. n > maxEntries m) Capacity m"
  have p1: "bm_pre ?m1" using bm_pre_evict assms by blast
  have l1: "length (bm_map ?m1) \<le> maxEntries ?m1"
    by (rule bm_evict_run [of m "\<lambda>n _. n > maxEntries m" Capacity]) auto
  show ?thesis
  proof (cases "maxBytes ?m1")
    case None
    with p1 l1 show ?thesis by (simp add: bm_enforce_def Let_def bm_inv_def bm_pre_def)
  next
    case (Some b)
    let ?c = "\<lambda>n t. t > b \<and> n > (1 :: nat)"
    have p2: "bm_pre (bm_evict ?c Bytes ?m1)" using bm_pre_evict p1 by blast
    show ?thesis
      by (rule bm_evict_run [of ?m1 ?c Bytes])
        (use p2 l1 Some in \<open>auto simp: bm_enforce_def Let_def bm_inv_def bm_pre_def\<close>)
  qed
qed

lemma bm_set_inv: "bm_inv m \<Longrightarrow> bm_inv (bm_set now k v ttl m)"
proof -
  assume inv: "bm_inv m"
  obtain m1 where m1: "m1 = (case map_of (bm_map m) k of None \<Rightarrow> m | Some old \<Rightarrow> bm_remove k old Deleted False m)"
    by blast
  have p: "bm_pre m1" "map_of (bm_map m1) k = None" "sizeOf m1 = sizeOf m"
    using bm_inv_pre [OF inv] bm_pre_remove [of m k] by (auto simp: m1 split: option.splits) (auto simp: bm_remove_def)
  have "0 \<le> (case sizeOf m of None \<Rightarrow> 0 | Some f \<Rightarrow> f v k)"
    using inv by (auto simp: bm_inv_def split: option.splits)
  with p show ?thesis unfolding bm_set_def Let_def m1 [symmetric]
    by (intro bm_enforce_inv) (auto simp: bm_pre_def oset_absent wf_obj_def map_of_eq_None_iff)
qed

lemma okeys_oset_absent: "map_of xs k = None \<Longrightarrow> okeys (oset k v xs) = okeys xs @ [k]"
  by (simp add: oset_absent)

lemma filter_absent: "j \<notin> set ks \<Longrightarrow> filter (\<lambda>x. x \<noteq> j) ks = ks"
  by (simp add: filter_id_conv) blast

lemma okeys_bm_set:
  fixes m :: "('k, 'v) bounded_map"
  assumes "maxBytes m = None"
  shows "okeys (bm_map (bm_set now k v ttl m)) =
     drop (Suc (length (filter (\<lambda>x. x \<noteq> k) (okeys (bm_map m)))) - maxEntries m) (filter (\<lambda>x. x \<noteq> k) (okeys (bm_map m)) @ [k])"
    "maxEntries (bm_set now k v ttl m) = maxEntries m" "maxBytes (bm_set now k v ttl m) = None"
    "lru (bm_set now k v ttl m) = lru m"
proof -
  obtain m1 where m1: "m1 = (case map_of (bm_map m) k of None \<Rightarrow> m | Some old \<Rightarrow> bm_remove k old Deleted False m)"
    by blast
  have k1: "okeys (bm_map m1) = filter (\<lambda>x. x \<noteq> k) (okeys (bm_map m)) \<and> map_of (bm_map m1) k = None
      \<and> maxEntries m1 = maxEntries m \<and> maxBytes m1 = None \<and> lru m1 = lru m"
  proof (cases "map_of (bm_map m) k")
    case None
    then have "k \<notin> set (okeys (bm_map m))" by (simp add: map_of_eq_None_iff)
    with None assms show ?thesis by (simp add: m1 filter_absent)
  next
    case (Some old)
    with assms show ?thesis by (simp add: m1 bm_remove_def okeys_odel del: set_map map_map)
  qed
  have e: "bm_map (bm_enforce m2) = drop (length (bm_map m2) - maxEntries m2) (bm_map m2)
      \<and> maxEntries (bm_enforce m2) = maxEntries m2 \<and> maxBytes (bm_enforce m2) = None \<and> lru (bm_enforce m2) = lru m2"
    if "maxBytes m2 = None" for m2 :: "('k, 'v) bounded_map"
    using that evict_while_capacity [of "maxEntries m2" Capacity "bm_map m2" "totalBytes m2" "evicted m2"]
    by (auto simp: bm_enforce_def bm_evict_def Let_def split: prod.splits)
  let ?e = "\<lparr>e_value = v, e_bytes = (case sizeOf m of None \<Rightarrow> 0 | Some f \<Rightarrow> f v k),
      expiresAt = map_option (\<lambda>t. now + t) (case ttl of Some t \<Rightarrow> Some t | None \<Rightarrow> ttlMs m)\<rparr>"
  obtain m2 where m2: "m2 = m1\<lparr>bm_map := oset k ?e (bm_map m1), totalBytes := totalBytes m1 + e_bytes ?e\<rparr>" by blast
  have s: "bm_set now k v ttl m = bm_enforce m2"
    by (simp add: bm_set_def Let_def m1 m2)
  have k2: "okeys (bm_map m2) = filter (\<lambda>x. x \<noteq> k) (okeys (bm_map m)) @ [k]" "maxEntries m2 = maxEntries m"
    "maxBytes m2 = None" "lru m2 = lru m"
    using k1 by (simp_all add: m2 oset_absent)
  have l: "length (bm_map m2) = Suc (length (filter (\<lambda>x. x \<noteq> k) (okeys (bm_map m))))"
    using arg_cong [OF k2(1), of length] by simp
  show "okeys (bm_map (bm_set now k v ttl m)) =
     drop (Suc (length (filter (\<lambda>x. x \<noteq> k) (okeys (bm_map m)))) - maxEntries m) (filter (\<lambda>x. x \<noteq> k) (okeys (bm_map m)) @ [k])"
    using e [OF k2(3)] unfolding s by (simp only: l k2(2) drop_map [symmetric] k2(1) simp_thms)
  show "maxEntries (bm_set now k v ttl m) = maxEntries m" "maxBytes (bm_set now k v ttl m) = None"
    "lru (bm_set now k v ttl m) = lru m"
    using e [OF k2(3)] k2 by (simp_all add: s)
qed

lemma slack_in_filter:
  assumes "j \<noteq> k" shows "slack_in n k ks \<le> slack_in n k (filter (\<lambda>x. x \<noteq> j) ks)"
  using after_key_filter [OF assms, of ks] assms by (auto simp: slack_in_def)

lemma slack_in_add:
  assumes "distinct ks" "j \<noteq> k"
  shows "slack_in n k ks \<le> Suc (slack_in n k (drop (Suc (length (filter (\<lambda>x. x \<noteq> j) ks)) - n) (filter (\<lambda>x. x \<noteq> j) ks @ [j])))"
proof -
  have "slack_in n k (filter (\<lambda>x. x \<noteq> j) ks) \<le>
      Suc (slack_in n k (drop (Suc (length (filter (\<lambda>x. x \<noteq> j) ks)) - n) (filter (\<lambda>x. x \<noteq> j) ks @ [j])))"
    using assms by (intro slack_in_trim_append) auto
  with slack_in_filter [OF assms(2), of n ks] show ?thesis by linarith
qed

lemma slack_in_last: "0 < n \<Longrightarrow> slack_in n k (drop (Suc (length ks) - n) (ks @ [k])) = n"
proof -
  assume n: "0 < n"
  then have "drop (Suc (length ks) - n) (ks @ [k]) = drop (Suc (length ks) - n) ks @ [k]" by simp
  then show ?thesis by (simp only: slack_in_def after_key_last) simp
qed

interpretation recent: bounded_container "\<lambda>m. bm_inv m \<and> maxBytes m = None" bm_size maxEntries
  "\<lambda>(now, k, v, ttl). bm_set now k v ttl" "\<lambda>k m. slack_in (maxEntries m) k (okeys (bm_map m))"
  "\<lambda>(now, k, v, ttl). k"
proof (unfold_locales, goal_cases)
  case (1 m x)
  then show ?case by (cases x) (auto simp: bm_set_inv okeys_bm_set)
next
  case (2 m)
  then show ?case by (simp add: bm_inv_def bm_size_def)
next
  case (3 x m)
  then show ?case
    by (cases x) (simp add: bm_set_def bm_enforce_def bm_evict_def bm_remove_def Let_def split: option.splits prod.splits)
next
  case (4 m x)
  obtain now k v ttl where x: "x = (now, k, v, ttl)" by (cases x)
  have "0 < maxEntries m" using 4 by (simp add: bm_inv_def)
  from slack_in_last [OF this, of k "filter (\<lambda>x. x \<noteq> k) (okeys (bm_map m))"] 4 show ?case
    by (simp only: x prod.case okeys_bm_set)
next
  case (5 m k x)
  obtain now j v ttl where x: "x = (now, j, v, ttl)" by (cases x)
  have "distinct (okeys (bm_map m))" "j \<noteq> k" using 5 by (auto simp: bm_inv_def wf_obj_def x)
  from slack_in_add [OF this, of "maxEntries m"] 5 show ?case
    by (simp only: x prod.case okeys_bm_set)
qed

definition bs_inv :: "'a bounded_set \<Rightarrow> bool" where
  "bs_inv s \<longleftrightarrow> distinct (bs_set s) \<and> 0 < bs_max s \<and> length (bs_set s) \<le> bs_max s"

interpretation recent_ids: bounded_container bs_inv "\<lambda>s. length (bs_set s)" bs_max
  "\<lambda>v s. snd (bs_add v s)" "\<lambda>v s. slack_in (bs_max s) v (bs_set s)" "\<lambda>v. v"
proof (unfold_locales, goal_cases)
  case (1 s x)
  then show ?case by (auto simp: bs_inv_def bs_add_def drop_over_drop dest: in_set_dropD)
next
  case (2 s)
  then show ?case by (simp add: bs_inv_def)
next
  case (3 x s)
  then show ?case by (simp add: bs_add_def)
next
  case (4 s x)
  have "x \<notin> set (bs_set s)"
  proof
    assume "x \<in> set (bs_set s)"
    then obtain i where "i < length (bs_set s)" "x = bs_set s ! i" by (auto simp: in_set_conv_nth)
    with 4 after_key_index [of "bs_set s" i] show False by (simp add: slack_in_def bs_inv_def)
  qed
  with 4 slack_in_last [of "bs_max s" x "bs_set s"] show ?case
    by (simp add: bs_add_def bs_inv_def drop_over_drop del: drop_append)
next
  case (5 s k x)
  show ?case
  proof (cases "x \<in> set (bs_set s)")
    case False
    with 5 slack_in_trim_append [of "bs_set s" x k "bs_max s"] show ?thesis
      by (simp add: bs_add_def bs_inv_def drop_over_drop del: drop_append)
  qed (simp add: bs_add_def)
qed


subsection \<open>Any use of the cache\<close>

datatype ('k, 'v) cache_op =
    Peek int 'k | Get int 'k | Set int 'k 'v "int option" | Delete 'k | Clear | Sweep int | TrimTo int

fun cache_step :: "('k, 'v) cache_op \<Rightarrow> ('k, 'v) bounded_map \<Rightarrow> ('k, 'v) bounded_map" where
  "cache_step (Peek now k) m = snd (peek now k m)"
| "cache_step (Get now k) m = snd (bm_get now k m)"
| "cache_step (Set now k v ttl) m = bm_set now k v ttl m"
| "cache_step (Delete k) m = snd (bm_delete k m)"
| "cache_step Clear m = bm_clear m"
| "cache_step (Sweep now) m = snd (sweep now m)"
| "cache_step (TrimTo n) m = snd (trimTo n m)"

lemma peek_inv: "bm_inv m \<Longrightarrow> bm_inv (snd (peek now k m))"
  by (auto simp: peek_def bm_inv_remove split: option.splits)

lemma sizes_oset_odel:
  assumes "wf_obj xs" "map_of xs k = Some e"
  shows "sizes (oset k e (odel k xs)) = sizes xs"
  using assms by (simp add: oset_absent sizes_odel)

lemma length_oset_odel:
  assumes "wf_obj xs" "map_of xs k = Some e"
  shows "length (oset k e (odel k xs)) = length xs"
  using assms
proof (induction xs)
  case (Cons p xs)
  then show ?case by (cases p) (auto simp: wf_obj_def oset_absent odel_absent map_of_eq_None_iff split: if_splits)
qed simp

lemma bm_get_inv:
  assumes "bm_inv m" shows "bm_inv (snd (bm_get now k m))"
proof -
  obtain v m' where p: "peek now k m = (v, m')" by (cases "peek now k m")
  have inv: "bm_inv m'" using peek_inv [OF assms, of now k] p by simp
  show ?thesis
  proof (cases "v = None \<or> \<not> lru m' \<or> map_of (bm_map m') k = None")
    case True
    with p inv show ?thesis by (auto simp: bm_get_def split: option.splits)
  next
    case False
    then obtain e where e: "map_of (bm_map m') k = Some e" "v \<noteq> None" "lru m'" by auto
    have w: "wf_obj (bm_map m')" using inv by (simp add: bm_inv_def)
    have "\<forall>x \<in> snd ` set (oset k e (odel k (bm_map m'))). 0 \<le> e_bytes x"
      using inv map_of_SomeD [OF e(1)] set_odel [of k "bm_map m'"] by (force simp: bm_inv_def oset_absent)
    with p e inv w show ?thesis
      by (auto simp: bm_get_def bm_inv_def sizes_oset_odel length_oset_odel simp del: length_map)
  qed
qed

text \<open>A loop over a snapshot of the entries, each removed at most once.\<close>

lemma bm_inv_remove_present:
  assumes "bm_inv m" "(k, e) \<in> set (bm_map m)"
  shows "bm_inv (bm_remove k e r b m)"
  using assms by (intro bm_inv_remove) (auto simp: bm_inv_def wf_obj_def)

lemma remove_keeps_others: "x \<in> set (bm_map m) \<Longrightarrow> fst x \<noteq> k \<Longrightarrow> x \<in> set (bm_map (bm_remove k e r b m))"
  by (auto simp: bm_remove_def AList.delete_eq)

lemma clear_loop_inv:
  "bm_inv m \<Longrightarrow> distinct (map fst xs) \<Longrightarrow> set xs \<subseteq> set (bm_map m) \<Longrightarrow>
     bm_inv (fold (\<lambda>(key, entry). bm_remove key entry r True) xs m)"
proof (induction xs arbitrary: m)
  case (Cons p xs)
  obtain k e where p: "p = (k, e)" by (cases p)
  have "set xs \<subseteq> set (bm_map (bm_remove k e r True m))"
    using Cons.prems p by (auto intro!: remove_keeps_others simp: rev_image_eqI)
  with Cons p show ?case by (simp add: bm_inv_remove_present)
qed simp

lemma sweep_loop_inv:
  "bm_inv m \<Longrightarrow> distinct (map fst xs) \<Longrightarrow> set xs \<subseteq> set (bm_map m) \<Longrightarrow>
     bm_inv (snd (fold (\<lambda>(key, entry) (dropped, m1).
         if expired_at now entry then (Suc dropped, bm_remove key entry Expired True m1) else (dropped, m1)) xs (n, m)))"
proof (induction xs arbitrary: m n)
  case (Cons p xs)
  obtain k e where p: "p = (k, e)" by (cases p)
  have "set xs \<subseteq> set (bm_map (bm_remove k e Expired True m))"
    using Cons.prems p by (auto intro!: remove_keeps_others simp: rev_image_eqI)
  with Cons p show ?case by (auto simp: bm_inv_remove_present)
qed simp

lemma bm_evict_inv:
  assumes "bm_inv m" shows "bm_inv (bm_evict c r m)"
proof (rule bm_evict_run [of m c r])
  fix zs ys
  assume e: "bm_map m = zs @ ys" "bm_map (bm_evict c r m) = ys" "totalBytes (bm_evict c r m) = totalBytes m - sizes zs"
    "maxEntries (bm_evict c r m) = maxEntries m" "maxBytes (bm_evict c r m) = maxBytes m"
  have "0 \<le> sizes zs" using assms e(1) by (intro sizes_nonneg) (auto simp: bm_inv_def)
  with assms e bm_pre_evict [OF bm_inv_pre [OF assms], of c r] show ?thesis
    by (fastforce simp: bm_inv_def bm_pre_def)
qed

lemma bm_clear_inv: "bm_inv m \<Longrightarrow> bm_inv (bm_clear m)"
  unfolding bm_clear_def by (rule clear_loop_inv) (auto simp: bm_inv_def wf_obj_def)

lemma sweep_inv: "bm_inv m \<Longrightarrow> bm_inv (snd (sweep now m))"
  unfolding sweep_def by (rule sweep_loop_inv) (auto simp: bm_inv_def wf_obj_def)

lemma cache_step_inv: "bm_inv m \<Longrightarrow> bm_inv (cache_step x m)"
  by (cases x)
    (auto simp: peek_inv bm_get_inv bm_set_inv bm_clear_inv sweep_inv bm_delete_def bm_inv_remove trimTo_def Let_def
      bm_evict_inv split: option.splits)

lemma cache_run_inv: "bm_inv m \<Longrightarrow> bm_inv (fold cache_step ops m)"
  by (induction ops arbitrary: m) (simp_all add: cache_step_inv)

lemma cache_step_options:
  "maxEntries (cache_step x m) = maxEntries m \<and> maxBytes (cache_step x m) = maxBytes m"
proof -
  have r: "maxEntries (bm_remove k e r b m) = maxEntries m \<and> maxBytes (bm_remove k e r b m) = maxBytes m" for k e r b and m :: "('a, 'b) bounded_map"
    by (simp add: bm_remove_def)
  have v: "maxEntries (bm_evict c r m) = maxEntries m \<and> maxBytes (bm_evict c r m) = maxBytes m" for c r and m :: "('a, 'b) bounded_map"
    by (rule bm_evict_run [of m c r]) simp
  have cl: "maxEntries (fold (\<lambda>(key, entry). bm_remove key entry r True) xs m) = maxEntries m
      \<and> maxBytes (fold (\<lambda>(key, entry). bm_remove key entry r True) xs m) = maxBytes m" for r xs and m :: "('a, 'b) bounded_map"
    by (induction xs arbitrary: m) (auto simp: r)
  have sw: "maxEntries (snd (fold (\<lambda>(key, entry) (dropped, m1).
         if expired_at now entry then (Suc dropped, bm_remove key entry Expired True m1) else (dropped, m1)) xs (n, m))) = maxEntries m
      \<and> maxBytes (snd (fold (\<lambda>(key, entry) (dropped, m1).
         if expired_at now entry then (Suc dropped, bm_remove key entry Expired True m1) else (dropped, m1)) xs (n, m))) = maxBytes m"
    for now xs n and m :: "('a, 'b) bounded_map"
    by (induction xs arbitrary: m n) (auto simp: r)
  have pk: "maxEntries (snd (peek now k m)) = maxEntries m \<and> maxBytes (snd (peek now k m)) = maxBytes m" for now k
    by (simp add: peek_def r split: option.splits)
  show ?thesis
  proof (cases x)
    case (Get now k)
    obtain w m' where p: "peek now k m = (w, m')" by (cases "peek now k m")
    with pk [of now k] show ?thesis by (auto simp: Get bm_get_def split: option.splits)
  next
    case (Set now k v ttl)
    then show ?thesis by (simp add: bm_set_def bm_enforce_def Let_def v bm_remove_def split: option.splits)
  qed (simp_all add: pk r v cl sw bm_delete_def bm_clear_def sweep_def trimTo_def Let_def split: option.splits)
qed

lemma cache_run_options:
  "maxEntries (fold cache_step ops m) = maxEntries m \<and> maxBytes (fold cache_step ops m) = maxBytes m"
  by (induction ops arbitrary: m) (simp_all add: cache_step_options)

text \<open>C36: C24: 
  Whatever is done with a cache, it holds at most as many entries as its bound, its byte count is
  the sum of the sizes of what it holds, and it is within its byte budget, or has one entry.
\<close>
theorem cache_within_bounds:
  assumes "BoundedMap cap policy_lru bytes weigh ttl = Some m"
    and "\<And>f v k. weigh = Some f \<Longrightarrow> 0 \<le> f v k"
  shows "int (bm_size (fold cache_step ops m)) \<le> cap
     \<and> totalBytes (fold cache_step ops m) = sizes (bm_map (fold cache_step ops m))
     \<and> (bytes = Some b \<longrightarrow> totalBytes (fold cache_step ops m) \<le> b \<or> bm_size (fold cache_step ops m) \<le> 1)"
proof -
  have "bm_inv m" using assms by (auto simp: BoundedMap_def bm_inv_def wf_obj_def split: if_splits)
  then have inv: "bm_inv (fold cache_step ops m)" by (rule cache_run_inv)
  have o: "maxEntries (fold cache_step ops m) = nat cap" "maxBytes (fold cache_step ops m) = bytes" "1 \<le> cap"
    using cache_run_options [of ops m] assms(1) by (auto simp: BoundedMap_def split: if_splits)
  show ?thesis
    using inv o by (auto simp: bm_inv_def bm_size_def)
qed

definition tiny_cache :: "(string, int) bounded_map" where
  "tiny_cache = \<lparr>bm_map = [], totalBytes = 0, lru = True, maxEntries = 2, maxBytes = Some 7,
     sizeOf = Some (\<lambda>v _. \<bar>v\<bar>), ttlMs = None, evicted = []\<rparr>"

lemma cache_within_bounds_witness:
  "int (bm_size (fold cache_step [Set 0 ''a'' 1 None, Set 0 ''b'' 5 None, Set 0 ''c'' 3 None] tiny_cache)) \<le> 2"
proof -
  have "BoundedMap 2 True (Some 7) (Some (\<lambda>v (_ :: string). \<bar>v :: int\<bar>)) None = Some tiny_cache"
    by (simp add: BoundedMap_def tiny_cache_def)
  then show ?thesis
    using cache_within_bounds [of 2 True "Some 7" _ None tiny_cache "[Set 0 ''a'' 1 None, Set 0 ''b'' 5 None, Set 0 ''c'' 3 None]" 7]
    by (metis (no_types, lifting) abs_ge_zero option.inject)
qed

text \<open>C25: 
  Under the \<open>lru\<close> policy without a byte budget, an entry that has just been read is still there
  after fewer insertions than the bound.
\<close>
theorem recently_read_entry_survives:
  assumes "bm_inv m" "maxBytes m = None" "lru m"
    and "bm_get now k m = (Some v, m')"
    and "k \<notin> (\<lambda>(now, j, v, ttl). j) ` set xs" "length xs < maxEntries m"
  shows "k \<in> set (bm_keys (fold (\<lambda>(now, j, v, ttl). bm_set now j v ttl) xs m'))"
proof -
  from assms(1-4) obtain e where e: "map_of (bm_map m) k = Some e" "m' = m\<lparr>bm_map := oset k e (odel k (bm_map m))\<rparr>"
    by (auto simp: bm_get_def peek_def split: option.splits if_splits)
  have "bm_inv m'" using bm_get_inv [OF assms(1), of now k] assms(4) by simp
  moreover have "slack_in (maxEntries m') k (okeys (bm_map m')) = maxEntries m"
    using e by (simp add: oset_absent slack_in_def del: set_map)
  ultimately have "0 < slack_in (maxEntries (fold (\<lambda>(now, j, v, ttl). bm_set now j v ttl) xs m')) k
      (okeys (bm_map (fold (\<lambda>(now, j, v, ttl). bm_set now j v ttl) xs m')))"
    using assms e by (intro recent.recent_survives) auto
  then show ?thesis unfolding bm_keys_def by (rule slack_in_pos)
qed

definition full_cache :: "(string, int) bounded_map" where
  "full_cache = fold cache_step [Set 0 ''a'' 1 None, Set 0 ''b'' 5 None] (tiny_cache\<lparr>maxBytes := None\<rparr>)"

lemma recently_read_entry_survives_witness:
  "''a'' \<in> set (bm_keys (fold (\<lambda>(now, j, v, ttl). bm_set now j v ttl) [(1, ''c'', 2, None)] (snd (bm_get 1 ''a'' full_cache))))"
proof (rule recently_read_entry_survives [of full_cache 1 "''a''" 1])
  show "bm_inv full_cache"
    unfolding full_cache_def by (rule cache_run_inv) (auto simp: bm_inv_def tiny_cache_def wf_obj_def)
  show "maxBytes full_cache = None" "lru full_cache" "length [(1, ''c'', 2, None)] < maxEntries full_cache"
    by code_simp+
  have "fst (bm_get 1 ''a'' full_cache) = Some 1" by code_simp
  then show "bm_get 1 ''a'' full_cache = (Some 1, snd (bm_get 1 ''a'' full_cache))" by (simp add: prod_eq_iff)
qed simp

text \<open>C26: 
  A set of recent ids knows an id it has just been given until as many others have been added as
  it has places.
\<close>
theorem recent_id_is_remembered:
  assumes "BoundedSet cap = Some s0" "fst (bs_add v (fold (\<lambda>x s. snd (bs_add x s)) before s0))"
    and "v \<notin> set later" "int (length later) < cap"
  shows "bs_has v (fold (\<lambda>x s. snd (bs_add x s)) (before @ v # later) s0)"
proof -
  let ?put = "\<lambda>x s. snd (bs_add x s)" and ?s = "fold (\<lambda>x s. snd (bs_add x s)) before s0"
  have i0: "bs_inv s0" "bs_max s0 = nat cap" using assms(1) by (auto simp: BoundedSet_def bs_inv_def split: if_splits)
  have i: "bs_inv ?s" "bs_max ?s = nat cap" using recent_ids.puts_inv [OF i0(1), of before] i0(2) by auto
  have "slack_in (bs_max ?s) v (bs_set ?s) = 0"
    using assms(2) by (auto simp: bs_add_def slack_in_def split: if_splits)
  then have "0 < slack_in (bs_max (fold ?put later (?put v ?s))) v (bs_set (fold ?put later (?put v ?s)))"
    using recent_ids.new_survives [OF i(1), of v later] assms(3,4) i(2) by simp
  from slack_in_pos [OF this] show ?thesis by (simp add: bs_has_def)
qed

lemma recent_id_is_remembered_witness:
  "bs_has (1 :: int) (fold (\<lambda>x s. snd (bs_add x s)) ([5, 6] @ 1 # [7]) \<lparr>bs_set = [], bs_max = 2\<rparr>)"
  by (rule recent_id_is_remembered [of 2]) (simp_all add: BoundedSet_def bs_add_def)

end
