(* ===== verification/Pq_Envelope.thy ===== *)
theory Pq_Envelope
  imports Prelude "HOL-Library.Word" "HOL-Library.Log_Nat"
begin

section \<open>The post-quantum message envelope\<close>

text \<open>
  \<^verbatim>\<open>packages/pq/src/envelope.ts\<close> and the encoding helpers of \<^verbatim>\<open>packages/pq/src/index.ts\<close>:
  base64, padding, the associated data, sealing and opening a message, and what a payload says it
  is. A byte is an \<^typ>\<open>8 word\<close>. ML-KEM, HKDF, XChaCha20-Poly1305 and the text decoder are a
  parameter, the record \<open>pq_crypto\<close>; what sealing and opening need of them is the predicate
  \<open>crypto_ok\<close>. The random choices of one sealing are the parameter's answers. The host has \<open>atob\<close>
  and \<open>btoa\<close>.
\<close>

type_synonym bytes = "8 word list"

datatype pq_error =
  InvalidLength | EmptyMessage | MessageTooLong | MalformedPadding | InvalidParty | InvalidKemKey
| InvalidConversationKey | DecryptionFailed

subsection \<open>Base64\<close>

definition BASE64_ALPHABET :: string where
  "BASE64_ALPHABET = ''ABCDEFGHIJKLMNOPQRSTUVWXYZabcdefghijklmnopqrstuvwxyz0123456789+/''"

abbreviation b64 :: "nat \<Rightarrow> char" where
  "b64 n \<equiv> BASE64_ALPHABET ! n"

text \<open>\<open>btoa\<close>: three bytes are four characters; a rest of one or two bytes is padded.\<close>

fun toBase64 :: "bytes \<Rightarrow> string" where
  "toBase64 (x # y # z # r) =
     [b64 (unat x div 4), b64 (unat x mod 4 * 16 + unat y div 16), b64 (unat y mod 16 * 4 + unat z div 64),
      b64 (unat z mod 64)] @ toBase64 r"
| "toBase64 [x, y] =
     [b64 (unat x div 4), b64 (unat x mod 4 * 16 + unat y div 16), b64 (unat y mod 16 * 4), CHR ''='']"
| "toBase64 [x] = [b64 (unat x div 4), b64 (unat x mod 4 * 16), CHR ''='', CHR ''='']"
| "toBase64 [] = []"

definition is_ascii_space :: "char \<Rightarrow> bool" where
  "is_ascii_space c \<longleftrightarrow> code c \<in> set [9, 10, 12, 13, 32]"

text \<open>\<open>atob\<close>: the forgiving decoder.\<close>

definition strip_padding :: "string \<Rightarrow> string" where
  "strip_padding s =
     (if length s mod 4 = 0 then
        (if drop (length s - 2) s = ''=='' then take (length s - 2) s
         else if drop (length s - 1) s = ''='' then take (length s - 1) s else s)
      else s)"

fun sextets :: "string \<Rightarrow> nat list option" where
  "sextets [] = Some []"
| "sextets (c # s) =
     (case index_of c BASE64_ALPHABET of
        None \<Rightarrow> None
      | Some n \<Rightarrow> map_option ((#) n) (sextets s))"

fun unsextets :: "nat list \<Rightarrow> bytes" where
  "unsextets (a # b # c # d # r) =
     [word_of_nat (a * 4 + b div 16), word_of_nat (b mod 16 * 16 + c div 4), word_of_nat (c mod 4 * 64 + d)]
       @ unsextets r"
| "unsextets [a, b, c] = [word_of_nat (a * 4 + b div 16), word_of_nat (b mod 16 * 16 + c div 4)]"
| "unsextets [a, b] = [word_of_nat (a * 4 + b div 16)]"
| "unsextets [a] = []"
| "unsextets [] = []"

definition fromBase64 :: "string \<Rightarrow> bytes option" where
  "fromBase64 b64text =
     (let s = strip_padding (filter (\<lambda>c. \<not> is_ascii_space c) b64text)
      in if length s mod 4 = 1 then None else map_option unsextets (sextets s))"

subsection \<open>What a payload says it is\<close>

definition ENVELOPE_VERSION :: nat where "ENVELOPE_VERSION = 1"

definition ALG_MLKEM1024_XCHACHA :: nat where "ALG_MLKEM1024_XCHACHA = 1"

definition KEM_CIPHERTEXT_BYTES :: nat where "KEM_CIPHERTEXT_BYTES = 1568"

definition NONCE_BYTES :: nat where "NONCE_BYTES = 24"

definition TAG_BYTES :: nat where "TAG_BYTES = 16"

definition HEADER_BYTES :: nat where "HEADER_BYTES = 2 + KEM_CIPHERTEXT_BYTES + NONCE_BYTES"

definition MAX_PLAINTEXT_BYTES :: nat where "MAX_PLAINTEXT_BYTES = 65535"

definition KEM_PUBLIC_KEY_BYTES :: nat where "KEM_PUBLIC_KEY_BYTES = 1568"

lemmas envelope_sizes =
  KEM_CIPHERTEXT_BYTES_def NONCE_BYTES_def TAG_BYTES_def HEADER_BYTES_def MAX_PLAINTEXT_BYTES_def
  KEM_PUBLIC_KEY_BYTES_def ENVELOPE_VERSION_def ALG_MLKEM1024_XCHACHA_def

definition isPqEnvelope :: "string \<Rightarrow> bool" where
  "isPqEnvelope payload \<longleftrightarrow>
     (case fromBase64 payload of
        None \<Rightarrow> False
      | Some bs \<Rightarrow> length bs \<ge> HEADER_BYTES + TAG_BYTES \<and> unat (bs ! 0) = ENVELOPE_VERSION
          \<and> unat (bs ! 1) = ALG_MLKEM1024_XCHACHA)"

definition headerBytes :: "string \<Rightarrow> (nat \<times> nat) option" where
  "headerBytes payload =
     (if length payload < 4 then None
      else case sextets (take 4 payload) of
             None \<Rightarrow> None
           | Some ds \<Rightarrow>
               let accumulator = foldl (\<lambda>a d. a * 64 + d) 0 ds
               in Some (accumulator div 65536 mod 256, accumulator div 256 mod 256))"

datatype EnvelopeClass = PqClass | PqUnreadableClass | ClassicClass

definition classifyEnvelope :: "string \<Rightarrow> EnvelopeClass" where
  "classifyEnvelope payload =
     (case headerBytes payload of
        None \<Rightarrow> ClassicClass
      | Some (version, alg) \<Rightarrow>
          if version \<noteq> ENVELOPE_VERSION then ClassicClass
          else if alg \<noteq> ALG_MLKEM1024_XCHACHA then PqUnreadableClass
          else (case fromBase64 payload of
                  None \<Rightarrow> PqUnreadableClass
                | Some bs \<Rightarrow> if length bs \<ge> HEADER_BYTES + TAG_BYTES then PqClass else PqUnreadableClass))"

subsection \<open>Padding\<close>

definition calcPaddedLen :: "nat \<Rightarrow> pq_error + nat" where
  "calcPaddedLen len =
     (if len = 0 then Inl InvalidLength
      else if len \<le> 32 then Inr 32
      else let nextPower = 2 ^ floorlog 2 (len - 1);
               chunk = (if nextPower \<le> 256 then 32 else nextPower div 8)
           in Inr (chunk * ((len - 1) div chunk + 1)))"

definition pad :: "bytes \<Rightarrow> pq_error + bytes" where
  "pad plaintext =
     (if length plaintext = 0 then Inl EmptyMessage
      else if length plaintext > MAX_PLAINTEXT_BYTES then Inl MessageTooLong
      else case calcPaddedLen (length plaintext) of
             Inl e \<Rightarrow> Inl e
           | Inr n \<Rightarrow>
               Inr ([word_of_nat (length plaintext div 256), word_of_nat (length plaintext)] @ plaintext
                    @ replicate (n - length plaintext) 0))"

definition unpad :: "bytes \<Rightarrow> pq_error + bytes" where
  "unpad padded =
     (if length padded < 2 then Inl MalformedPadding
      else let len = unat (padded ! 0) * 256 + unat (padded ! 1)
           in if len = 0 \<or> len > MAX_PLAINTEXT_BYTES then Inl MalformedPadding
              else let out = take len (drop 2 padded)
                   in if length out \<noteq> len then Inl MalformedPadding
                      else case calcPaddedLen len of
                             Inl e \<Rightarrow> Inl e
                           | Inr n \<Rightarrow> if length padded \<noteq> 2 + n then Inl MalformedPadding else Inr out)"

subsection \<open>Associated data\<close>

record EnvelopeParties =
  sender :: string
  recipient :: string

definition is_xonly_hex :: "string \<Rightarrow> bool" where
  "is_xonly_hex s \<longleftrightarrow> length s = 64 \<and> list_all is_hex_lower s"

definition assertParties :: "EnvelopeParties \<Rightarrow> bool" where
  "assertParties parties \<longleftrightarrow> is_xonly_hex (sender parties) \<and> is_xonly_hex (recipient parties)"

text \<open>\<open>TextEncoder\<close> on code units below 256.\<close>

definition encode_char :: "char \<Rightarrow> bytes" where
  "encode_char c =
     (if code c < 128 then [word_of_nat (code c)]
      else [word_of_nat (192 + code c div 64), word_of_nat (128 + code c mod 64)])"

definition text_encode :: "string \<Rightarrow> bytes" where
  "text_encode s = concat (map encode_char s)"

definition associatedData :: "nat \<Rightarrow> EnvelopeParties \<Rightarrow> bytes \<Rightarrow> bytes" where
  "associatedData alg parties kemCt =
     text_encode (''nip-pqc/v1/env:'' @ show_nat ENVELOPE_VERSION @ '':'' @ show_nat alg @ '':''
       @ sender parties @ '':'' @ recipient parties @ '':'') @ kemCt"

subsection \<open>Sealing and opening\<close>

record pq_crypto =
  kem_encapsulate :: "bytes \<Rightarrow> bytes \<times> bytes"
  kem_decapsulate :: "bytes \<Rightarrow> bytes \<Rightarrow> bytes option"
  hkdf_extract :: "bytes \<Rightarrow> bytes"
  hkdf_expand :: "bytes \<Rightarrow> bytes \<Rightarrow> nat \<Rightarrow> bytes"
  aead_encrypt :: "bytes \<Rightarrow> bytes \<Rightarrow> bytes \<Rightarrow> bytes \<Rightarrow> bytes"
  aead_decrypt :: "bytes \<Rightarrow> bytes \<Rightarrow> bytes \<Rightarrow> bytes \<Rightarrow> bytes option"
  random_nonce :: bytes
  text_decode :: "bytes \<Rightarrow> string"

definition hybridKey :: "pq_crypto \<Rightarrow> bytes \<Rightarrow> bytes \<Rightarrow> bytes" where
  "hybridKey c sharedSecret conversationKey =
     hkdf_expand c (hkdf_extract c (sharedSecret @ conversationKey)) (text_encode ''nip-pqc/v1/hybrid'') 32"

definition encapsulate :: "pq_crypto \<Rightarrow> bytes \<Rightarrow> pq_error + bytes \<times> bytes" where
  "encapsulate c kemPublicKey =
     (if length kemPublicKey \<noteq> KEM_PUBLIC_KEY_BYTES then Inl InvalidKemKey
      else Inr (kem_encapsulate c kemPublicKey))"

datatype message = TextMessage string | BytesMessage bytes

fun message_bytes :: "message \<Rightarrow> bytes" where
  "message_bytes (TextMessage s) = text_encode s"
| "message_bytes (BytesMessage bs) = bs"

definition encryptPq ::
  "pq_crypto \<Rightarrow> message \<Rightarrow> bytes \<Rightarrow> bytes \<Rightarrow> EnvelopeParties \<Rightarrow> pq_error + string" where
  "encryptPq c plaintext recipientKemKey conversationKey parties =
     (if length recipientKemKey \<noteq> KEM_PUBLIC_KEY_BYTES then Inl InvalidKemKey
      else if length conversationKey \<noteq> 32 then Inl InvalidConversationKey
      else if \<not> assertParties parties then Inl InvalidParty
      else case encapsulate c recipientKemKey of
             Inl e \<Rightarrow> Inl e
           | Inr (kemCt, sharedSecret) \<Rightarrow>
               let key = hybridKey c sharedSecret conversationKey; nonce = random_nonce c
               in case pad (message_bytes plaintext) of
                    Inl e \<Rightarrow> Inl e
                  | Inr padded \<Rightarrow>
                      let sealed = aead_encrypt c key nonce (associatedData ALG_MLKEM1024_XCHACHA parties kemCt) padded
                      in Inr (toBase64 ([word_of_nat ENVELOPE_VERSION, word_of_nat ALG_MLKEM1024_XCHACHA]
                               @ kemCt @ nonce @ sealed)))"

text \<open>Whatever goes wrong, the caller learns one error.\<close>

definition decryptPq ::
  "pq_crypto \<Rightarrow> string \<Rightarrow> bytes \<Rightarrow> bytes \<Rightarrow> EnvelopeParties \<Rightarrow> pq_error + string" where
  "decryptPq c payload kemSecretKey conversationKey parties =
     (if length conversationKey \<noteq> 32 \<or> \<not> assertParties parties then Inl DecryptionFailed
      else case fromBase64 payload of
             None \<Rightarrow> Inl DecryptionFailed
           | Some bs \<Rightarrow>
               if length bs < HEADER_BYTES + TAG_BYTES \<or> unat (bs ! 0) \<noteq> ENVELOPE_VERSION
                  \<or> unat (bs ! 1) \<noteq> ALG_MLKEM1024_XCHACHA then Inl DecryptionFailed
               else let kemCt = take KEM_CIPHERTEXT_BYTES (drop 2 bs);
                        nonce = take NONCE_BYTES (drop (2 + KEM_CIPHERTEXT_BYTES) bs);
                        sealed = drop HEADER_BYTES bs
                    in case kem_decapsulate c kemCt kemSecretKey of
                         None \<Rightarrow> Inl DecryptionFailed
                       | Some sharedSecret \<Rightarrow>
                           (case aead_decrypt c (hybridKey c sharedSecret conversationKey) nonce
                                  (associatedData ALG_MLKEM1024_XCHACHA parties kemCt) sealed of
                              None \<Rightarrow> Inl DecryptionFailed
                            | Some padded \<Rightarrow>
                                (case unpad padded of
                                   Inl _ \<Rightarrow> Inl DecryptionFailed
                                 | Inr out \<Rightarrow> Inr (text_decode c out))))"

subsection \<open>Base64 is read back\<close>

lemma alphabet_index: "n < 64 \<Longrightarrow> index_of (b64 n) BASE64_ALPHABET = Some n"
proof -
  have "list_all (\<lambda>n. index_of (b64 n) BASE64_ALPHABET = Some n) [0..<64]" by code_simp
  then show "n < 64 \<Longrightarrow> ?thesis" by (simp add: list_all_iff)
qed

lemma alphabet_chars: "n < 64 \<Longrightarrow> b64 n \<noteq> CHR ''='' \<and> \<not> is_ascii_space (b64 n)"
proof -
  have "list_all (\<lambda>n. b64 n \<noteq> CHR ''='' \<and> \<not> is_ascii_space (b64 n)) [0..<64]" by code_simp
  then show "n < 64 \<Longrightarrow> ?thesis" by (simp add: list_all_iff)
qed

lemma byte_lt: "unat (x :: 8 word) < 256"
  using unsigned_less [of x, where ?'a = nat] by simp

lemma div_mod_parts:
  fixes a b n :: nat
  assumes "b < n" shows "(a * n + b) div n = a" "(a * n + b) mod n = b"
  using assms by simp_all

lemma byte_halves: "unat (x :: 8 word) div 4 < 64" "unat x div 16 < 16" "unat x div 64 < 4"
  using byte_lt [of x] by (simp_all add: less_mult_imp_div_less)

lemma byte_join: "word_of_nat (unat (x :: 8 word) div n * n + unat x mod n) = x"
  by simp

lemma unsextet1: "b < 16 \<Longrightarrow> word_of_nat (unat (x :: 8 word) div 4 * 4 + (unat x mod 4 * 16 + b) div 16) = x"
  using byte_join [of x 4] by (simp only: div_mod_parts)

lemma unsextet2:
  "b < 4 \<Longrightarrow> word_of_nat ((a * 16 + unat (y :: 8 word) div 16) mod 16 * 16 + (unat y mod 16 * 4 + b) div 4) = y"
  using byte_join [of y 16] by (simp only: div_mod_parts byte_halves)

lemma unsextet3: "word_of_nat ((a * 4 + unat (z :: 8 word) div 64) mod 4 * 64 + unat z mod 64) = z"
  using byte_join [of z 64] by (simp only: div_mod_parts byte_halves)

lemma join_lt: "a < m \<Longrightarrow> b < n \<Longrightarrow> a * n + b < m * (n :: nat)"
proof -
  assume "a < m" "b < n"
  then have "a * n + b < Suc a * n" by simp
  also have "\<dots> \<le> m * n" using \<open>a < m\<close> by (intro mult_le_mono1) simp
  finally show ?thesis .
qed

lemma sextet_bounds:
  "unat (x :: 8 word) div 4 < 64" "unat x mod 4 * 16 + unat (y :: 8 word) div 16 < 64" "unat x mod 4 * 16 < 64"
  "unat y mod 16 * 4 + unat (z :: 8 word) div 64 < 64" "unat y mod 16 * 4 < 64" "unat z mod 64 < 64"
proof -
  show "unat x div 4 < 64" by (rule byte_halves)
  show "unat x mod 4 * 16 + unat y div 16 < 64"
    using join_lt [of "unat x mod 4" 4 "unat y div 16" 16] byte_halves(2) [of y] by simp
  show "unat x mod 4 * 16 < 64" using join_lt [of "unat x mod 4" 4 0 16] by simp
  show "unat y mod 16 * 4 + unat z div 64 < 64"
    using join_lt [of "unat y mod 16" 16 "unat z div 64" 4] byte_halves(3) [of z] by simp
  show "unat y mod 16 * 4 < 64" using join_lt [of "unat y mod 16" 16 0 4] by simp
  show "unat z mod 64 < 64" by simp
qed

text \<open>The sextets of the text, without its padding.\<close>

fun sextets_of :: "bytes \<Rightarrow> nat list" where
  "sextets_of (x # y # z # r) =
     [unat x div 4, unat x mod 4 * 16 + unat y div 16, unat y mod 16 * 4 + unat z div 64, unat z mod 64] @ sextets_of r"
| "sextets_of [x, y] = [unat x div 4, unat x mod 4 * 16 + unat y div 16, unat y mod 16 * 4]"
| "sextets_of [x] = [unat x div 4, unat x mod 4 * 16]"
| "sextets_of [] = []"

lemma sextets_of_lt: "n \<in> set (sextets_of bs) \<Longrightarrow> n < 64"
  by (induction bs rule: sextets_of.induct) (auto simp: sextet_bounds)

lemma unsextets_of: "unsextets (sextets_of bs) = bs"
proof (induction bs rule: sextets_of.induct)
  case (1 x y z r)
  then show ?case by (simp only: sextets_of.simps append.simps unsextets.simps unsextet1 unsextet2 unsextet3 byte_halves)
next
  case (2 x y)
  then show ?case using unsextet2 [of 0] by (simp only: sextets_of.simps append.simps unsextets.simps unsextet1 byte_halves) simp
next
  case (3 x)
  then show ?case using unsextet1 [of 0] by (simp only: sextets_of.simps append.simps unsextets.simps) simp
qed simp

definition b64_tail :: "nat \<Rightarrow> string" where
  "b64_tail n = (if n mod 3 = 2 then ''='' else if n mod 3 = 1 then ''=='' else [])"

lemma add3_mod3: "Suc (Suc (Suc n)) mod 3 = n mod 3"
  using mod_add_self2 [of n 3] by simp

lemma add4_mod4: "Suc (Suc (Suc (Suc n))) mod 4 = n mod 4"
  using mod_add_self2 [of n 4] by simp

lemma toBase64_sextets: "toBase64 bs = map b64 (sextets_of bs) @ b64_tail (length bs)"
proof (induction bs rule: sextets_of.induct)
  case (1 x y z r)
  then show ?case by (simp add: b64_tail_def add3_mod3)
qed (simp_all add: b64_tail_def)

lemma length_sextets_of:
  "length (sextets_of bs) mod 4 = (if length bs mod 3 = 2 then 3 else if length bs mod 3 = 1 then 2 else 0)"
proof (induction bs rule: sextets_of.induct)
  case (1 x y z r)
  then show ?case by (simp add: add3_mod3 add4_mod4)
qed simp_all

lemma sextets_map: "(\<And>n. n \<in> set ns \<Longrightarrow> n < 64) \<Longrightarrow> sextets (map b64 ns) = Some ns"
  by (induction ns) (simp_all add: alphabet_index)

lemma b64_plain: "x \<in> set (map b64 (sextets_of bs)) \<Longrightarrow> x \<noteq> CHR ''='' \<and> \<not> is_ascii_space x"
proof -
  assume "x \<in> set (map b64 (sextets_of bs))"
  then obtain n where n: "n \<in> set (sextets_of bs)" "x = b64 n" by (metis in_set_conv_nth length_map nth_map)
  from alphabet_chars [OF sextets_of_lt [OF n(1)]] show ?thesis unfolding n(2) .
qed

lemma strip_padding_tail:
  assumes "s = [] \<or> last s \<noteq> CHR ''=''" "length s mod 4 = (if n mod 3 = 2 then 3 else if n mod 3 = 1 then 2 else 0)"
  shows "strip_padding (s @ b64_tail n) = s"
proof -
  consider "n mod 3 = 2" | "n mod 3 = 1" | "n mod 3 = 0" by linarith
  then show ?thesis
  proof cases
    case 1
    then have m: "length s mod 4 = 3" using assms(2) by simp
    then obtain s' x where s': "s = s' @ [x]" by (cases s rule: rev_cases) auto
    then have "x \<noteq> CHR ''=''" using assms(1) by auto
    moreover have "Suc (length s') mod 4 = 3" using m s' by simp
    then have "Suc (Suc (length s')) mod 4 = 0" by presburger
    ultimately show ?thesis using 1 by (simp add: strip_padding_def b64_tail_def s')
  next
    case 2
    then have "length s mod 4 = 2" using assms(2) by simp
    then have "Suc (Suc (length s)) mod 4 = 0" by presburger
    with 2 show ?thesis by (simp add: strip_padding_def b64_tail_def)
  next
    case 3
    then show ?thesis using assms by (cases s rule: rev_cases) (auto simp: strip_padding_def b64_tail_def)
  qed
qed

lemma fromBase64_toBase64: "fromBase64 (toBase64 bs) = Some bs"
proof -
  let ?s = "map b64 (sextets_of bs)"
  have "filter (\<lambda>c. \<not> is_ascii_space c) ?s = ?s" using b64_plain by (metis (no_types, lifting) filter_True)
  moreover have "filter (\<lambda>c. \<not> is_ascii_space c) (b64_tail (length bs)) = b64_tail (length bs)"
    by (simp add: b64_tail_def is_ascii_space_def)
  ultimately have f: "filter (\<lambda>c. \<not> is_ascii_space c) (toBase64 bs) = ?s @ b64_tail (length bs)"
    by (simp only: toBase64_sextets filter_append)
  have "?s = [] \<or> last ?s \<noteq> CHR ''=''" using b64_plain last_in_set by blast
  then have p: "strip_padding (?s @ b64_tail (length bs)) = ?s"
    by (rule strip_padding_tail) (simp only: length_map length_sextets_of)
  have "length ?s mod 4 \<noteq> 1" by (simp only: length_map length_sextets_of) simp
  then show ?thesis
    by (simp only: fromBase64_def Let_def f p if_False) (simp add: sextets_map sextets_of_lt unsextets_of)
qed

subsection \<open>Padding is read back\<close>

lemma calcPaddedLen_ge:
  assumes "calcPaddedLen len = Inr n" shows "len \<le> n" "n mod 32 = 0" "0 < len"
proof -
  show pos: "0 < len" using assms by (auto simp: calcPaddedLen_def split: if_splits)
  have chunk: "len \<le> c * ((len - 1) div c + 1)" if "0 < c" for c :: nat
    using that pos dividend_less_times_div [of c "len - 1"] by (simp add: algebra_simps)
  have big: "2 ^ m div 8 mod 32 = (0 :: nat)" if "\<not> (2 :: nat) ^ m \<le> 256" for m
  proof -
    have "8 < m"
    proof (rule ccontr)
      assume "\<not> 8 < m"
      then have "(2 :: nat) ^ m \<le> 2 ^ 8" by (intro power_increasing) auto
      with that show False by simp
    qed
    then obtain k where "m = 8 + k" by (metis less_imp_add_positive)
    then show ?thesis by (simp add: power_add)
  qed
  let ?p = "2 ^ floorlog 2 (len - 1) :: nat"
  show "len \<le> n" "n mod 32 = 0"
    using assms chunk [of 32] chunk [of "?p div 8"] big [of "floorlog 2 (len - 1)"]
    by (auto simp: calcPaddedLen_def Let_def mod_mult_right_eq [symmetric] mult.commute [of "_ div 8"]
        mod_eq_0_iff_dvd dvd_mult2 split: if_splits)
qed

lemma two_bytes: "n < 65536 \<Longrightarrow> unat (word_of_nat (n div 256) :: 8 word) * 256 + unat (word_of_nat n :: 8 word) = n"
proof -
  assume "n < 65536"
  then have "n div 256 < 256" by (simp add: less_mult_imp_div_less)
  then have "unat (word_of_nat (n div 256) :: 8 word) = n div 256" "unat (word_of_nat n :: 8 word) = n mod 256"
    by (simp_all add: unat_of_nat)
  then show ?thesis by simp
qed

lemma unpad_pad: "pad bs = Inr p \<Longrightarrow> unpad p = Inr bs"
proof -
  assume p: "pad bs = Inr p"
  then obtain n where n: "calcPaddedLen (length bs) = Inr n" "0 < length bs" "length bs \<le> MAX_PLAINTEXT_BYTES"
    "p = word_of_nat (length bs div 256) # word_of_nat (length bs) # bs @ replicate (n - length bs) 0"
    by (auto simp: pad_def split: if_splits sum.splits)
  have "length bs \<le> n" by (rule calcPaddedLen_ge [OF n(1)])
  moreover have "unat (p ! 0) * 256 + unat (p ! 1) = length bs"
    using two_bytes [of "length bs"] n(3) by (simp add: n(4) MAX_PLAINTEXT_BYTES_def)
  ultimately show ?thesis using n(1-3) unfolding unpad_def Let_def by (simp add: n(4))
qed

lemma pad_length: "pad bs = Inr p \<Longrightarrow> 34 \<le> length p \<and> length p mod 32 = 2"
proof -
  assume "pad bs = Inr p"
  then obtain n where n: "calcPaddedLen (length bs) = Inr n" "length p = 2 + n" "0 < length bs"
    by (auto simp: pad_def split: if_splits sum.splits dest: calcPaddedLen_ge(1))
  moreover have "n mod 32 = 0" "0 < n" using calcPaddedLen_ge [OF n(1)] n(3) by linarith+
  then have "32 \<le> n" by (metis dvd_imp_le mod_0_imp_dvd)
  ultimately show ?thesis using \<open>n mod 32 = 0\<close> by simp presburger
qed

subsection \<open>Encoded text is read back\<close>

fun decode_bytes :: "bytes \<Rightarrow> string" where
  "decode_bytes (x # y # r) =
     (if unat x < 128 then char_of (unat x) # decode_bytes (y # r)
      else char_of ((unat x - 192) * 64 + (unat y - 128)) # decode_bytes r)"
| "decode_bytes [x] = [char_of (unat x)]"
| "decode_bytes [] = []"

lemma unat_byte: "n < 256 \<Longrightarrow> unat (word_of_nat n :: 8 word) = n"
  by (simp add: unat_of_nat)

lemma decode_encode_char: "decode_bytes (encode_char c @ bs) = c # decode_bytes bs"
proof (cases "code c < 128")
  case True
  then have "unat (word_of_nat (code c) :: 8 word) = code c" by (simp add: unat_of_nat)
  with True show ?thesis by (cases bs) (simp_all add: encode_char_def)
next
  case False
  have c: "code c div 64 < 4" "code c mod 64 < 64" using code_lt [of c] by (simp_all add: less_mult_imp_div_less)
  then have u: "unat (word_of_nat (192 + code c div 64) :: 8 word) = 192 + code c div 64"
    "unat (word_of_nat (128 + code c mod 64) :: 8 word) = 128 + code c mod 64" by (intro unat_byte; linarith)+
  have "code c div 64 * 64 + code c mod 64 = code c" by (rule div_mult_mod_eq)
  with False u show ?thesis by (simp add: encode_char_def del: of_nat_add)
qed

lemma decode_text_encode [simp]: "decode_bytes (text_encode s) = s"
  by (induction s) (simp_all add: text_encode_def decode_encode_char)

lemma text_encode_inj: "text_encode s = text_encode t \<longleftrightarrow> s = t"
  by (metis decode_text_encode)

text \<open>The fields of the associated data are delimited.\<close>

lemma xonly_no_colon: "is_xonly_hex s \<Longrightarrow> CHR '':'' \<notin> set s"
  by (auto simp: is_xonly_hex_def list_all_iff char_class_defs)

lemma show_nat_no_colon: "CHR '':'' \<notin> set (show_nat n)"
  using show_nat_digits [of "CHR '':''" n] by (auto simp: is_digit_def)

lemma delimited_inj:
  "c \<notin> set a \<Longrightarrow> c \<notin> set b \<Longrightarrow> a @ [c] @ x = b @ [c] @ y \<longleftrightarrow> a = b \<and> x = y"
proof (induction a arbitrary: b)
  case Nil
  then show ?case by (cases b) auto
next
  case (Cons z a)
  then show ?case by (cases b) auto
qed

lemma associatedData_inj:
  assumes "assertParties p" "assertParties q" "length ct = length ct'"
  shows "associatedData alg p ct = associatedData alg' q ct' \<longleftrightarrow> alg = alg' \<and> sender p = sender q
     \<and> recipient p = recipient q \<and> ct = ct'"
proof -
  note no = xonly_no_colon [of "sender p"] xonly_no_colon [of "sender q"] xonly_no_colon [of "recipient p"]
    xonly_no_colon [of "recipient q"]
  have h: "CHR '':'' \<notin> set (sender p)" "CHR '':'' \<notin> set (sender q)" "CHR '':'' \<notin> set (recipient p)"
    "CHR '':'' \<notin> set (recipient q)" using assms(1,2) no by (simp_all add: assertParties_def)
  have d: "show_nat alg @ '':'' @ sender p @ '':'' @ recipient p @ '':'' @ [] =
        show_nat alg' @ '':'' @ sender q @ '':'' @ recipient q @ '':'' @ [] \<longleftrightarrow>
      alg = alg' \<and> sender p = sender q \<and> recipient p = recipient q"
    using delimited_inj [OF show_nat_no_colon show_nat_no_colon] delimited_inj [OF h(1,2)] delimited_inj [OF h(3,4)]
    by (simp add: show_nat_inj)
  show ?thesis using assms(3) d
    by (auto simp: associatedData_def text_encode_inj)
qed

subsection \<open>Headers\<close>

lemma index_of_lt: "index_of c s = Some i \<Longrightarrow> i < length s"
  by (induction s arbitrary: i) (auto split: if_splits)

lemma sextets_SomeD: "sextets s = Some ns \<Longrightarrow> length ns = length s \<and> (\<forall>n \<in> set ns. n < 64)"
proof (induction s arbitrary: ns)
  case (Cons c s)
  then obtain n ns' where n: "index_of c BASE64_ALPHABET = Some n" "sextets s = Some ns'" "ns = n # ns'"
    by (auto split: option.splits)
  have "n < length BASE64_ALPHABET" by (rule index_of_lt [OF n(1)])
  moreover have "length BASE64_ALPHABET = 64" by (simp add: BASE64_ALPHABET_def)
  ultimately show ?case using Cons.IH [OF n(2)] n(3) by simp
qed simp

lemma sextets_take: "sextets s = Some ns \<Longrightarrow> sextets (take k s) = Some (take k ns)"
proof (induction s arbitrary: ns k)
  case (Cons c s)
  then show ?case by (cases k) (auto split: option.splits)
qed simp

lemma regroup:
  fixes a d q r s t :: nat
  shows "((a * 64 + (q * 16 + r)) * 64 + (s * 4 + t)) * 64 + d = (a * 4 + q) * 65536 + ((r * 16 + s) * 256 + (t * 64 + d))"
  by (simp add: algebra_simps)

lemma header_value:
  assumes "a < 64" "b < 64" "c < 64" "d < (64 :: nat)"
  shows "(((a * 64 + b) * 64 + c) * 64 + d) div 65536 mod 256 = a * 4 + b div 16"
    "(((a * 64 + b) * 64 + c) * 64 + d) div 256 mod 256 = b mod 16 * 16 + c div 4"
proof -
  have e: "((a * 64 + b) * 64 + c) * 64 + d = (a * 4 + b div 16) * 65536 + ((b mod 16 * 16 + c div 4) * 256 + (c mod 4 * 64 + d))"
    using regroup [of a "b div 16" "b mod 16" "c div 4" "c mod 4" d] by simp
  have l: "c mod 4 * 64 + d < 256" "b mod 16 * 16 + c div 4 < 256" "a * 4 + b div 16 < 256"
    using join_lt [of "c mod 4" 4 d 64] join_lt [of "b mod 16" 16 "c div 4" 16] join_lt [of a 64 "b div 16" 4] assms
    by (simp_all add: less_mult_imp_div_less)
  have "(b mod 16 * 16 + c div 4) * 256 + (c mod 4 * 64 + d) < 65536"
    using join_lt [OF l(2,1)] by simp
  then show "(((a * 64 + b) * 64 + c) * 64 + d) div 65536 mod 256 = a * 4 + b div 16"
    unfolding e using l(3) by (simp only: div_mod_parts) simp
  have "(a * 4 + b div 16) * 65536 + ((b mod 16 * 16 + c div 4) * 256 + (c mod 4 * 64 + d))
      = ((a * 4 + b div 16) * 256 + (b mod 16 * 16 + c div 4)) * 256 + (c mod 4 * 64 + d)" by simp
  then show "(((a * 64 + b) * 64 + c) * 64 + d) div 256 mod 256 = b mod 16 * 16 + c div 4"
    unfolding e using l by (simp only: div_mod_parts)
qed

text \<open>The first four characters of a payload that decodes to enough bytes are its header.\<close>

lemma header_of_decoded:
  assumes "fromBase64 payload = Some bs" "3 \<le> length bs" "\<forall>c \<in> set (take 4 payload). \<not> is_ascii_space c"
  shows "headerBytes payload = Some (unat (bs ! 0), unat (bs ! 1))"
proof -
  obtain s ns where s: "s = strip_padding (filter (\<lambda>c. \<not> is_ascii_space c) payload)" "sextets s = Some ns"
    "bs = unsextets ns" using assms(1) by (auto simp: fromBase64_def Let_def split: if_splits)
  obtain a b c d r where ns: "ns = a # b # c # d # r"
    using assms(2) unfolding s(3) by (cases ns rule: unsextets.cases) auto
  have l: "length s = length ns" "a < 64" "b < 64" "c < 64" "d < 64" using sextets_SomeD [OF s(2)] ns by auto
  have "\<exists>k. s = take k (filter (\<lambda>c. \<not> is_ascii_space c) payload)"
    unfolding s(1) strip_padding_def by (metis take_all_iff order_refl)
  then obtain k where k: "s = take k (filter (\<lambda>c. \<not> is_ascii_space c) payload)" by blast
  have k4: "4 \<le> k" using l(1) ns unfolding k by simp
  have long: "4 \<le> length (filter (\<lambda>c. \<not> is_ascii_space c) payload)" using l(1) ns unfolding k by simp
  then have "4 \<le> length payload" using length_filter_le le_trans by blast
  have "filter (\<lambda>c. \<not> is_ascii_space c) payload =
      take 4 payload @ filter (\<lambda>c. \<not> is_ascii_space c) (drop 4 payload)"
    using assms(3) by (subst append_take_drop_id [of 4 payload, symmetric], subst filter_append) (simp add: filter_True)
  then have "take 4 s = take 4 payload" using k k4 \<open>4 \<le> length payload\<close> by (simp add: min_def)
  moreover have "sextets (take 4 s) = Some [a, b, c, d]" using sextets_take [OF s(2), of 4] by (simp add: ns)
  moreover have "a * 4 + b div 16 < 256" "b mod 16 * 16 + c div 4 < 256"
    using join_lt [of a 64 "b div 16" 4] join_lt [of "b mod 16" 16 "c div 4" 16] l
    by (simp_all add: less_mult_imp_div_less)
  ultimately show ?thesis
    using \<open>4 \<le> length payload\<close> header_value [OF l(2-5)]
    by (simp add: headerBytes_def s(3) ns unat_byte Let_def del: of_nat_add of_nat_mult)
qed

lemma envelope_long: "HEADER_BYTES + TAG_BYTES = 1610"
  by (simp add: envelope_sizes)

lemma classify_isPq:
  assumes "\<forall>c \<in> set (take 4 payload). \<not> is_ascii_space c" "isPqEnvelope payload"
  shows "classifyEnvelope payload = PqClass"
proof -
  obtain bs where bs: "fromBase64 payload = Some bs" "1610 \<le> length bs" "unat (bs ! 0) = ENVELOPE_VERSION"
    "unat (bs ! 1) = ALG_MLKEM1024_XCHACHA" using assms(2) by (auto simp: isPqEnvelope_def envelope_long split: option.splits)
  from header_of_decoded [OF bs(1) _ assms(1)] bs show ?thesis
    by (simp add: classifyEnvelope_def envelope_long)
qed

lemma space_ignored: "fromBase64 (CHR '' '' # payload) = fromBase64 payload"
  by (simp add: fromBase64_def is_ascii_space_def)

subsection \<open>What sealing promises\<close>

text \<open>
  What is relied on of the primitives, as their documentation states it: the cipher opens what it
  sealed under the same key, nonce and associated data and adds its tag, the sizes of FIPS 203,
  and the decoder reads encoded text.
\<close>

definition crypto_ok :: "pq_crypto \<Rightarrow> bool" where
  "crypto_ok c \<longleftrightarrow>
     (\<forall>k n ad pt. aead_decrypt c k n ad (aead_encrypt c k n ad pt) = Some pt)
     \<and> (\<forall>k n ad pt. length (aead_encrypt c k n ad pt) = length pt + TAG_BYTES)
     \<and> length (random_nonce c) = NONCE_BYTES
     \<and> (\<forall>pk. length (fst (kem_encapsulate c pk)) = KEM_CIPHERTEXT_BYTES)
     \<and> (\<forall>s. text_decode c (text_encode s) = s)"

definition kem_pair :: "pq_crypto \<Rightarrow> bytes \<Rightarrow> bytes \<Rightarrow> bool" where
  "kem_pair c pk sk \<longleftrightarrow> kem_decapsulate c (fst (kem_encapsulate c pk)) sk = Some (snd (kem_encapsulate c pk))"

lemma sealed_bytes:
  assumes "encryptPq c m pk ck parties = Inr payload" "crypto_ok c"
  obtains kemCt ss padded sealed where
    "kem_encapsulate c pk = (kemCt, ss)" "pad (message_bytes m) = Inr padded"
    "sealed = aead_encrypt c (hybridKey c ss ck) (random_nonce c) (associatedData ALG_MLKEM1024_XCHACHA parties kemCt) padded"
    "fromBase64 payload = Some (1 # 1 # kemCt @ random_nonce c @ sealed)"
    "payload = toBase64 (1 # 1 # kemCt @ random_nonce c @ sealed)"
    "length kemCt = 1568" "length (random_nonce c) = 24" "16 \<le> length sealed"
    "length ck = 32" "assertParties parties"
proof -
  obtain kemCt ss where e: "kem_encapsulate c pk = (kemCt, ss)" by fastforce
  from assms(1) e obtain padded where p: "pad (message_bytes m) = Inr padded" "length ck = 32" "assertParties parties" and
    t: "payload = toBase64 (1 # 1 # kemCt @ random_nonce c @
        aead_encrypt c (hybridKey c ss ck) (random_nonce c) (associatedData ALG_MLKEM1024_XCHACHA parties kemCt) padded)"
    by (auto simp: encryptPq_def encapsulate_def Let_def ENVELOPE_VERSION_def ALG_MLKEM1024_XCHACHA_def
        split: if_splits sum.splits)
  have "length kemCt = 1568" using assms(2) e by (metis KEM_CIPHERTEXT_BYTES_def crypto_ok_def fst_conv)
  moreover have "length (random_nonce c) = 24" using assms(2) by (simp add: crypto_ok_def NONCE_BYTES_def)
  ultimately show ?thesis
    using that [OF e p(1) refl] t p(2,3) assms(2) by (simp add: fromBase64_toBase64 crypto_ok_def TAG_BYTES_def)
qed

text \<open>A sealed message says what it is.\<close>

lemma sealed_isPq:
  assumes "encryptPq c m pk ck parties = Inr payload" "crypto_ok c" shows "isPqEnvelope payload"
  by (rule sealed_bytes [OF assms]) (auto simp: isPqEnvelope_def envelope_sizes)

lemma toBase64_no_space: "x \<in> set (toBase64 bs) \<Longrightarrow> \<not> is_ascii_space x"
  unfolding toBase64_sextets set_append using b64_plain
  by (auto simp: b64_tail_def is_ascii_space_def split: if_splits)


definition toy_crypto :: pq_crypto where
  "toy_crypto = \<lparr>kem_encapsulate = \<lambda>_. (replicate 1568 7, [9]), kem_decapsulate = \<lambda>_ _. Some [9],
     hkdf_extract = \<lambda>x. x, hkdf_expand = \<lambda>x _ _. x, aead_encrypt = \<lambda>_ _ _ pt. pt @ replicate 16 0,
     aead_decrypt = \<lambda>_ _ _ ct. Some (take (length ct - 16) ct), random_nonce = replicate 24 5,
     text_decode = decode_bytes\<rparr>"

definition toy_parties :: EnvelopeParties where
  "toy_parties = \<lparr>sender = replicate 64 CHR ''a'', recipient = replicate 64 CHR ''b''\<rparr>"

lemma toy_crypto_ok: "crypto_ok toy_crypto" "kem_pair toy_crypto pk sk"
  by (simp_all add: crypto_ok_def kem_pair_def toy_crypto_def envelope_sizes)

lemma toy_parties_ok: "assertParties toy_parties"
  by (simp add: assertParties_def toy_parties_def is_xonly_hex_def list_all_iff char_class_defs)

lemma toy_sealed: "\<exists>payload. encryptPq toy_crypto (TextMessage ''hi'') (replicate 1568 1) (replicate 32 2) toy_parties = Inr payload"
  by (simp add: encryptPq_def encapsulate_def toy_parties_ok envelope_sizes Let_def pad_def calcPaddedLen_def
      text_encode_def encode_char_def toy_crypto_def)


text \<open>C32: 
  The associated data of two sealings with legal parties agree only when algorithm, sender,
  recipient and key ciphertext agree, so a ciphertext cannot be moved to another conversation,
  turned around, or relabelled.
\<close>
theorem associated_data_binds:
  assumes "assertParties p" "assertParties q" "length ct = length ct'"
  shows "associatedData alg p ct = associatedData alg' q ct' \<longleftrightarrow>
     alg = alg' \<and> sender p = sender q \<and> recipient p = recipient q \<and> ct = ct'"
  by (rule associatedData_inj [OF assms])

lemma associated_data_binds_witness:
  "associatedData 1 toy_parties [7] \<noteq>
     associatedData 1 \<lparr>sender = recipient toy_parties, recipient = sender toy_parties\<rparr> [7]"
proof -
  have "assertParties \<lparr>sender = recipient toy_parties, recipient = sender toy_parties\<rparr>"
    using toy_parties_ok by (simp add: assertParties_def)
  from associated_data_binds [OF toy_parties_ok this, of "[7]" "[7]" 1 1] show ?thesis
    by (auto simp: toy_parties_def)
qed

text \<open>Unpadding returns what was padded, and a padded length only tells a multiple of 32.\<close>
theorem padding_roundtrip:
  assumes "pad bs = Inr p"
  shows "unpad p = Inr bs \<and> length p mod 32 = 2 \<and> length bs + 2 \<le> length p"
proof -
  obtain n where n: "calcPaddedLen (length bs) = Inr n" "length p = 2 + length bs + (n - length bs)"
    using assms by (auto simp: pad_def split: if_splits sum.splits)
  then show ?thesis using unpad_pad [OF assms] pad_length [OF assms] by simp
qed

lemma padding_roundtrip_witness: "unpad (case pad [1, 2, 3] of Inr p \<Rightarrow> p | Inl _ \<Rightarrow> []) = Inr [1, 2, 3]"
proof -
  obtain p where "pad [1, 2, 3] = Inr p" by (simp add: pad_def calcPaddedLen_def MAX_PLAINTEXT_BYTES_def)
  with padding_roundtrip [OF this] show ?thesis by simp
qed

text \<open>C34: 
  The classifier and the boolean check do not agree: the decoder skips a leading space and the
  classifier does not, so a complete envelope behind a space still passes the check, still opens,
  and is called classic.
\<close>
theorem spaced_envelope_is_called_classic:
  assumes "isPqEnvelope payload"
  shows "isPqEnvelope (CHR '' '' # payload) \<and> classifyEnvelope (CHR '' '' # payload) = ClassicClass
     \<and> decryptPq c (CHR '' '' # payload) sk ck parties = decryptPq c payload sk ck parties"
proof -
  have "index_of CHR '' '' BASE64_ALPHABET = None" by code_simp
  then have "sextets (take 4 (CHR '' '' # payload)) = None" by simp
  then have "headerBytes (CHR '' '' # payload) = None" by (simp add: headerBytes_def)
  then show ?thesis using assms by (simp add: isPqEnvelope_def classifyEnvelope_def decryptPq_def space_ignored)
qed

lemma spaced_envelope_is_called_classic_witness:
  "\<exists>payload. isPqEnvelope payload \<and> classifyEnvelope payload = ClassicClass"
proof -
  obtain payload where "encryptPq toy_crypto (TextMessage ''hi'') (replicate 1568 1) (replicate 32 2) toy_parties = Inr payload"
    using toy_sealed by blast
  from spaced_envelope_is_called_classic [OF sealed_isPq [OF this toy_crypto_ok(1)]] show ?thesis by blast
qed

end
