(* ===== verification/Pq_Attest.thy ===== *)
theory Pq_Attest
  imports Pq_Envelope
begin

section \<open>Post-quantum keys and their attestation\<close>

text \<open>
  \<^verbatim>\<open>packages/pq/src/index.ts\<close>: which account a derivation is for, the derived key pairs, the
  proof of possession, and the \<open>kind:10203\<close> attestation as it is built, parsed and verified.
  ML-KEM, ML-DSA and HKDF extend the record \<open>pq_crypto\<close>; \<open>verifyEvent\<close> of nostr-tools is an
  argument. \<open>None\<close> is an exception that leaves the function.
\<close>

subsection \<open>Derivation\<close>

datatype PqAccount = AccountIndex int | NotAnIndex | AccountPath string

definition NIP06_ACCOUNT_PREFIX :: string where
  "NIP06_ACCOUNT_PREFIX =
     ''m/44'' @ [CHR 0x27] @ ''/1237'' @ [CHR 0x27] @ ''/0'' @ [CHR 0x27] @ ''/0/''"

definition MAX_BIP32_INDEX :: nat where "MAX_BIP32_INDEX = 0x7fffffff"

definition PQ_PROFILE :: string where "PQ_PROFILE = ''nip-pqc/v1''"

definition ALG_KEM :: string where "ALG_KEM = ''ml-kem-1024''"

definition ALG_DSA :: string where "ALG_DSA = ''ml-dsa-87''"

definition DSA_PUBLIC_KEY_BYTES :: nat where "DSA_PUBLIC_KEY_BYTES = 2592"

definition ATTESTATION_KIND :: int where "ATTESTATION_KIND = 10203"

text \<open>\<open>part.replace("'", '')\<close>: the first quote is dropped.\<close>

fun drop_quote :: "string \<Rightarrow> string" where
  "drop_quote [] = []"
| "drop_quote (c # s) = (if c = CHR 0x27 then s else c # drop_quote s)"

text \<open>One step of a path in \<open>CANONICAL_PATH\<close>: a decimal index without leading zeros and a mark.\<close>

definition is_path_step :: "string \<Rightarrow> bool" where
  "is_path_step p \<longleftrightarrow>
     (let d = (if p \<noteq> [] \<and> last p = CHR 0x27 then butlast p else p)
      in d \<noteq> [] \<and> list_all is_digit d \<and> (d = ''0'' \<or> hd d \<noteq> CHR ''0''))"

definition is_canonical_path :: "string \<Rightarrow> bool" where
  "is_canonical_path p \<longleftrightarrow>
     (case split_on CHR ''/'' p of [] \<Rightarrow> False | m # steps \<Rightarrow> m = ''m'' \<and> list_all is_path_step steps)"

definition derivationSelector :: "PqAccount \<Rightarrow> string option" where
  "derivationSelector account =
     (case account of
        NotAnIndex \<Rightarrow> None
      | AccountIndex i \<Rightarrow> if i < 0 then None else Some (show_int i)
      | AccountPath p \<Rightarrow>
          if \<not> is_canonical_path p then None
          else if list_ex (\<lambda>part. parse_base 10 (drop_quote part) > MAX_BIP32_INDEX) (tl (split_on CHR ''/'' p)) then None
          else let suffix = drop (length NIP06_ACCOUNT_PREFIX) p
               in if starts_with NIP06_ACCOUNT_PREFIX p \<and> suffix \<noteq> [] \<and> list_all is_digit suffix then Some suffix
                  else Some (''path/'' @ p))"

definition kemInfo :: "PqAccount \<Rightarrow> string option" where
  "kemInfo account = map_option (\<lambda>s. PQ_PROFILE @ ''/'' @ ALG_KEM @ ''/'' @ s) (derivationSelector account)"

definition dsaInfo :: "PqAccount \<Rightarrow> string option" where
  "dsaInfo account = map_option (\<lambda>s. PQ_PROFILE @ ''/'' @ ALG_DSA @ ''/'' @ s) (derivationSelector account)"

record PqKeyPair =
  publicKey :: bytes
  secretKey :: bytes

record PqKeys =
  kem_keys :: PqKeyPair
  dsa_keys :: PqKeyPair

record pq_suite = pq_crypto +
  kem_keygen :: "bytes \<Rightarrow> PqKeyPair"
  dsa_keygen :: "bytes \<Rightarrow> PqKeyPair"
  dsa_sign :: "bytes \<Rightarrow> bytes \<Rightarrow> bytes"
  dsa_verify :: "bytes \<Rightarrow> bytes \<Rightarrow> bytes \<Rightarrow> bool option"

definition deriveSeed :: "'c pq_crypto_scheme \<Rightarrow> bytes \<Rightarrow> string \<Rightarrow> nat \<Rightarrow> bytes" where
  "deriveSeed c seed info n = hkdf_expand c (hkdf_extract c seed) (text_encode info) n"

definition derivePqKeys :: "pq_suite \<Rightarrow> bytes \<Rightarrow> PqAccount \<Rightarrow> PqKeys option" where
  "derivePqKeys c seed account =
     (if seed = [] then None
      else case (kemInfo account, dsaInfo account) of
             (Some ki, Some di) \<Rightarrow>
               Some \<lparr>kem_keys = kem_keygen c (deriveSeed c seed ki 64), dsa_keys = dsa_keygen c (deriveSeed c seed di 32)\<rparr>
           | _ \<Rightarrow> None)"

subsection \<open>Proof of possession\<close>

definition popMessage :: "string \<Rightarrow> string \<Rightarrow> string \<Rightarrow> bytes" where
  "popMessage pubkeyHex kemB64 dsaB64 =
     text_encode (PQ_PROFILE @ ''/pop:'' @ pubkeyHex @ '':'' @ kemB64 @ '':'' @ dsaB64)"

definition signPop :: "pq_suite \<Rightarrow> bytes \<Rightarrow> bytes \<Rightarrow> bytes" where
  "signPop c message dsaSecretKey = dsa_sign c message dsaSecretKey"

definition verifyPop :: "pq_suite \<Rightarrow> bytes \<Rightarrow> bytes \<Rightarrow> bytes \<Rightarrow> bool" where
  "verifyPop c signature message dsaPublicKey =
     (case dsa_verify c signature message dsaPublicKey of None \<Rightarrow> False | Some b \<Rightarrow> b)"

subsection \<open>The attestation\<close>

datatype PqOrigin = Derived | Independent

fun pq_origin_name :: "PqOrigin \<Rightarrow> string" where
  "pq_origin_name Derived = ''derived''"
| "pq_origin_name Independent = ''independent''"

definition buildAttestationTags ::
  "pq_suite \<Rightarrow> string \<Rightarrow> bytes \<Rightarrow> bytes \<Rightarrow> PqOrigin \<Rightarrow> bytes \<Rightarrow> string list list" where
  "buildAttestationTags c pubkey kem dsa origin dsaSecretKey =
     (let kemB64 = toBase64 kem; dsaB64 = toBase64 dsa;
          pop = signPop c (popMessage pubkey kemB64 dsaB64) dsaSecretKey
      in [[''alg'', ALG_KEM, kemB64], [''alg'', ALG_DSA, dsaB64], [''origin'', pq_origin_name origin]]
         @ (if origin = Derived then [[''seed_strength'', ''256'']] else [])
         @ [[''v'', PQ_PROFILE], [''pop'', ALG_DSA, toBase64 pop]])"

definition expectedBytesFor :: "string \<Rightarrow> nat option" where
  "expectedBytesFor alg =
     (if alg = ALG_KEM then Some KEM_PUBLIC_KEY_BYTES
      else if alg = ALG_DSA then Some DSA_PUBLIC_KEY_BYTES else None)"

datatype PqProblem =
  KeyLength string int nat | NoAlgTags | NoKem string | DerivedWeakSeed string | DerivedMissingSeedStrength
| MissingPop string | PopFailed | WrongKind | BadSignature

record PqAttestation =
  at_pubkey :: string
  at_kem :: "bytes option"
  at_dsa :: "bytes option"
  at_origin :: "PqOrigin option"
  at_seedStrength :: "string option"
  at_profile :: "string option"
  at_popValid :: "bool option"
  at_problems :: "PqProblem list"
  at_usable :: bool

record PqEventLike =
  pq_pubkey :: string
  pq_kind :: int
  pq_tags :: "string list list"

text \<open>The loop over the \<open>alg\<close> tags: the last well-formed key of each algorithm, and its text.\<close>

record alg_scan =
  s_kem :: "(bytes \<times> string) option"
  s_dsa :: "(bytes \<times> string) option"
  s_problems :: "PqProblem list"

fun scan_alg :: "string list \<Rightarrow> alg_scan \<Rightarrow> alg_scan" where
  "scan_alg (_ # alg # b64text # _) s =
     (case expectedBytesFor alg of
        None \<Rightarrow> s
      | Some expected \<Rightarrow>
          (case fromBase64 b64text of
             None \<Rightarrow> s\<lparr>s_problems := s_problems s @ [KeyLength alg (-1) expected]\<rparr>
           | Some bs \<Rightarrow>
               if length bs \<noteq> expected then s\<lparr>s_problems := s_problems s @ [KeyLength alg (int (length bs)) expected]\<rparr>
               else if alg = ALG_KEM then s\<lparr>s_kem := Some (bs, b64text)\<rparr>
               else s\<lparr>s_dsa := Some (bs, b64text)\<rparr>))"
| "scan_alg _ s = s"

definition pq_tag :: "string \<Rightarrow> string list \<Rightarrow> bool" where
  "pq_tag name t \<longleftrightarrow> t \<noteq> [] \<and> hd t = name"

definition alg_tags :: "PqEventLike \<Rightarrow> string list list" where
  "alg_tags e = filter (\<lambda>t. pq_tag ''alg'' t \<and> 3 \<le> length t) (pq_tags e)"

text \<open>The value of the first tag of a name, when it is there and not empty.\<close>

definition first_value :: "PqEventLike \<Rightarrow> string \<Rightarrow> string option" where
  "first_value e name =
     (case find (pq_tag name) (pq_tags e) of
        Some (_ # v # _) \<Rightarrow> if v = [] then None else Some v
      | _ \<Rightarrow> None)"

definition attested_origin :: "PqEventLike \<Rightarrow> PqOrigin option" where
  "attested_origin e =
     (if first_value e ''origin'' = Some ''derived'' then Some Derived
      else if first_value e ''origin'' = Some ''independent'' then Some Independent else None)"

definition seed_problems :: "PqEventLike \<Rightarrow> PqProblem list" where
  "seed_problems e =
     (if attested_origin e = Some Derived then
        (case first_value e ''seed_strength'' of
           None \<Rightarrow> [DerivedMissingSeedStrength]
         | Some bits \<Rightarrow> if bits \<noteq> ''256'' then [DerivedWeakSeed bits] else [])
      else [])"

text \<open>The check of the proof: what it found and what is wrong, or the exception of its decoding.\<close>

definition check_pop :: "pq_suite \<Rightarrow> PqEventLike \<Rightarrow> alg_scan \<Rightarrow> (bool option \<times> PqProblem list) option" where
  "check_pop c e s =
     (let popTag = find (\<lambda>t. pq_tag ''pop'' t \<and> 3 \<le> length t) (pq_tags e)
      in case (s_dsa s, popTag) of
           (Some _, None) \<Rightarrow> Some (None, [MissingPop ALG_DSA])
         | (Some (dsa, dsaB64), Some t) \<Rightarrow>
             (case s_kem s of
                None \<Rightarrow> Some (None, [])
              | Some (kem, kemB64) \<Rightarrow>
                  (case fromBase64 (t ! 2) of
                     None \<Rightarrow> None
                   | Some signature \<Rightarrow>
                       let ok = verifyPop c signature (popMessage (pq_pubkey e) kemB64 dsaB64) dsa
                       in Some (Some ok, if ok then [] else [PopFailed])))
         | (None, _) \<Rightarrow> Some (None, []))"

definition parseAttestation :: "pq_suite \<Rightarrow> PqEventLike \<Rightarrow> PqAttestation option" where
  "parseAttestation c e =
     (let algs = alg_tags e;
          s = fold scan_alg algs \<lparr>s_kem = None, s_dsa = None, s_problems = []\<rparr>;
          found = s_problems s @ (if algs = [] then [NoAlgTags] else [])
            @ (if s_kem s = None then [NoKem ALG_KEM] else []) @ seed_problems e
      in case check_pop c e s of
           None \<Rightarrow> None
         | Some (popValid, popProblems) \<Rightarrow>
             Some \<lparr>at_pubkey = pq_pubkey e, at_kem = map_option fst (s_kem s), at_dsa = map_option fst (s_dsa s),
               at_origin = attested_origin e, at_seedStrength = first_value e ''seed_strength'',
               at_profile = first_value e ''v'', at_popValid = popValid, at_problems = found @ popProblems,
               at_usable = (s_kem s \<noteq> None \<and> found @ popProblems = [])\<rparr>)"

definition refused_attestation :: "PqEventLike \<Rightarrow> PqProblem \<Rightarrow> PqAttestation" where
  "refused_attestation e problem =
     \<lparr>at_pubkey = pq_pubkey e, at_kem = None, at_dsa = None, at_origin = None, at_seedStrength = None,
      at_profile = None, at_popValid = None, at_problems = [problem], at_usable = False\<rparr>"

definition verifyAttestation ::
  "pq_suite \<Rightarrow> (PqEventLike \<Rightarrow> bool option) \<Rightarrow> PqEventLike \<Rightarrow> PqAttestation option" where
  "verifyAttestation c verifyEvent e =
     (if pq_kind e \<noteq> ATTESTATION_KIND then Some (refused_attestation e WrongKind)
      else if verifyEvent e \<noteq> Some True then Some (refused_attestation e BadSignature)
      else parseAttestation c e)"

definition attestationFilter :: "string list \<Rightarrow> int list \<times> string list" where
  "attestationFilter pubkeys = ([ATTESTATION_KIND], pubkeys)"

subsection \<open>Selectors\<close>

text \<open>The BIP-32 path an account stands for.\<close>

definition path_of :: "PqAccount \<Rightarrow> string" where
  "path_of account =
     (case account of
        AccountIndex i \<Rightarrow> NIP06_ACCOUNT_PREFIX @ show_int i
      | AccountPath p \<Rightarrow> p
      | NotAnIndex \<Rightarrow> [])"

lemma selector_cases:
  assumes "derivationSelector a = Some s"
  shows "path_of a = NIP06_ACCOUNT_PREFIX @ s \<and> s \<noteq> [] \<and> list_all is_digit s \<or> s = ''path/'' @ path_of a"
proof (cases a)
  case (AccountIndex i)
  with assms show ?thesis
    by (auto simp: derivationSelector_def path_of_def show_int_def list_all_iff show_nat_digits split: if_splits)
next
  case (AccountPath p)
  have "starts_with q p \<Longrightarrow> p = q @ drop (length q) p" for q by (auto simp: starts_with_iff)
  with assms AccountPath show ?thesis
    by (auto simp: derivationSelector_def path_of_def Let_def split: if_splits)
qed (use assms in \<open>simp add: derivationSelector_def\<close>)

lemma selector_path: "derivationSelector a = Some s \<Longrightarrow> derivationSelector b = Some s \<Longrightarrow> path_of a = path_of b"
  using selector_cases [of a s] selector_cases [of b s] by (auto simp: char_class_defs)

lemma alg_names_differ: "ALG_KEM @ ''/'' @ s \<noteq> ALG_DSA @ ''/'' @ t"
  by (simp add: ALG_KEM_def ALG_DSA_def)

text \<open>C35: 
  Two accounts are expanded under the same text only when they stand for the same derivation
  path, and the texts of the two algorithms never meet.
\<close>
theorem derivations_are_separate:
  assumes "derivePqKeys c seed a = Some k" "derivePqKeys c seed b = Some l"
  shows "(kemInfo a = kemInfo b \<longrightarrow> path_of a = path_of b) \<and> (dsaInfo a = dsaInfo b \<longrightarrow> path_of a = path_of b)
     \<and> kemInfo a \<noteq> dsaInfo b"
proof -
  obtain s t where "derivationSelector a = Some s" "derivationSelector b = Some t"
    using assms by (auto simp: derivePqKeys_def kemInfo_def dsaInfo_def split: if_splits option.splits)
  then show ?thesis using selector_path [of a s b] alg_names_differ by (auto simp: kemInfo_def dsaInfo_def)
qed

definition toy_suite :: pq_suite where
  "toy_suite = \<lparr>kem_encapsulate = \<lambda>_. (replicate 1568 7, [9]), kem_decapsulate = \<lambda>_ _. Some [9],
     hkdf_extract = \<lambda>x. x, hkdf_expand = \<lambda>x _ _. x, aead_encrypt = \<lambda>_ _ _ pt. pt @ replicate 16 0,
     aead_decrypt = \<lambda>_ _ _ ct. Some (take (length ct - 16) ct), random_nonce = replicate 24 5,
     text_decode = decode_bytes, kem_keygen = \<lambda>s. \<lparr>publicKey = s, secretKey = s\<rparr>,
     dsa_keygen = \<lambda>s. \<lparr>publicKey = s, secretKey = s\<rparr>, dsa_sign = \<lambda>m sk. m,
     dsa_verify = \<lambda>signature m pk. Some (signature = m)\<rparr>"

lemma derivations_are_separate_witness:
  "kemInfo (AccountIndex 0) \<noteq> kemInfo (AccountIndex 1)"
proof -
  have s: "derivationSelector (AccountIndex 0) = Some ''0''" "derivationSelector (AccountIndex 1) = Some (show_nat 1)"
    by (simp_all add: derivationSelector_def show_int_def)
  obtain k l where "derivePqKeys toy_suite [1] (AccountIndex 0) = Some k" "derivePqKeys toy_suite [1] (AccountIndex 1) = Some l"
    using s by (simp add: derivePqKeys_def kemInfo_def dsaInfo_def)
  from derivations_are_separate [OF this] show ?thesis
    using show_nat_inj [of 0 1] by (auto simp: path_of_def show_int_def)
qed

subsection \<open>What an attestation proves\<close>

lemma scan_alg_length:
  "(\<forall>k t. s_kem s = Some (k, t) \<longrightarrow> length k = KEM_PUBLIC_KEY_BYTES) \<Longrightarrow>
     (\<forall>k t. s_kem (scan_alg x s) = Some (k, t) \<longrightarrow> length k = KEM_PUBLIC_KEY_BYTES)"
  by (cases "(x, s)" rule: scan_alg.cases) (auto simp: expectedBytesFor_def split: option.splits if_splits)

lemma scan_algs_length:
  "(\<forall>k t. s_kem s = Some (k, t) \<longrightarrow> length k = KEM_PUBLIC_KEY_BYTES) \<Longrightarrow>
     (\<forall>k t. s_kem (fold scan_alg xs s) = Some (k, t) \<longrightarrow> length k = KEM_PUBLIC_KEY_BYTES)"
proof (induction xs arbitrary: s)
  case (Cons x xs)
  show ?case using Cons.IH [OF scan_alg_length [OF Cons.prems]] by simp
qed simp

lemma check_pop_proven:
  assumes "check_pop c e s = Some (popValid, [])" "s_dsa s = Some (dsa, dsaB64)" "s_kem s \<noteq> None"
  shows "popValid = Some True"
  using assms by (auto simp: check_pop_def Let_def split: option.splits if_splits)

text \<open>C36: 
  An attestation that counts as usable has a key of the right size, and when it names a signature
  key that key has signed the account, both keys included; after \<open>verifyAttestation\<close> the event is
  of the right kind and its own signature verifies.
\<close>
theorem usable_attestation_is_proven:
  assumes "verifyAttestation c verifyEvent e = Some a" "at_usable a"
  shows "pq_kind e = ATTESTATION_KIND \<and> verifyEvent e = Some True
     \<and> (\<exists>kem. at_kem a = Some kem \<and> length kem = KEM_PUBLIC_KEY_BYTES)
     \<and> (at_dsa a \<noteq> None \<longrightarrow> at_popValid a = Some True) \<and> at_problems a = []"
proof -
  have k: "pq_kind e = ATTESTATION_KIND" "verifyEvent e = Some True" "parseAttestation c e = Some a"
    using assms by (auto simp: verifyAttestation_def refused_attestation_def split: if_splits)
  let ?s = "fold scan_alg (alg_tags e) \<lparr>s_kem = None, s_dsa = None, s_problems = []\<rparr>"
  from k(3) obtain popValid popProblems where p: "check_pop c e ?s = Some (popValid, popProblems)"
    by (auto simp: parseAttestation_def Let_def split: option.splits)
  with k(3) assms(2) have a: "at_kem a = map_option fst (s_kem ?s)" "at_dsa a = map_option fst (s_dsa ?s)"
    "at_popValid a = popValid" "popProblems = []" "s_kem ?s \<noteq> None" "at_problems a = []"
    by (auto simp: parseAttestation_def Let_def)
  have "\<forall>k t. s_kem ?s = Some (k, t) \<longrightarrow> length k = KEM_PUBLIC_KEY_BYTES" by (rule scan_algs_length) simp
  moreover have "s_dsa ?s \<noteq> None \<longrightarrow> popValid = Some True"
    using check_pop_proven p a(4,5) by fastforce
  ultimately show ?thesis using k a by auto
qed

lemma find_alg: "pq_tag name (a # t) \<longleftrightarrow> a = name"
  by (simp add: pq_tag_def)

lemma parse_built:
  assumes "length kem = KEM_PUBLIC_KEY_BYTES" "length dsa = DSA_PUBLIC_KEY_BYTES"
    and "\<And>m. dsa_verify c (dsa_sign c m sk) m dsa = Some True"
  shows "\<exists>a. parseAttestation c \<lparr>pq_pubkey = pubkey, pq_kind = k,
       pq_tags = buildAttestationTags c pubkey kem dsa origin sk\<rparr> = Some a
     \<and> at_kem a = Some kem \<and> at_dsa a = Some dsa \<and> at_origin a = Some origin \<and> at_popValid a = Some True
     \<and> at_usable a \<and> at_profile a = Some PQ_PROFILE"
proof -
  let ?e = "\<lparr>pq_pubkey = pubkey, pq_kind = k, pq_tags = buildAttestationTags c pubkey kem dsa origin sk\<rparr>"
  have names: "ALG_KEM \<noteq> ALG_DSA" "PQ_PROFILE \<noteq> []" by (simp_all add: ALG_KEM_def ALG_DSA_def PQ_PROFILE_def)
  have algs: "alg_tags ?e = [[''alg'', ALG_KEM, toBase64 kem], [''alg'', ALG_DSA, toBase64 dsa]]"
    by (simp add: alg_tags_def buildAttestationTags_def Let_def find_alg)
  have scan: "fold scan_alg (alg_tags ?e) \<lparr>s_kem = None, s_dsa = None, s_problems = []\<rparr> =
      \<lparr>s_kem = Some (kem, toBase64 kem), s_dsa = Some (dsa, toBase64 dsa), s_problems = []\<rparr>"
    using assms(1,2) names unfolding algs by (simp add: expectedBytesFor_def fromBase64_toBase64)
  have first: "first_value ?e ''origin'' = Some (pq_origin_name origin)"
    "first_value ?e ''seed_strength'' = (if origin = Derived then Some ''256'' else None)"
    "first_value ?e ''v'' = Some PQ_PROFILE"
    using names by (cases origin; simp add: first_value_def buildAttestationTags_def Let_def find_alg)+
  have pop: "find (\<lambda>t. pq_tag ''pop'' t \<and> 3 \<le> length t) (pq_tags ?e) =
      Some [''pop'', ALG_DSA, toBase64 (signPop c (popMessage pubkey (toBase64 kem) (toBase64 dsa)) sk)]"
    by (simp add: buildAttestationTags_def Let_def find_alg)
  have "check_pop c ?e \<lparr>s_kem = Some (kem, toBase64 kem), s_dsa = Some (dsa, toBase64 dsa), s_problems = []\<rparr>
      = Some (Some True, [])"
    using assms(3) pop by (simp add: check_pop_def fromBase64_toBase64 signPop_def verifyPop_def Let_def)
  moreover have "alg_tags ?e \<noteq> []" by (simp add: algs)
  moreover have "attested_origin ?e = Some origin" "seed_problems ?e = []"
    using first by (cases origin; simp add: attested_origin_def seed_problems_def)+
  ultimately show ?thesis using first(3) unfolding parseAttestation_def Let_def scan by simp
qed

text \<open>C39: C37: 
  What an account publishes is what its correspondents read: a built attestation parses back to
  the same keys and provenance, with a proof that verifies, and is usable.
\<close>
theorem built_attestation_is_usable:
  assumes "length kem = KEM_PUBLIC_KEY_BYTES" "length dsa = DSA_PUBLIC_KEY_BYTES"
    and "\<And>m. dsa_verify c (dsa_sign c m sk) m dsa = Some True"
    and "verifyEvent \<lparr>pq_pubkey = pubkey, pq_kind = ATTESTATION_KIND,
       pq_tags = buildAttestationTags c pubkey kem dsa origin sk\<rparr> = Some True"
  shows "\<exists>a. verifyAttestation c verifyEvent \<lparr>pq_pubkey = pubkey, pq_kind = ATTESTATION_KIND,
       pq_tags = buildAttestationTags c pubkey kem dsa origin sk\<rparr> = Some a
     \<and> at_kem a = Some kem \<and> at_dsa a = Some dsa \<and> at_origin a = Some origin \<and> at_popValid a = Some True \<and> at_usable a"
  using parse_built [OF assms(1-3), of pubkey ATTESTATION_KIND origin] assms(4) by (auto simp: verifyAttestation_def)

lemma toy_signs: "dsa_verify toy_suite (dsa_sign toy_suite m sk) m dsa = Some True"
  by (simp add: toy_suite_def)

lemma built_attestation_is_usable_witness:
  "\<exists>a. verifyAttestation toy_suite (\<lambda>_. Some True) \<lparr>pq_pubkey = ''aa'', pq_kind = ATTESTATION_KIND,
       pq_tags = buildAttestationTags toy_suite ''aa'' (replicate 1568 1) (replicate 2592 2) Derived [3]\<rparr> = Some a
     \<and> at_usable a"
  using built_attestation_is_usable [of "replicate 1568 1" "replicate 2592 2" toy_suite "[3]" "\<lambda>_. Some True" "''aa''" Derived]
    toy_signs by (auto simp: KEM_PUBLIC_KEY_BYTES_def DSA_PUBLIC_KEY_BYTES_def)

lemma usable_attestation_is_proven_witness:
  "\<exists>a. verifyAttestation toy_suite (\<lambda>_. Some True) \<lparr>pq_pubkey = ''aa'', pq_kind = ATTESTATION_KIND,
       pq_tags = buildAttestationTags toy_suite ''aa'' (replicate 1568 1) (replicate 2592 2) Derived [3]\<rparr> = Some a
     \<and> at_problems a = []"
proof -
  let ?e = "\<lparr>pq_pubkey = ''aa'', pq_kind = ATTESTATION_KIND,
       pq_tags = buildAttestationTags toy_suite ''aa'' (replicate 1568 1) (replicate 2592 2) Derived [3]\<rparr>"
  obtain a where "parseAttestation toy_suite ?e = Some a" "at_usable a"
    using parse_built [of "replicate 1568 1" "replicate 2592 2" toy_suite "[3]" "''aa''" ATTESTATION_KIND Derived] toy_signs
    by (auto simp: KEM_PUBLIC_KEY_BYTES_def DSA_PUBLIC_KEY_BYTES_def)
  then have "verifyAttestation toy_suite (\<lambda>_. Some True) ?e = Some a" "at_usable a" by (simp_all add: verifyAttestation_def)
  with usable_attestation_is_proven [OF this] show ?thesis by blast
qed

text \<open>C38: 
  An attestation that names no signature key has nothing to prove its encryption key with, and is
  usable all the same: whoever signs the event can advertise any key.
\<close>
theorem unproven_attestation_is_usable:
  assumes "length kem = KEM_PUBLIC_KEY_BYTES"
  shows "\<exists>a. parseAttestation c \<lparr>pq_pubkey = pubkey, pq_kind = k, pq_tags = [[''alg'', ALG_KEM, toBase64 kem]]\<rparr> = Some a
     \<and> at_usable a \<and> at_kem a = Some kem \<and> at_popValid a = None"
  using assms
  by (simp add: parseAttestation_def Let_def alg_tags_def find_alg expectedBytesFor_def fromBase64_toBase64
      seed_problems_def attested_origin_def first_value_def check_pop_def)

lemma unproven_attestation_is_usable_witness:
  "\<exists>a. parseAttestation toy_suite \<lparr>pq_pubkey = ''aa'', pq_kind = 0,
       pq_tags = [[''alg'', ALG_KEM, toBase64 (replicate 1568 1)]]\<rparr> = Some a \<and> at_usable a"
  using unproven_attestation_is_usable [of "replicate 1568 1" toy_suite "''aa''" 0] by (auto simp: KEM_PUBLIC_KEY_BYTES_def)

text \<open>C39: 
  A proof that is not base64 is not reported: the parser throws out of its check, and so does the
  whole verification, for an event whose signature is good.
\<close>
theorem malformed_proof_throws:
  assumes "length kem = KEM_PUBLIC_KEY_BYTES" "length dsa = DSA_PUBLIC_KEY_BYTES" "fromBase64 text = None"
    and "pq_tags e = [[''alg'', ALG_KEM, toBase64 kem], [''alg'', ALG_DSA, toBase64 dsa], [''pop'', ALG_DSA, text]]"
    and "pq_kind e = ATTESTATION_KIND" "verifyEvent e = Some True"
  shows "verifyAttestation c verifyEvent e = None"
proof -
  have n: "ALG_KEM \<noteq> ALG_DSA" by (simp add: ALG_KEM_def ALG_DSA_def)
  show ?thesis
    using assms n
    by (simp add: verifyAttestation_def parseAttestation_def Let_def alg_tags_def find_alg expectedBytesFor_def
        fromBase64_toBase64 check_pop_def)
qed

lemma malformed_proof_throws_witness:
  "verifyAttestation toy_suite (\<lambda>_. Some True) \<lparr>pq_pubkey = ''aa'', pq_kind = 10203, pq_tags =
     [[''alg'', ALG_KEM, toBase64 (replicate 1568 1)], [''alg'', ALG_DSA, toBase64 (replicate 2592 2)],
      [''pop'', ALG_DSA, ''!'']]\<rparr> = None"
proof (rule malformed_proof_throws)
  show "fromBase64 ''!'' = None" by code_simp
qed (simp_all add: KEM_PUBLIC_KEY_BYTES_def DSA_PUBLIC_KEY_BYTES_def ATTESTATION_KIND_def)

end
