(* ===== verification/Effects.thy ===== *)
theory Effects
  imports Prelude
begin

section \<open>Programs that wait\<close>

text \<open>
  An asynchronous method of the code is a tree: it has returned, it has thrown, it reads or
  writes the fields of its object, it asks a port and goes on with the answer (\<open>Sync\<close>, nothing
  runs in between), or it awaits one (\<open>Await\<close>, where other calls of the object run first).
  Ports are not modelled: an answer is whatever a script says, and so is what runs while the
  method waits. A property holds when it holds for every script.
\<close>

datatype ('s, 'c, 'r, 'e, 'a) prog =
  Ret 'a
| Throw 'e
| Get "'s \<Rightarrow> ('s, 'c, 'r, 'e, 'a) prog"
| Put "'s \<Rightarrow> 's" "('s, 'c, 'r, 'e, 'a) prog"
| Sync 'c "'r \<Rightarrow> ('s, 'c, 'r, 'e, 'a) prog"
| Await 'c "'r \<Rightarrow> ('s, 'c, 'r, 'e, 'a) prog"

primrec bindP :: "('s, 'c, 'r, 'e, 'a) prog \<Rightarrow> ('a \<Rightarrow> ('s, 'c, 'r, 'e, 'b) prog) \<Rightarrow> ('s, 'c, 'r, 'e, 'b) prog" where
  "bindP (Ret a) f = f a"
| "bindP (Throw e) f = Throw e"
| "bindP (Get k) f = Get (\<lambda>s. bindP (k s) f)"
| "bindP (Put g p) f = Put g (bindP p f)"
| "bindP (Sync c k) f = Sync c (\<lambda>r. bindP (k r) f)"
| "bindP (Await c k) f = Await c (\<lambda>r. bindP (k r) f)"

text \<open>What a program did, as a value: the model of \<open>try\<close>.\<close>

primrec attempt :: "('s, 'c, 'r, 'e, 'a) prog \<Rightarrow> ('s, 'c, 'r, 'd, 'e + 'a) prog" where
  "attempt (Ret a) = Ret (Inr a)"
| "attempt (Throw e) = Ret (Inl e)"
| "attempt (Get k) = Get (\<lambda>s. attempt (k s))"
| "attempt (Put g p) = Put g (attempt p)"
| "attempt (Sync c k) = Sync c (\<lambda>r. attempt (k r))"
| "attempt (Await c k) = Await c (\<lambda>r. attempt (k r))"

definition seqP :: "('s, 'c, 'r, 'e, 'b) prog \<Rightarrow> ('s, 'c, 'r, 'e, 'a) prog \<Rightarrow> ('s, 'c, 'r, 'e, 'a) prog" where
  "seqP p q = bindP p (\<lambda>_. q)"

definition catchP :: "('s, 'c, 'r, 'e, 'a) prog \<Rightarrow> ('e \<Rightarrow> ('s, 'c, 'r, 'd, 'a) prog) \<Rightarrow> ('s, 'c, 'r, 'd, 'a) prog" where
  "catchP p f = bindP (attempt p) (\<lambda>x. case x of Inl e \<Rightarrow> f e | Inr a \<Rightarrow> Ret a)"

definition whenP :: "bool \<Rightarrow> ('s, 'c, 'r, 'e, unit) prog \<Rightarrow> ('s, 'c, 'r, 'e, unit) prog" where
  "whenP b p = (if b then p else Ret ())"

definition refuseIf :: "bool \<Rightarrow> 'e \<Rightarrow> ('s, 'c, 'r, 'e, unit) prog" where
  "refuseIf b e = (if b then Throw e else Ret ())"

subsection \<open>Runs\<close>

text \<open>
  A script answers the calls one after the other, each with what the environment does to the
  object before the answer of an awaited call arrives. The history has the last call first. A
  script that is too short leaves the program waiting for the call it names.
\<close>

type_synonym ('c, 'r) history = "('c \<times> 'r) list"

datatype ('c, 'e, 'a) result = Finished "'e + 'a" | Waiting 'c

primrec exec ::
  "('o \<Rightarrow> 's \<Rightarrow> 's) \<Rightarrow> ('s, 'c, 'r, 'e, 'a) prog \<Rightarrow> 's \<Rightarrow> ('o list \<times> 'r) list \<Rightarrow> ('c, 'r) history
     \<Rightarrow> ('c, 'e, 'a) result \<times> 's \<times> ('c, 'r) history" where
  "exec host (Ret a) s script h = (Finished (Inr a), s, h)"
| "exec host (Throw e) s script h = (Finished (Inl e), s, h)"
| "exec host (Get k) s script h = exec host (k s) s script h"
| "exec host (Put g p) s script h = exec host p (g s) script h"
| "exec host (Sync c k) s script h =
     (case script of [] \<Rightarrow> (Waiting c, s, h) | (_, r) # rest \<Rightarrow> exec host (k r) s rest ((c, r) # h))"
| "exec host (Await c k) s script h =
     (case script of [] \<Rightarrow> (Waiting c, s, h) | (ops, r) # rest \<Rightarrow> exec host (k r) (fold host ops s) rest ((c, r) # h))"

text \<open>Every call of a history was made where it was allowed.\<close>

fun obeys :: "(('c, 'r) history \<Rightarrow> 'c \<Rightarrow> bool) \<Rightarrow> ('c, 'r) history \<Rightarrow> bool" where
  "obeys P [] \<longleftrightarrow> True"
| "obeys P ((c, r) # h) \<longleftrightarrow> P h c \<and> obeys P h"

lemma obeys_conj: "obeys (\<lambda>h c. P h c \<and> Q h c) h \<longleftrightarrow> obeys P h \<and> obeys Q h"
  by (induction h) auto

lemma obeys_split: "obeys P (new @ (c, r) # h) \<Longrightarrow> P h c"
  by (induction new) auto

subsection \<open>Weakest preconditions\<close>

text \<open>
  \<open>wp E P p Q s h\<close>: from fields \<open>s\<close> and history \<open>h\<close>, with an environment that stays within \<open>E\<close>
  and any answers, every call of \<open>p\<close> is allowed by \<open>P\<close> and what \<open>p\<close> ends with satisfies \<open>Q\<close>.
\<close>

primrec wp ::
  "('s \<Rightarrow> 's \<Rightarrow> bool) \<Rightarrow> (('c, 'r) history \<Rightarrow> 'c \<Rightarrow> bool) \<Rightarrow> ('s, 'c, 'r, 'e, 'a) prog
     \<Rightarrow> ('e + 'a \<Rightarrow> 's \<Rightarrow> ('c, 'r) history \<Rightarrow> bool) \<Rightarrow> 's \<Rightarrow> ('c, 'r) history \<Rightarrow> bool" where
  "wp E P (Ret a) Q s h = Q (Inr a) s h"
| "wp E P (Throw e) Q s h = Q (Inl e) s h"
| "wp E P (Get k) Q s h = wp E P (k s) Q s h"
| "wp E P (Put g p) Q s h = wp E P p Q (g s) h"
| "wp E P (Sync c k) Q s h = (P h c \<and> (\<forall>r. wp E P (k r) Q s ((c, r) # h)))"
| "wp E P (Await c k) Q s h = (P h c \<and> (\<forall>r s'. E s s' \<longrightarrow> wp E P (k r) Q s' ((c, r) # h)))"

lemma wp_mono:
  assumes "wp E P p Q s h" "\<And>x s h. Q x s h \<Longrightarrow> R x s h"
  shows "wp E P p R s h"
  using assms(1) by (induction p arbitrary: s h) (use assms(2) in auto)

lemma wp_calls_mono:
  assumes "wp E P p Q s h" "\<And>h c. P h c \<Longrightarrow> P' h c"
  shows "wp E P' p Q s h"
  using assms(1) by (induction p arbitrary: s h) (use assms(2) in auto)

lemma wp_conj:
  "wp E P p Q s h \<Longrightarrow> wp E P' p R s h \<Longrightarrow> wp E (\<lambda>h c. P h c \<and> P' h c) p (\<lambda>x s h. Q x s h \<and> R x s h) s h"
  by (induction p arbitrary: s h) auto

lemma wp_bind:
  "wp E P (bindP p f) Q s h \<longleftrightarrow>
     wp E P p (\<lambda>x s h. case x of Inl e \<Rightarrow> Q (Inl e) s h | Inr a \<Rightarrow> wp E P (f a) Q s h) s h"
  by (induction p arbitrary: s h) auto

lemma wp_attempt:
  "wp E P (attempt p) Q s h \<longleftrightarrow> wp E P p (\<lambda>x. Q (Inr x)) s h"
  by (induction p arbitrary: s h) auto

lemma wp_bindI:
  assumes "wp E P p R s h"
    and "\<And>a s h. R (Inr a) s h \<Longrightarrow> wp E P (f a) Q s h"
    and "\<And>e s h. R (Inl e) s h \<Longrightarrow> Q (Inl e) s h"
  shows "wp E P (bindP p f) Q s h"
  unfolding wp_bind by (rule wp_mono [OF assms(1)]) (auto split: sum.split intro: assms(2,3))

lemma wp_seqI:
  assumes "wp E P p R s h"
    and "\<And>a s h. R (Inr a) s h \<Longrightarrow> wp E P q Q s h"
    and "\<And>e s h. R (Inl e) s h \<Longrightarrow> Q (Inl e) s h"
  shows "wp E P (seqP p q) Q s h"
  unfolding seqP_def using assms by (rule wp_bindI)

lemma wp_catchI:
  assumes "wp E P p R s h"
    and "\<And>a s h. R (Inr a) s h \<Longrightarrow> Q (Inr a) s h"
    and "\<And>e s h. R (Inl e) s h \<Longrightarrow> wp E P (f e) Q s h"
  shows "wp E P (catchP p f) Q s h"
  unfolding catchP_def wp_bind wp_attempt
  by (rule wp_mono [OF assms(1)]) (auto split: sum.split intro: assms(2,3))

lemma wp_refuseIf: "wp E P (refuseIf b e) Q s h \<longleftrightarrow> (if b then Q (Inl e) s h else Q (Inr ()) s h)"
  by (simp add: refuseIf_def)

lemma wp_whenP: "wp E P (whenP b p) Q s h \<longleftrightarrow> (if b then wp E P p Q s h else Q (Inr ()) s h)"
  by (simp add: whenP_def)

text \<open>A fact about the history that no call of the program can spoil is kept by it.\<close>

primrec only :: "('c \<Rightarrow> bool) \<Rightarrow> ('s, 'c, 'r, 'e, 'a) prog \<Rightarrow> bool" where
  "only C (Ret a) = True"
| "only C (Throw e) = True"
| "only C (Get k) = (\<forall>s. only C (k s))"
| "only C (Put g p) = only C p"
| "only C (Sync c k) = (C c \<and> (\<forall>r. only C (k r)))"
| "only C (Await c k) = (C c \<and> (\<forall>r. only C (k r)))"

named_theorems only_intros \<open>the calls a program can make\<close>

lemma only_bind [only_intros]: "only C p \<Longrightarrow> (\<And>a. only C (f a)) \<Longrightarrow> only C (bindP p f)"
  by (induction p) auto

lemma only_seq [only_intros]: "only C p \<Longrightarrow> only C q \<Longrightarrow> only C (seqP p q)"
  unfolding seqP_def by (rule only_bind)

lemma only_attempt [only_intros]: "only C p \<Longrightarrow> only C (attempt p)"
  by (induction p) auto

lemma only_catch [only_intros]: "only C p \<Longrightarrow> (\<And>e. only C (f e)) \<Longrightarrow> only C (catchP p f)"
  unfolding catchP_def by (intro only_bind only_attempt) (auto split: sum.split)

lemma only_refuseIf [only_intros]: "only C (refuseIf b e)"
  by (simp add: refuseIf_def)

lemma only_whenP [only_intros]: "(b \<Longrightarrow> only C p) \<Longrightarrow> only C (whenP b p)"
  by (simp add: whenP_def)

lemma only_mono: "only C p \<Longrightarrow> (\<And>c. C c \<Longrightarrow> D c) \<Longrightarrow> only D p"
  by (induction p) auto

lemma wp_only:
  assumes "only C p" "\<And>h c. C c \<Longrightarrow> I h \<Longrightarrow> P h c" "\<And>h c r. C c \<Longrightarrow> I h \<Longrightarrow> I ((c, r) # h)" "I h"
  shows "wp E P p (\<lambda>_ _ h'. I h') s h"
  using assms(1,4) by (induction p arbitrary: s h) (use assms(2,3) in auto)

subsection \<open>Conditions that do not look at the fields\<close>

text \<open>
  Where a condition depends on the history alone, the fields may be anything at every step:
  \<open>ok P p R h\<close> says that from history \<open>h\<close> every call of \<open>p\<close> is allowed and what it returns, if it
  returns, satisfies \<open>R\<close>.
\<close>

primrec ok ::
  "(('c, 'r) history \<Rightarrow> 'c \<Rightarrow> bool) \<Rightarrow> ('s, 'c, 'r, 'e, 'a) prog \<Rightarrow> ('a \<Rightarrow> ('c, 'r) history \<Rightarrow> bool)
     \<Rightarrow> ('c, 'r) history \<Rightarrow> bool" where
  "ok P (Ret a) R h = R a h"
| "ok P (Throw e) R h = True"
| "ok P (Get k) R h = (\<forall>s. ok P (k s) R h)"
| "ok P (Put g p) R h = ok P p R h"
| "ok P (Sync c k) R h = (P h c \<and> (\<forall>r. ok P (k r) R ((c, r) # h)))"
| "ok P (Await c k) R h = (P h c \<and> (\<forall>r. ok P (k r) R ((c, r) # h)))"

lemma ok_wp: "ok P p R h \<Longrightarrow> wp E P p (\<lambda>x _ h'. \<forall>a. x = Inr a \<longrightarrow> R a h') s h"
  by (induction p arbitrary: s h) auto

lemma ok_mono: "ok P p R h \<Longrightarrow> (\<And>a h. R a h \<Longrightarrow> R' a h) \<Longrightarrow> ok P p R' h"
  by (induction p arbitrary: h) auto

lemma ok_bind: "ok P (bindP p f) R h \<longleftrightarrow> ok P p (\<lambda>a. ok P (f a) R) h"
  by (induction p arbitrary: h) auto

lemma ok_bindI:
  assumes "ok P p R h" "\<And>a h. R a h \<Longrightarrow> ok P (f a) Q h"
  shows "ok P (bindP p f) Q h"
  unfolding ok_bind by (rule ok_mono [OF assms(1)]) (rule assms(2))

lemma ok_seqI:
  assumes "ok P p R h" "\<And>a h. R a h \<Longrightarrow> ok P q Q h"
  shows "ok P (seqP p q) Q h"
  unfolding seqP_def using assms by (rule ok_bindI)

lemma ok_refuseIf [simp]: "ok P (refuseIf b e) R h \<longleftrightarrow> (\<not> b \<longrightarrow> R () h)"
  by (simp add: refuseIf_def)

lemma ok_whenP: "(b \<Longrightarrow> ok P p R h) \<Longrightarrow> (\<not> b \<Longrightarrow> R () h) \<Longrightarrow> ok P (whenP b p) R h"
  by (simp add: whenP_def)

lemma ok_conj: "ok P p R h \<Longrightarrow> ok P p R' h \<Longrightarrow> ok P p (\<lambda>a h. R a h \<and> R' a h) h"
  by (induction p arbitrary: h) auto

lemma ok_only:
  assumes "only C p" "\<And>h c. C c \<Longrightarrow> I h \<Longrightarrow> P h c" "\<And>h c r. C c \<Longrightarrow> I h \<Longrightarrow> I ((c, r) # h)" "I h"
  shows "ok P p (\<lambda>_. I) h"
  using assms(1,4) by (induction p arbitrary: h) (use assms(2,3) in auto)

text \<open>Calls that are allowed anywhere need no condition, however the program ends.\<close>

lemma ok_free:
  assumes "only C p" "\<And>h c. C c \<Longrightarrow> P h c"
  shows "ok P p (\<lambda>_ _. True) h"
  using ok_only [OF assms(1), where I = "\<lambda>_. True" and P = P] assms(2) by simp

primrec yields :: "('a \<Rightarrow> bool) \<Rightarrow> ('s, 'c, 'r, 'e, 'a) prog \<Rightarrow> bool" where
  "yields R (Ret a) = R a"
| "yields R (Throw e) = True"
| "yields R (Get k) = (\<forall>s. yields R (k s))"
| "yields R (Put g p) = yields R p"
| "yields R (Sync c k) = (\<forall>r. yields R (k r))"
| "yields R (Await c k) = (\<forall>r. yields R (k r))"

lemma yields_bind: "yields R (bindP p f) \<longleftrightarrow> yields (\<lambda>a. yields R (f a)) p"
  by (induction p) auto

lemma yields_mono: "yields R p \<Longrightarrow> (\<And>a. R a \<Longrightarrow> R' a) \<Longrightarrow> yields R' p"
  by (induction p) auto

lemma yields_True [simp]: "yields (\<lambda>_. True) p"
  by (induction p) auto

lemma yields_attempt: "yields R (attempt p) \<Longrightarrow> yields (\<lambda>a. R (Inr a)) p"
  by (induction p) auto

lemma yields_attemptI: "yields (\<lambda>a. R (Inr a)) p \<Longrightarrow> (\<And>e. R (Inl e)) \<Longrightarrow> yields R (attempt p)"
  by (induction p) auto

lemma ok_yields: "ok P p R h \<Longrightarrow> yields R' p \<Longrightarrow> ok P p (\<lambda>a h. R a h \<and> R' a) h"
  by (induction p arbitrary: h) auto

text \<open>A handler that asks only what is allowed anywhere, and throws.\<close>

definition rethrows :: "('c \<Rightarrow> bool) \<Rightarrow> ('e \<Rightarrow> ('s, 'c, 'r, 'd, 'a) prog) \<Rightarrow> bool" where
  "rethrows C f \<longleftrightarrow> (\<forall>e. only C (f e) \<and> yields (\<lambda>_. False) (f e))"

lemma ok_rethrown:
  assumes "only C p" "yields (\<lambda>_. False) p" "\<And>h c. C c \<Longrightarrow> P h c"
  shows "ok P p R h"
proof (rule ok_mono)
  show "ok P p (\<lambda>a h. True \<and> False) h"
    by (rule ok_yields [OF ok_free [OF assms(1,3)] assms(2)])
qed simp

lemma ok_attempt:
  assumes "ok P p R h" "\<And>h e. Q (Inl e) h" "\<And>a h. R a h \<Longrightarrow> Q (Inr a) h"
  shows "ok P (attempt p) Q h"
  using assms(1) by (induction p arbitrary: h) (use assms(2,3) in auto)

lemma ok_catchI:
  assumes "ok P p R h" "rethrows C f" "\<And>h c. C c \<Longrightarrow> P h c"
  shows "ok P (catchP p f) R h"
  unfolding catchP_def
proof (rule ok_bindI)
  show "ok P (attempt p) (\<lambda>x h. \<forall>a. x = Inr a \<longrightarrow> R a h) h"
    by (rule ok_attempt [OF assms(1)]) auto
  show "ok P (case x of Inl e \<Rightarrow> f e | Inr a \<Rightarrow> Ret a) R h" if "\<forall>a. x = Inr a \<longrightarrow> R a h" for x h
    using that assms(2,3) by (auto simp: rethrows_def split: sum.split intro: ok_rethrown)
qed

subsection \<open>What a weakest precondition says about runs\<close>

locale environment =
  fixes host :: "'o \<Rightarrow> 's \<Rightarrow> 's" and E :: "'s \<Rightarrow> 's \<Rightarrow> bool"
  assumes stays: "E s s" and moves: "E s s' \<Longrightarrow> E s (host op s')"
begin

lemma interference: "E s (fold host ops s)"
proof -
  have "E s s' \<Longrightarrow> E s (fold host ops s')" for s'
    by (induction ops arbitrary: s') (auto intro: moves)
  then show ?thesis using stays .
qed

theorem runs_obey:
  assumes "wp E P p Q s h" "obeys P h" "exec host p s script h = (res, s', h')"
  shows "obeys P h' \<and> (case res of Finished x \<Rightarrow> Q x s' h' | Waiting c \<Rightarrow> P h' c)"
  using assms
proof (induction p arbitrary: s h script)
  case (Sync c k)
  show ?case
  proof (cases script)
    case (Cons x rest)
    obtain ops r where x: "x = (ops, r)" by (cases x)
    have "wp E P (k r) Q s ((c, r) # h)" using Sync.prems(1) by simp
    from Sync.IH [OF rangeI this, of rest] show ?thesis using Sync.prems x Cons by simp
  qed (use Sync.prems in auto)
next
  case (Await c k)
  show ?case
  proof (cases script)
    case (Cons x rest)
    obtain ops r where x: "x = (ops, r)" by (cases x)
    have "wp E P (k r) Q (fold host ops s) ((c, r) # h)"
      using Await.prems(1) interference by simp
    from Await.IH [OF rangeI this, of rest] show ?thesis using Await.prems x Cons by simp
  qed (use Await.prems in auto)
next
  case (Get k)
  from Get.IH [OF rangeI] Get.prems show ?case by simp
qed auto

end

end
