(* ===== verification/Sign_Types.thy ===== *)
theory Sign_Types
  imports Perm_Auth
begin

section \<open>The request contract of the signing pipeline\<close>

text \<open>
  The data of \<^verbatim>\<open>packages/identity/src/signing\<close>: \<open>types.ts\<close> (requests, validated and prepared
  parameters, batches, decisions, activity), \<open>errors.ts\<close>, the numbers of \<open>constants.ts\<close>, and the
  account record of \<^verbatim>\<open>packages/identity/src/accounts/types.ts\<close> without its display fields. An optional property is an
  \<open>option\<close>. A failure that is not a \<open>SignerError\<close> keeps its text, as \<open>errorMessage\<close> reads it.
\<close>

subsection \<open>Errors\<close>

datatype signer_error_code =
  Invalid_request | Permission_denied | Rejected | Too_many_pending | Timed_out | Account_switched
| Author_mismatch | Vault_locked | No_account | Unsupported | Shutdown | Operation_failed | Internal

record signer_error =
  err_code :: signer_error_code
  err_message :: string

definition SignerError :: "signer_error_code \<Rightarrow> string \<Rightarrow> signer_error" where
  "SignerError c m = \<lparr>err_code = c, err_message = m\<rparr>"

text \<open>Where a failure of the signing step came from.\<close>

datatype failure_source = FromVault | FromCallback

text \<open>What can be thrown inside the pipeline.\<close>

datatype failure =
  Signer signer_error
| ExecuteFailure string failure_source bool
| DeniedGrant string
| Foreign string

fun errorMessage :: "failure \<Rightarrow> string" where
  "errorMessage (Signer e) = err_message e"
| "errorMessage (ExecuteFailure cause source locked) = cause"
| "errorMessage (DeniedGrant m) = m"
| "errorMessage (Foreign m) = m"

subsection \<open>Constants\<close>

definition MAX_PENDING_PER_ORIGIN :: nat where "MAX_PENDING_PER_ORIGIN = 5"

definition GET_PUBLIC_KEY_COOLDOWN_MS :: int where "GET_PUBLIC_KEY_COOLDOWN_MS = 60000"

definition MAX_IN_FLIGHT_PER_ORIGIN :: nat where "MAX_IN_FLIGHT_PER_ORIGIN = 64"

definition MAX_IN_FLIGHT_GLOBAL :: nat where "MAX_IN_FLIGHT_GLOBAL = 256"

definition MAX_REQUEST_ID_LENGTH :: nat where "MAX_REQUEST_ID_LENGTH = 256"

definition MAX_ORIGIN_IDENTIFIER_LENGTH :: nat where "MAX_ORIGIN_IDENTIFIER_LENGTH = 512"

definition MAX_ORIGIN_DISPLAY_NAME_LENGTH :: nat where "MAX_ORIGIN_DISPLAY_NAME_LENGTH = 128"

definition MAX_ORIGIN_ICON_LENGTH :: nat where "MAX_ORIGIN_ICON_LENGTH = 2048"

definition MAX_EVENT_BYTES :: nat where "MAX_EVENT_BYTES = 1024 * 1024"

definition MAX_EVENT_TAGS :: nat where "MAX_EVENT_TAGS = 10000"

definition MAX_TAG_VALUES :: nat where "MAX_TAG_VALUES = 1024"

definition MAX_CRYPTO_PLAINTEXT_BYTES :: nat where "MAX_CRYPTO_PLAINTEXT_BYTES = 65535"

definition MAX_CRYPTO_CIPHERTEXT_LENGTH :: nat where "MAX_CRYPTO_CIPHERTEXT_LENGTH = 131072"

definition RECIPIENT_KEM_KEY_LENGTH :: nat where "RECIPIENT_KEM_KEY_LENGTH = 2092"

definition MAX_BATCH_ITEMS :: nat where "MAX_BATCH_ITEMS = 64"

definition MAX_BATCH_BYTES :: nat where "MAX_BATCH_BYTES = MAX_EVENT_BYTES"

definition PQC_KIND :: int where "PQC_KIND = 10203"

definition AUTHENTICATION_SIGN_KINDS :: "int list" where
  "AUTHENTICATION_SIGN_KINDS = [NIP42_KIND, NIP98_KIND]"

lemmas size_limits =
  MAX_REQUEST_ID_LENGTH_def MAX_ORIGIN_IDENTIFIER_LENGTH_def MAX_ORIGIN_DISPLAY_NAME_LENGTH_def
  MAX_ORIGIN_ICON_LENGTH_def MAX_EVENT_BYTES_def MAX_EVENT_TAGS_def MAX_TAG_VALUES_def
  MAX_CRYPTO_PLAINTEXT_BYTES_def MAX_CRYPTO_CIPHERTEXT_LENGTH_def RECIPIENT_KEM_KEY_LENGTH_def
  MAX_BATCH_ITEMS_def MAX_BATCH_BYTES_def

subsection \<open>Requests\<close>

datatype SignerMethod =
  GetPublicKey | SignEvent | GetRelays | Nip04Encrypt | Nip04Decrypt | Nip44Encrypt | Nip44Decrypt
| SignPqAttestation

fun method_name :: "SignerMethod \<Rightarrow> string" where
  "method_name GetPublicKey = ''getPublicKey''"
| "method_name SignEvent = ''signEvent''"
| "method_name GetRelays = ''getRelays''"
| "method_name Nip04Encrypt = ''nip04Encrypt''"
| "method_name Nip04Decrypt = ''nip04Decrypt''"
| "method_name Nip44Encrypt = ''nip44Encrypt''"
| "method_name Nip44Decrypt = ''nip44Decrypt''"
| "method_name SignPqAttestation = ''signPqAttestation''"

definition SIGNER_METHODS :: "SignerMethod list" where
  "SIGNER_METHODS = [GetPublicKey, SignEvent, GetRelays, Nip04Encrypt, Nip04Decrypt, Nip44Encrypt,
     Nip44Decrypt, SignPqAttestation]"

definition KEY_METHODS :: "SignerMethod list" where
  "KEY_METHODS = [SignEvent, Nip04Encrypt, Nip04Decrypt, Nip44Encrypt, Nip44Decrypt, SignPqAttestation]"

datatype origin_kind = Web | Nip46 | Nip55 | Lan | Local

fun origin_kind_name :: "origin_kind \<Rightarrow> string" where
  "origin_kind_name Web = ''web''"
| "origin_kind_name Nip46 = ''nip46''"
| "origin_kind_name Nip55 = ''nip55''"
| "origin_kind_name Lan = ''lan''"
| "origin_kind_name Local = ''local''"

definition ORIGIN_KINDS :: "origin_kind list" where
  "ORIGIN_KINDS = [Web, Nip46, Nip55, Lan, Local]"

record RequestOrigin =
  o_kind :: origin_kind
  o_identifier :: string
  o_displayName :: "string option"
  o_icon :: "string option"

record EventTemplateInput =
  t_kind :: int
  t_content :: string
  t_tags :: "string list list"
  t_created_at :: "int option"
  t_pubkey :: "string option"

datatype encrypt_scheme = Classic | Pq string

datatype decrypt_scheme = ClassicPayload | PqHybrid | PqUnreadable

datatype ValidatedParams =
  P_getPublicKey
| P_getRelays
| P_signEvent EventTemplateInput
| P_nip04Encrypt string string
| P_nip44Encrypt string string encrypt_scheme
| P_nip04Decrypt string string
| P_nip44Decrypt string string decrypt_scheme
| P_signPqAttestation

text \<open>
  \<open>PreparedParams\<close>: validated parameters, except that an attestation carries the event that was
  built for it.
\<close>

datatype PreparedParams = Given ValidatedParams | Attestation EventTemplateInput

fun params_method :: "ValidatedParams \<Rightarrow> SignerMethod" where
  "params_method P_getPublicKey = GetPublicKey"
| "params_method P_getRelays = GetRelays"
| "params_method (P_signEvent _) = SignEvent"
| "params_method (P_nip04Encrypt _ _) = Nip04Encrypt"
| "params_method (P_nip44Encrypt _ _ _) = Nip44Encrypt"
| "params_method (P_nip04Decrypt _ _) = Nip04Decrypt"
| "params_method (P_nip44Decrypt _ _ _) = Nip44Decrypt"
| "params_method P_signPqAttestation = SignPqAttestation"

fun prepared_method :: "PreparedParams \<Rightarrow> SignerMethod" where
  "prepared_method (Given p) = params_method p"
| "prepared_method (Attestation _) = SignPqAttestation"

text \<open>The parameters as the frozen request carries them.\<close>

datatype wire_params =
  NoParams
| EventParams EventTemplateInput
| EncryptParams string string "string option"
| DecryptParams string string

text \<open>\<open>receivedAt\<close> is a finite number, which may have a fraction.\<close>

datatype js_number = Whole int | Fraction | NotFinite

record SignerRequest =
  r_id :: string
  r_origin :: RequestOrigin
  r_method :: SignerMethod
  r_params :: wire_params
  r_receivedAt :: js_number

record ValidatedRequest =
  v_request :: SignerRequest
  v_params :: ValidatedParams

record SignerBatchItem =
  i_id :: string
  i_method :: SignerMethod
  i_params :: wire_params

record SignerBatchRequest =
  b_id :: string
  b_origin :: RequestOrigin
  b_items :: "SignerBatchItem list"
  b_receivedAt :: js_number

record ValidatedBatchItem =
  vi_id :: string
  vi_params :: ValidatedParams

record ValidatedBatch =
  vb_request :: SignerBatchRequest
  vb_items :: "ValidatedBatchItem list"

subsection \<open>Accounts, pending entries, decisions\<close>

datatype AccountType = Generated | NsecAccount | NpubAccount | Nip46Account | External

record SafeAccount =
  a_id :: string
  a_type :: AccountType
  a_pubkey :: string
  a_readOnly :: bool
  a_derivationPath :: "string option"
  a_derivationIndex :: "int option"

datatype PendingKind = ApprovalEntry | UnlockEntry | RemoteEntry

fun pending_kind_name :: "PendingKind \<Rightarrow> string" where
  "pending_kind_name ApprovalEntry = ''approval''"
| "pending_kind_name UnlockEntry = ''unlock''"
| "pending_kind_name RemoteEntry = ''remote''"

record PendingEntry =
  pe_id :: string
  pe_kind :: PendingKind
  pe_origin :: string
  pe_accountId :: "string option"
  pe_queuedAt :: int

record ApprovalDecision =
  d_allow :: bool
  d_scope :: "auth_scope option"
  d_remember :: bool
  d_rememberKind :: "bool option"
  d_reason :: "string option"

record ApprovalContext =
  ac_authentication :: auth_request
  ac_requester :: string
  ac_scopes :: "auth_scope list"

datatype AuthenticationConsent = AtScope auth_scope | ByGrant | BySelf

record AuthenticationActivity =
  aa_protocol :: protocol
  aa_destination :: string
  aa_method :: "string option"
  aa_requester :: string
  aa_consent :: "AuthenticationConsent option"

record ActivityEntry =
  en_requestId :: string
  en_timestamp :: int
  en_origin :: RequestOrigin
  en_method :: SignerMethod
  en_kind :: "int option"
  en_accountId :: "string option"
  en_pubkey :: "string option"
  en_allowed :: bool
  en_reason :: "string option"
  en_code :: "signer_error_code option"
  en_theirPubkey :: "string option"
  en_ciphertext :: "string option"
  en_event :: "EventTemplateInput option"
  en_pq :: "bool option"
  en_batchId :: "string option"
  en_authentication :: "AuthenticationActivity option"

datatype 'r BatchItemOutcome = ItemOk string 'r | ItemRefused string signer_error_code string

record 'r BatchResult =
  br_id :: string
  br_items :: "'r BatchItemOutcome list"

lemma method_name_inj [simp]: "method_name m = method_name n \<longleftrightarrow> m = n"
  by (cases m; cases n) simp_all

lemma pending_kind_name_inj [simp]: "pending_kind_name m = pending_kind_name n \<longleftrightarrow> m = n"
  by (cases m; cases n) simp_all

lemma origin_kind_name_inj [simp]: "origin_kind_name m = origin_kind_name n \<longleftrightarrow> m = n"
  by (cases m; cases n) simp_all

lemma key_method_iff: "m \<in> set KEY_METHODS \<longleftrightarrow> m \<noteq> GetPublicKey \<and> m \<noteq> GetRelays"
  by (cases m) (simp_all add: KEY_METHODS_def)

end
