(* ===== verification/Approval_Queue.thy ===== *)
theory Approval_Queue
  imports Sign_Types
begin

section \<open>The pending map\<close>

text \<open>
  \<^verbatim>\<open>packages/identity/src/signing/queue.ts\<close>. Every call of \<open>track\<close> that is let in gets a ticket,
  which stands for its promise and the closure around it: the key and entry it was given and,
  once it is settled, the outcome. The entries map holds the tickets that wait. Settlements come
  from outside (a timer, \<open>reject\<close>, an account switch, a revoked origin, disposal) or from the
  work; the first one wins. Aborts and \<open>onCancel\<close> calls are recorded in order. Listeners of the
  abort signal belong to the work and are not run inside \<open>fail\<close>.
\<close>

type_synonym 'r outcome = "failure + 'r"

record tracked =
  t_key :: string
  t_entry :: PendingEntry

record 'r queue =
  q_entries :: "(string, nat) obj"
  q_promises :: "(nat, tracked) obj"
  q_outcomes :: "(nat, 'r outcome) obj"
  q_aborted :: "nat list"
  q_cancelled :: "(PendingEntry \<times> string) list"
  q_disposed :: bool
  maxPendingPerOrigin :: nat
  maxInFlightPerOrigin :: nat
  maxInFlightGlobal :: nat

definition queue_key :: "string \<Rightarrow> string \<Rightarrow> PendingKind \<Rightarrow> string" where
  "queue_key origin ident kind = origin @ [CHR 0x00] @ pending_kind_name kind @ [CHR 0x00] @ ident"

definition entry_key :: "PendingEntry \<Rightarrow> string" where
  "entry_key e = queue_key (pe_origin e) (pe_id e) (pe_kind e)"

definition ApprovalQueue :: "nat option \<Rightarrow> nat option \<Rightarrow> nat option \<Rightarrow> 'r queue" where
  "ApprovalQueue pendings inFlight everything =
     \<lparr>q_entries = [], q_promises = [], q_outcomes = [], q_aborted = [], q_cancelled = [], q_disposed = False,
      maxPendingPerOrigin = (case pendings of None \<Rightarrow> MAX_PENDING_PER_ORIGIN | Some n \<Rightarrow> n),
      maxInFlightPerOrigin = (case inFlight of None \<Rightarrow> MAX_IN_FLIGHT_PER_ORIGIN | Some n \<Rightarrow> n),
      maxInFlightGlobal = (case everything of None \<Rightarrow> MAX_IN_FLIGHT_GLOBAL | Some n \<Rightarrow> n)\<rparr>"

definition entry_of :: "'r queue \<Rightarrow> nat \<Rightarrow> PendingEntry" where
  "entry_of q t = t_entry (the (map_of (q_promises q) t))"

definition pending_entries :: "'r queue \<Rightarrow> PendingEntry list" where
  "pending_entries q = map (\<lambda>(_, t). entry_of q t) (q_entries q)"

definition actionableCount :: "string \<Rightarrow> 'r queue \<Rightarrow> nat" where
  "actionableCount origin q =
     length (filter (\<lambda>e. pe_kind e = ApprovalEntry \<and> pe_origin e = origin) (pending_entries q))"

definition originCount :: "string \<Rightarrow> 'r queue \<Rightarrow> nat" where
  "originCount origin q = length (filter (\<lambda>e. pe_origin e = origin) (pending_entries q))"

definition settled :: "nat \<Rightarrow> 'r queue \<Rightarrow> bool" where
  "settled t q \<longleftrightarrow> map_of (q_outcomes q) t \<noteq> None"

definition settle :: "nat \<Rightarrow> 'r outcome \<Rightarrow> 'r queue \<Rightarrow> 'r queue" where
  "settle t out q =
     (case map_of (q_promises q) t of
        None \<Rightarrow> q
      | Some tr \<Rightarrow>
          if settled t q then q
          else q\<lparr>q_entries := odel (t_key tr) (q_entries q), q_outcomes := oset t out (q_outcomes q)\<rparr>)"

definition fail :: "signer_error_code \<Rightarrow> string \<Rightarrow> nat \<Rightarrow> 'r queue \<Rightarrow> 'r queue" where
  "fail c reason t q =
     (case map_of (q_promises q) t of
        None \<Rightarrow> q
      | Some tr \<Rightarrow>
          if settled t q then q
          else let q1 = settle t (Inl (Signer (SignerError c reason))) (q\<lparr>q_aborted := q_aborted q @ [t]\<rparr>)
               in q1\<lparr>q_cancelled := q_cancelled q1 @ [(t_entry tr, reason)]\<rparr>)"

text \<open>
  \<open>track\<close> up to the start of the work: refused, or let in under the next ticket. The work then
  settles the ticket with what it returns or throws.
\<close>

definition track :: "PendingEntry \<Rightarrow> 'r queue \<Rightarrow> (signer_error + nat) \<times> 'r queue" where
  "track e q =
     (if q_disposed q then (Inl (SignerError Shutdown ''Signer shut down''), q)
      else if map_of (q_entries q) (entry_key e) \<noteq> None then
        (Inl (SignerError Invalid_request ''Request is already pending''), q)
      else if pe_kind e = ApprovalEntry \<and> actionableCount (pe_origin e) q \<ge> maxPendingPerOrigin q then
        (Inl (SignerError Too_many_pending ''Too many pending requests from this origin''), q)
      else if length (q_entries q) \<ge> maxInFlightGlobal q
           \<or> originCount (pe_origin e) q \<ge> maxInFlightPerOrigin q then
        (Inl (SignerError Too_many_pending ''Too many pending requests''), q)
      else let t = length (q_promises q)
           in (Inr t, q\<lparr>q_entries := oset (entry_key e) t (q_entries q),
                        q_promises := oset t \<lparr>t_key = entry_key e, t_entry = e\<rparr> (q_promises q)\<rparr>))"

definition rejectWhere ::
  "(PendingEntry \<Rightarrow> bool) \<Rightarrow> signer_error_code \<Rightarrow> string \<Rightarrow> 'r queue \<Rightarrow> nat \<times> 'r queue" where
  "rejectWhere match c reason q =
     (let matching = filter (\<lambda>t. match (entry_of q t)) (map snd (q_entries q))
      in (length matching, fold (fail c reason) matching q))"

definition reject :: "string \<Rightarrow> string \<Rightarrow> string \<Rightarrow> 'r queue \<Rightarrow> bool \<times> 'r queue" where
  "reject origin requestId reason q =
     (case rejectWhere (\<lambda>e. pe_origin e = origin \<and> pe_id e = requestId) Rejected reason q of
        (n, q') \<Rightarrow> (n > 0, q'))"

definition rejectPendingForAccount :: "string \<Rightarrow> string \<Rightarrow> 'r queue \<Rightarrow> nat \<times> 'r queue" where
  "rejectPendingForAccount accountId reason q =
     (if accountId = [] then (0, q)
      else rejectWhere (\<lambda>e. pe_accountId e = Some accountId) Account_switched reason q)"

definition rejectPendingForOrigin :: "string \<Rightarrow> string \<Rightarrow> 'r queue \<Rightarrow> nat \<times> 'r queue" where
  "rejectPendingForOrigin origin reason q =
     (if origin = [] then (0, q) else rejectWhere (\<lambda>e. pe_origin e = origin) Rejected reason q)"

definition dispose_queue :: "'r queue \<Rightarrow> 'r queue" where
  "dispose_queue q = snd (rejectWhere (\<lambda>_. True) Shutdown ''Signer shut down'' (q\<lparr>q_disposed := True\<rparr>))"

subsection \<open>Everything that can happen to a queue\<close>

datatype 'r queue_event =
  Track PendingEntry
| Finish nat "'r outcome"
| Timeout nat
| RejectRequest string string string
| RejectAccount string string
| RejectOrigin string string
| Dispose

fun queue_step :: "'r queue_event \<Rightarrow> 'r queue \<Rightarrow> 'r queue" where
  "queue_step (Track e) q = snd (track e q)"
| "queue_step (Finish t out) q = settle t out q"
| "queue_step (Timeout t) q = fail Timed_out ''Request timed out'' t q"
| "queue_step (RejectRequest origin ident reason) q = snd (reject origin ident reason q)"
| "queue_step (RejectAccount a reason) q = snd (rejectPendingForAccount a reason q)"
| "queue_step (RejectOrigin origin reason) q = snd (rejectPendingForOrigin origin reason q)"
| "queue_step Dispose q = dispose_queue q"

subsection \<open>Keys\<close>

text \<open>The separator cannot occur in an origin, so the parts of a key can be read back.\<close>

lemma split_at_unique:
  "c \<notin> set a \<Longrightarrow> c \<notin> set b \<Longrightarrow> a @ c # x = b @ c # y \<longleftrightarrow> a = b \<and> x = y"
  by (induction a arbitrary: b) (case_tac b; auto)+

lemma kind_no_nul: "CHR 0x00 \<notin> set (pending_kind_name k)"
  by (cases k) simp_all

lemma queue_key_inj:
  assumes "CHR 0x00 \<notin> set o1" "CHR 0x00 \<notin> set o2"
  shows "queue_key o1 i1 k1 = queue_key o2 i2 k2 \<longleftrightarrow> o1 = o2 \<and> i1 = i2 \<and> k1 = k2"
  using split_at_unique [OF assms] split_at_unique [OF kind_no_nul kind_no_nul]
  by (auto simp: queue_key_def)

subsection \<open>The invariant\<close>

text \<open>
  The entries map holds exactly the tickets that are not settled, each under the key of its
  entry; the caps hold; a disposed queue holds nothing.
\<close>

definition queue_inv :: "'r queue \<Rightarrow> bool" where
  "queue_inv q \<longleftrightarrow>
     wf_obj (q_entries q) \<and> map fst (q_promises q) = [0..<length (q_promises q)]
     \<and> (\<forall>t. map_of (q_promises q) t = None \<longrightarrow> \<not> settled t q)
     \<and> (\<forall>k t. map_of (q_entries q) k = Some t \<longleftrightarrow>
          (\<exists>tr. map_of (q_promises q) t = Some tr \<and> t_key tr = k \<and> \<not> settled t q))
     \<and> (\<forall>t tr. map_of (q_promises q) t = Some tr \<longrightarrow> t_key tr = entry_key (t_entry tr))
     \<and> length (q_entries q) \<le> maxInFlightGlobal q
     \<and> (\<forall>origin. originCount origin q \<le> maxInFlightPerOrigin q)
     \<and> (\<forall>origin. actionableCount origin q \<le> maxPendingPerOrigin q)
     \<and> (q_disposed q \<longrightarrow> q_entries q = [])"

lemma queue_invD:
  assumes "queue_inv q"
  shows "wf_obj (q_entries q)" "map fst (q_promises q) = [0..<length (q_promises q)]"
    "map_of (q_promises q) t = None \<Longrightarrow> \<not> settled t q"
    "map_of (q_entries q) k = Some t \<longleftrightarrow> (\<exists>tr. map_of (q_promises q) t = Some tr \<and> t_key tr = k \<and> \<not> settled t q)"
    "map_of (q_promises q) t = Some tr \<Longrightarrow> t_key tr = entry_key (t_entry tr)"
    "length (q_entries q) \<le> maxInFlightGlobal q" "originCount origin q \<le> maxInFlightPerOrigin q"
    "actionableCount origin q \<le> maxPendingPerOrigin q" "q_disposed q \<Longrightarrow> q_entries q = []"
  using assms unfolding queue_inv_def by blast+

lemma queue_inv_new: "queue_inv (ApprovalQueue a b c)"
  by (simp add: queue_inv_def ApprovalQueue_def settled_def originCount_def actionableCount_def pending_entries_def)

lemma fresh_ticket:
  assumes "queue_inv q" shows "map_of (q_promises q) (length (q_promises q)) = None"
  using queue_invD(2) [OF assms] by (simp add: map_of_eq_None_iff flip: set_map)

lemma entries_pending: "queue_inv q \<Longrightarrow> (k, t) \<in> set (q_entries q) \<Longrightarrow>
    \<exists>tr. map_of (q_promises q) t = Some tr \<and> t_key tr = k \<and> \<not> settled t q"
  using queue_invD(1,4) by (metis map_of_is_SomeI wf_obj_def)

lemma odel_filter: "odel k xs = filter (\<lambda>p. fst p \<noteq> k) xs"
  by (induction xs) auto

lemma filter_filter_le: "length (filter P (filter Q xs)) \<le> length (filter P xs)"
  by (induction xs) auto

lemma oset_new: "map_of xs k = None \<Longrightarrow> oset k v xs = xs @ [(k, v)]"
  by (induction xs) (auto split: if_splits)

lemma entry_of_promises: "q_promises q' = q_promises q \<Longrightarrow> entry_of q' = entry_of q"
  by (simp add: entry_of_def fun_eq_iff)

lemma settle_promises [simp]: "q_promises (settle t out q) = q_promises q"
  by (simp add: settle_def split: option.splits)

lemma settle_shrinks: "\<exists>Q. q_entries (settle t out q) = filter Q (q_entries q)"
  by (auto simp: settle_def odel_filter split: option.splits intro: exI [of _ "\<lambda>_. True"])

lemma settle_counts:
  "length (filter P (pending_entries (settle t out q))) \<le> length (filter P (pending_entries q))"
proof -
  obtain Q where "q_entries (settle t out q) = filter Q (q_entries q)" using settle_shrinks by blast
  moreover have "length (filter P (map f (filter Q xs))) \<le> length (filter P (map f xs))" for f Q xs
    by (induction xs) auto
  ultimately show ?thesis
    by (simp add: pending_entries_def entry_of_promises [OF settle_promises] del: filter_filter)
qed

lemma settle_inv:
  assumes "queue_inv q" shows "queue_inv (settle t out q)"
proof (cases "map_of (q_promises q) t")
  case None
  with assms show ?thesis by (simp add: settle_def)
next
  case (Some tr)
  show ?thesis
  proof (cases "settled t q")
    case True
    with assms Some show ?thesis by (simp add: settle_def)
  next
    case False
    let ?q = "settle t out q"
    have e: "q_entries ?q = odel (t_key tr) (q_entries q)" "q_promises ?q = q_promises q"
      "q_disposed ?q = q_disposed q" "maxPendingPerOrigin ?q = maxPendingPerOrigin q"
      "maxInFlightPerOrigin ?q = maxInFlightPerOrigin q" "maxInFlightGlobal ?q = maxInFlightGlobal q"
      and s: "\<And>u. settled u ?q \<longleftrightarrow> u = t \<or> settled u q"
      using Some False by (auto simp: settle_def settled_def)
    have m: "map_of (q_entries ?q) k = Some u \<longleftrightarrow>
        (\<exists>tr. map_of (q_promises ?q) u = Some tr \<and> t_key tr = k \<and> \<not> settled u ?q)" for k u
      using queue_invD(4) [OF assms, of k u] queue_invD(4) [OF assms, of "t_key tr" t] Some False
      unfolding e s by auto
    have "length (q_entries ?q) \<le> maxInFlightGlobal q"
      using queue_invD(6) [OF assms] length_delete_le [of "t_key tr" "q_entries q"] unfolding e by linarith
    moreover have "originCount origin ?q \<le> maxInFlightPerOrigin q" for origin
      using queue_invD(7) [OF assms, of origin] unfolding originCount_def
      by (rule le_trans [OF settle_counts])
    moreover have "actionableCount origin ?q \<le> maxPendingPerOrigin q" for origin
      using queue_invD(8) [OF assms, of origin] unfolding actionableCount_def
      by (rule le_trans [OF settle_counts])
    ultimately show ?thesis
      using assms m s Some unfolding queue_inv_def by (auto simp: e)
  qed
qed

subsection \<open>Every event keeps the invariant\<close>

lemma queue_inv_logs [simp]:
  "queue_inv (q\<lparr>q_aborted := x\<rparr>) \<longleftrightarrow> queue_inv q" "queue_inv (q\<lparr>q_cancelled := y\<rparr>) \<longleftrightarrow> queue_inv q"
  by (simp_all add: queue_inv_def settled_def originCount_def actionableCount_def pending_entries_def entry_of_def)

lemma fail_eq:
  "fail c reason t q =
     (if map_of (q_promises q) t = None \<or> settled t q then q
      else settle t (Inl (Signer (SignerError c reason))) q
        \<lparr>q_aborted := q_aborted q @ [t], q_cancelled := q_cancelled q @ [(entry_of q t, reason)]\<rparr>)"
  by (auto simp: fail_def settle_def settled_def entry_of_def Let_def split: option.splits)

lemma fail_inv: "queue_inv q \<Longrightarrow> queue_inv (fail c reason t q)"
  by (simp add: fail_eq settle_inv)

lemma fold_fail_inv: "queue_inv q \<Longrightarrow> queue_inv (fold (fail c reason) ts q)"
  by (induction ts arbitrary: q) (simp_all add: fail_inv)

lemma rejectWhere_inv: "queue_inv q \<Longrightarrow> queue_inv (snd (rejectWhere match c reason q))"
  by (simp add: rejectWhere_def Let_def fold_fail_inv)

lemma track_cases:
  obtains (refused) e' where "track e q = (Inl e', q)"
  | (admitted) "track e q = (Inr (length (q_promises q)),
        q\<lparr>q_entries := oset (entry_key e) (length (q_promises q)) (q_entries q),
          q_promises := oset (length (q_promises q)) \<lparr>t_key = entry_key e, t_entry = e\<rparr> (q_promises q)\<rparr>)"
      "\<not> q_disposed q" "map_of (q_entries q) (entry_key e) = None" "length (q_entries q) < maxInFlightGlobal q"
      "originCount (pe_origin e) q < maxInFlightPerOrigin q"
      "pe_kind e = ApprovalEntry \<Longrightarrow> actionableCount (pe_origin e) q < maxPendingPerOrigin q"
proof (cases "q_disposed q \<or> map_of (q_entries q) (entry_key e) \<noteq> None
    \<or> pe_kind e = ApprovalEntry \<and> actionableCount (pe_origin e) q \<ge> maxPendingPerOrigin q
    \<or> length (q_entries q) \<ge> maxInFlightGlobal q \<or> originCount (pe_origin e) q \<ge> maxInFlightPerOrigin q")
  case True
  then have "\<exists>e'. track e q = (Inl e', q)" by (auto simp: track_def)
  then obtain e' where "track e q = (Inl e', q)" by blast
  then show ?thesis by (rule refused)
next
  case False
  then show ?thesis by (intro admitted) (simp_all add: track_def Let_def not_le)
qed

lemma track_inv:
  assumes inv: "queue_inv q" shows "queue_inv (snd (track e q))"
proof (cases rule: track_cases [of e q])
  case refused
  with inv show ?thesis by simp
next
  case admitted
  let ?t = "length (q_promises q)" and ?q = "snd (track e q)"
  have f: "map_of (q_promises q) ?t = None" by (rule fresh_ticket [OF inv])
  have en: "q_entries ?q = q_entries q @ [(entry_key e, ?t)]" and
    pr: "q_promises ?q = q_promises q @ [(?t, \<lparr>t_key = entry_key e, t_entry = e\<rparr>)]" and
    same: "q_disposed ?q = q_disposed q" "maxPendingPerOrigin ?q = maxPendingPerOrigin q"
      "maxInFlightPerOrigin ?q = maxInFlightPerOrigin q" "maxInFlightGlobal ?q = maxInFlightGlobal q"
    and s: "\<And>u. settled u ?q \<longleftrightarrow> settled u q"
    using admitted(1,3) f by (simp_all add: oset_new settled_def)
  have mp: "map_of (q_promises ?q) = (map_of (q_promises q))(?t \<mapsto> \<lparr>t_key = entry_key e, t_entry = e\<rparr>)"
    using f unfolding pr by (auto simp: fun_eq_iff map_add_def split: option.splits)
  have me: "map_of (q_entries ?q) = (map_of (q_entries q))(entry_key e \<mapsto> ?t)"
    using admitted(3) unfolding en by (auto simp: fun_eq_iff map_add_def split: option.splits)
  have old: "entry_of ?q t = entry_of q t" if "(k, t) \<in> set (q_entries q)" for k t
    using entries_pending [OF inv that] f by (auto simp: entry_of_def mp)
  have pe: "pending_entries ?q = pending_entries q @ [e]"
    using old by (auto simp: pending_entries_def en) (simp add: entry_of_def mp)
  have ns: "\<not> settled ?t q" by (rule queue_invD(3) [OF inv f])
  have unused: "t_key tr \<noteq> entry_key e" if "map_of (q_promises q) u = Some tr" "\<not> settled u q" for u tr
    using queue_invD(4) [OF inv, of "t_key tr" u] that admitted(3) by auto
  have "wf_obj (q_entries ?q)" using queue_invD(1) [OF inv] admitted(3)
    by (simp add: en wf_obj_def map_of_eq_None_iff)
  moreover have "map fst (q_promises ?q) = [0..<length (q_promises ?q)]"
    using queue_invD(2) [OF inv] by (simp add: pr)
  moreover have "map_of (q_entries ?q) k = Some t \<longleftrightarrow>
      (\<exists>tr. map_of (q_promises ?q) t = Some tr \<and> t_key tr = k \<and> \<not> settled t ?q)" for k t
    using queue_invD(4) [OF inv, of k t] unused f ns unfolding mp me s by auto
  moreover have "originCount origin ?q \<le> maxInFlightPerOrigin q" for origin
    using queue_invD(7) [OF inv, of origin] admitted(5) by (auto simp: originCount_def pe)
  moreover have "actionableCount origin ?q \<le> maxPendingPerOrigin q" for origin
    using queue_invD(8) [OF inv, of origin] admitted(6) by (auto simp: actionableCount_def pe)
  ultimately show ?thesis
    using queue_invD(3,5) [OF inv] admitted(2,4) unfolding queue_inv_def same s mp en by auto
qed

text \<open>What the settlements of \<open>rejectWhere\<close> reach.\<close>

lemma fail_promises [simp]: "q_promises (fail c reason t q) = q_promises q"
  by (simp add: fail_eq)

lemma fold_fail_promises [simp]: "q_promises (fold (fail c reason) ts q) = q_promises q"
  by (induction ts arbitrary: q) simp_all

lemma settled_settle:
  "settled u (settle t out q) \<longleftrightarrow> settled u q \<or> (u = t \<and> map_of (q_promises q) t \<noteq> None)"
  by (auto simp: settle_def settled_def split: option.splits)

lemma settled_fail:
  "settled u (fail c reason t q) \<longleftrightarrow> settled u q \<or> (u = t \<and> map_of (q_promises q) t \<noteq> None)"
  using settled_settle [of u t _ q] by (auto simp: fail_eq settled_def)

lemma settled_fold_fail:
  "settled u (fold (fail c reason) ts q) \<longleftrightarrow> settled u q \<or> (u \<in> set ts \<and> map_of (q_promises q) u \<noteq> None)"
  by (induction ts arbitrary: q) (auto simp: settled_fail)

definition pending_ticket :: "'r queue \<Rightarrow> nat \<Rightarrow> bool" where
  "pending_ticket q t \<longleftrightarrow> map_of (q_promises q) t \<noteq> None \<and> \<not> settled t q"

lemma pending_ticket_iff: "queue_inv q \<Longrightarrow> pending_ticket q t \<longleftrightarrow> t \<in> snd ` set (q_entries q)"
proof
  assume inv: "queue_inv q" and "pending_ticket q t"
  then obtain tr where "map_of (q_promises q) t = Some tr" "\<not> settled t q" by (auto simp: pending_ticket_def)
  then have "map_of (q_entries q) (t_key tr) = Some t" using queue_invD(4) [OF inv] by blast
  from map_of_SomeD [OF this] show "t \<in> snd ` set (q_entries q)" by force
next
  assume inv: "queue_inv q" and "t \<in> snd ` set (q_entries q)"
  then obtain k where "(k, t) \<in> set (q_entries q)" by force
  from entries_pending [OF inv this] show "pending_ticket q t" by (auto simp: pending_ticket_def)
qed

lemma pending_rejectWhere:
  assumes "queue_inv q"
  shows "pending_ticket (snd (rejectWhere match c reason q)) t \<longleftrightarrow> pending_ticket q t \<and> \<not> match (entry_of q t)"
  using pending_ticket_iff [OF assms, of t]
  by (auto simp: rejectWhere_def Let_def pending_ticket_def settled_fold_fail)

lemma pending_entries_tickets:
  "queue_inv q \<Longrightarrow> set (pending_entries q) = entry_of q ` {t. pending_ticket q t}"
  unfolding pending_entries_def pending_ticket_iff by (auto simp: case_prod_beta image_image) 

lemma rejectWhere_promises [simp]: "q_promises (snd (rejectWhere match c reason q)) = q_promises q"
  by (simp add: rejectWhere_def Let_def)

lemma pending_entries_rejectWhere:
  assumes "queue_inv q"
  shows "set (pending_entries (snd (rejectWhere match c reason q))) = {e \<in> set (pending_entries q). \<not> match e}"
  unfolding pending_entries_tickets [OF rejectWhere_inv [OF assms]] pending_entries_tickets [OF assms]
    pending_rejectWhere [OF assms] entry_of_promises [OF rejectWhere_promises]
  by auto

text \<open>Disposal sets its flag first; no settlement reads it.\<close>

lemma fail_disposed: "fail c reason t (q\<lparr>q_disposed := True\<rparr>) = fail c reason t q\<lparr>q_disposed := True\<rparr>"
  by (simp add: fail_eq settle_def settled_def entry_of_def split: option.splits)

lemma fold_fail_disposed:
  "fold (fail c reason) ts (q\<lparr>q_disposed := True\<rparr>) = fold (fail c reason) ts q\<lparr>q_disposed := True\<rparr>"
  by (induction ts arbitrary: q) (simp_all add: fail_disposed)

lemma dispose_queue_eq:
  "dispose_queue q = snd (rejectWhere (\<lambda>_. True) Shutdown ''Signer shut down'' q)\<lparr>q_disposed := True\<rparr>"
  by (simp add: dispose_queue_def rejectWhere_def Let_def fold_fail_disposed)

lemma pending_entries_Nil: "pending_entries q = [] \<longleftrightarrow> q_entries q = []"
  by (simp add: pending_entries_def)

lemma queue_inv_dispose: "queue_inv q \<Longrightarrow> q_entries q = [] \<Longrightarrow> queue_inv (q\<lparr>q_disposed := True\<rparr>)"
  by (simp add: queue_inv_def settled_def originCount_def actionableCount_def pending_entries_def)

lemma dispose_inv:
  assumes "queue_inv q" shows "queue_inv (dispose_queue q)" "q_entries (dispose_queue q) = []"
proof -
  let ?q = "snd (rejectWhere (\<lambda>_. True) Shutdown ''Signer shut down'' q)"
  have "set (pending_entries ?q) = {}" by (simp add: pending_entries_rejectWhere [OF assms])
  then have e: "q_entries ?q = []" by (simp add: pending_entries_Nil)
  show "queue_inv (dispose_queue q)"
    unfolding dispose_queue_eq by (rule queue_inv_dispose [OF rejectWhere_inv [OF assms] e])
  from e show "q_entries (dispose_queue q) = []" by (simp add: dispose_queue_eq)
qed

lemma queue_step_inv: "queue_inv q \<Longrightarrow> queue_inv (queue_step ev q)"
  by (cases ev)
    (simp_all add: track_inv settle_inv fail_inv rejectWhere_inv dispose_inv(1) reject_def case_prod_beta
      rejectPendingForAccount_def rejectPendingForOrigin_def)

lemma queue_run_inv: "queue_inv q \<Longrightarrow> queue_inv (fold queue_step evs q)"
  by (induction evs arbitrary: q) (simp_all add: queue_step_inv)

text \<open>Outcomes are never rewritten.\<close>

definition keeps_outcomes :: "'r queue \<Rightarrow> 'r queue \<Rightarrow> bool" where
  "keeps_outcomes q q' \<longleftrightarrow> map_of (q_outcomes q) \<subseteq>\<^sub>m map_of (q_outcomes q') \<and> map_of (q_promises q) \<subseteq>\<^sub>m map_of (q_promises q')
     \<and> maxPendingPerOrigin q' = maxPendingPerOrigin q \<and> maxInFlightPerOrigin q' = maxInFlightPerOrigin q
     \<and> maxInFlightGlobal q' = maxInFlightGlobal q \<and> (q_disposed q \<longrightarrow> q_disposed q')"

lemma keeps_outcomesD:
  "keeps_outcomes q q' \<Longrightarrow> map_of (q_outcomes q) t = Some out \<Longrightarrow> map_of (q_outcomes q') t = Some out"
  unfolding keeps_outcomes_def map_le_def by (metis domI)

lemma keeps_outcomes_refl: "keeps_outcomes q q"
  by (simp add: keeps_outcomes_def)

lemma keeps_outcomes_trans: "keeps_outcomes q r \<Longrightarrow> keeps_outcomes r s \<Longrightarrow> keeps_outcomes q s"
  unfolding keeps_outcomes_def by (metis map_le_trans)

lemma keeps_outcomes_settle: "keeps_outcomes q (settle t out q)"
  by (auto simp: keeps_outcomes_def settle_def settled_def map_le_def split: option.splits)

lemma keeps_outcomes_fail: "keeps_outcomes q (fail c reason t q)"
  using keeps_outcomes_settle [of q t] by (simp add: fail_eq keeps_outcomes_def)

lemma keeps_outcomes_fold_fail: "keeps_outcomes q (fold (fail c reason) ts q)"
  by (induction ts arbitrary: q) (auto simp: keeps_outcomes_refl intro: keeps_outcomes_trans keeps_outcomes_fail)

lemma keeps_outcomes_track: "queue_inv q \<Longrightarrow> keeps_outcomes q (snd (track e q))"
  by (rule track_cases [of e q]) (auto simp: keeps_outcomes_def map_le_def dest: fresh_ticket)

lemma keeps_outcomes_dispose: "keeps_outcomes q (dispose_queue q)"
  using keeps_outcomes_fold_fail [of q] by (simp add: dispose_queue_eq rejectWhere_def Let_def keeps_outcomes_def)

lemma keeps_outcomes_step: "queue_inv q \<Longrightarrow> keeps_outcomes q (queue_step ev q)"
  by (cases ev)
    (simp_all add: keeps_outcomes_settle keeps_outcomes_fail keeps_outcomes_track keeps_outcomes_fold_fail
      keeps_outcomes_dispose keeps_outcomes_refl reject_def rejectWhere_def Let_def rejectPendingForAccount_def
      rejectPendingForOrigin_def)

lemma keeps_outcomes_run: "queue_inv q \<Longrightarrow> keeps_outcomes q (fold queue_step evs q)"
proof (induction evs arbitrary: q)
  case (Cons ev evs)
  have "keeps_outcomes (queue_step ev q) (fold queue_step evs (queue_step ev q))"
    by (rule Cons.IH) (rule queue_step_inv [OF Cons.prems])
  from keeps_outcomes_trans [OF keeps_outcomes_step [OF Cons.prems] this] show ?case by simp
qed (simp add: keeps_outcomes_refl)

lemma fold_fail_outcome:
  "pending_ticket q t \<Longrightarrow> t \<in> set ts \<Longrightarrow>
     map_of (q_outcomes (fold (fail c reason) ts q)) t = Some (Inl (Signer (SignerError c reason)))"
proof (induction ts arbitrary: q)
  case (Cons u ts)
  show ?case
  proof (cases "u = t")
    case True
    with Cons.prems(1) have "map_of (q_outcomes (fail c reason u q)) t = Some (Inl (Signer (SignerError c reason)))"
      by (auto simp: fail_eq pending_ticket_def settle_def split: option.splits)
    from keeps_outcomesD [OF keeps_outcomes_fold_fail this] show ?thesis by simp
  next
    case False
    with Cons show ?thesis by (auto simp: pending_ticket_def settled_fail)
  qed
qed simp

lemma rejectWhere_outcome:
  assumes "queue_inv q" "pending_ticket q t" "match (entry_of q t)"
  shows "map_of (q_outcomes (snd (rejectWhere match c reason q))) t = Some (Inl (Signer (SignerError c reason)))"
  using assms pending_ticket_iff [of q t] by (simp add: rejectWhere_def Let_def fold_fail_outcome)

subsection \<open>What callers rely on\<close>

text \<open>C37: C27: 
  However requests, answers, timeouts, refusals, account switches and disposal interleave, the
  queue never holds more entries than its global cap, no origin more than its in-flight cap, and
  no origin more prompts than its prompt cap.
\<close>
theorem queue_within_caps:
  fixes q :: "'r queue"
  assumes "q = fold queue_step evs (ApprovalQueue pendings inFlight everything)"
  shows "length (pending_entries q) \<le> (case everything of None \<Rightarrow> MAX_IN_FLIGHT_GLOBAL | Some n \<Rightarrow> n)
     \<and> originCount origin q \<le> (case inFlight of None \<Rightarrow> MAX_IN_FLIGHT_PER_ORIGIN | Some n \<Rightarrow> n)
     \<and> actionableCount origin q \<le> (case pendings of None \<Rightarrow> MAX_PENDING_PER_ORIGIN | Some n \<Rightarrow> n)"
proof -
  let ?q0 = "ApprovalQueue pendings inFlight everything :: 'r queue"
  have inv: "queue_inv q" unfolding assms by (rule queue_run_inv [OF queue_inv_new])
  have "keeps_outcomes ?q0 q" unfolding assms by (rule keeps_outcomes_run [OF queue_inv_new])
  then have "maxInFlightGlobal q = maxInFlightGlobal ?q0" "maxInFlightPerOrigin q = maxInFlightPerOrigin ?q0"
    "maxPendingPerOrigin q = maxPendingPerOrigin ?q0" by (simp_all add: keeps_outcomes_def)
  with queue_invD(6-8) [OF inv] show ?thesis by (simp add: ApprovalQueue_def pending_entries_def)
qed

definition two_callers :: "int queue_event list" where
  "two_callers =
     [Track \<lparr>pe_id = ''1'', pe_kind = ApprovalEntry, pe_origin = ''a'', pe_accountId = Some ''x'', pe_queuedAt = 0\<rparr>,
      Track \<lparr>pe_id = ''1'', pe_kind = UnlockEntry, pe_origin = ''b'', pe_accountId = Some ''y'', pe_queuedAt = 0\<rparr>,
      Finish 0 (Inr 7)]"

lemma queue_within_caps_witness:
  "length (pending_entries (fold queue_step two_callers (ApprovalQueue (Some 1) None None))) \<le> 256"
  using queue_within_caps [OF refl, of two_callers "Some 1" None None "''a''"] by (simp add: MAX_IN_FLIGHT_GLOBAL_def)

text \<open>C28: 
  A request is settled once: after its first settlement nothing that happens, a late result of
  the work included, changes what its caller was told.
\<close>
theorem first_settlement_wins:
  fixes q0 :: "'r queue"
  assumes "map_of (q_outcomes (fold queue_step evs (ApprovalQueue a b c))) t = Some out"
  shows "map_of (q_outcomes (fold queue_step (evs @ later) (ApprovalQueue a b c))) t = Some out"
  using keeps_outcomesD [OF keeps_outcomes_run [OF queue_run_inv [OF queue_inv_new]] assms] by simp

text \<open>C29: 
  After an account switch nothing waits that was queued for the account the user left, and each
  such request was told so; every other entry still waits.
\<close>
theorem account_switch_rejects_pending:
  assumes "q = fold queue_step evs (ApprovalQueue a b c)" "accountId \<noteq> []"
  shows "set (pending_entries (snd (rejectPendingForAccount accountId reason q))) =
       {e \<in> set (pending_entries q). pe_accountId e \<noteq> Some accountId}
     \<and> (\<forall>t. pending_ticket q t \<and> pe_accountId (entry_of q t) = Some accountId \<longrightarrow>
          map_of (q_outcomes (snd (rejectPendingForAccount accountId reason q))) t =
            Some (Inl (Signer (SignerError Account_switched reason))))"
proof -
  have "queue_inv q" unfolding assms(1) by (rule queue_run_inv [OF queue_inv_new])
  then show ?thesis using assms(2)
    by (simp add: rejectPendingForAccount_def pending_entries_rejectWhere rejectWhere_outcome)
qed

lemma first_settlement_wins_witness:
  "map_of (q_outcomes (fold queue_step (two_callers @ [Timeout 0, Finish 0 (Inr 8)]) (ApprovalQueue None None None))) 0
     = Some (Inr 7)"
  by (rule first_settlement_wins) code_simp

lemma account_switch_rejects_pending_witness:
  "set (pending_entries (snd (rejectPendingForAccount ''x'' ''Account switched''
      (fold queue_step (take 2 two_callers) (ApprovalQueue None None None))))) =
    {e \<in> set (pending_entries (fold queue_step (take 2 two_callers) (ApprovalQueue None None None))).
       pe_accountId e \<noteq> Some ''x''}"
  using account_switch_rejects_pending [OF refl, of "''x''" "''Account switched''" "take 2 two_callers" None None None]
  by simp

text \<open>C30: 
  A disposed queue stays empty: it has told every caller, and whatever happens later, no request
  is let in again.
\<close>
theorem disposed_queue_is_final:
  assumes "q = fold queue_step (evs @ Dispose # later) (ApprovalQueue a b c)"
  shows "pending_entries q = [] \<and> fst (track e q) = Inl (SignerError Shutdown ''Signer shut down'')
     \<and> (\<forall>t. map_of (q_promises q) t \<noteq> None \<longrightarrow> settled t q)"
proof -
  let ?q = "fold queue_step evs (ApprovalQueue a b c)"
  have inv: "queue_inv q" unfolding assms by (rule queue_run_inv [OF queue_inv_new])
  have i1: "queue_inv (dispose_queue ?q)" by (rule dispose_inv(1) [OF queue_run_inv [OF queue_inv_new]])
  have "q_disposed (dispose_queue ?q)" by (simp add: dispose_queue_eq)
  then have d: "q_disposed q" using keeps_outcomes_run [OF i1, of later] by (simp add: assms keeps_outcomes_def)
  have e: "q_entries q = []" by (rule queue_invD(9) [OF inv d])
  then have "\<forall>t. map_of (q_promises q) t \<noteq> None \<longrightarrow> settled t q"
    using pending_ticket_iff [OF inv] unfolding pending_ticket_def by (metis empty_iff image_empty list.set(1))
  with d e show ?thesis by (simp add: pending_entries_Nil track_def)
qed

lemma disposed_queue_is_final_witness:
  "pending_entries (fold queue_step (two_callers @ Dispose # two_callers) (ApprovalQueue None None None)) = []"
  using disposed_queue_is_final [OF refl, of two_callers two_callers None None None] by simp

end
