(* ===== verification/Sign_Schema.thy ===== *)
theory Sign_Schema
  imports Sign_Types Pq_Envelope
begin

section \<open>The boundary of the signing pipeline\<close>

text \<open>
  \<^verbatim>\<open>packages/identity/src/signing/schema.ts\<close>: what an untrusted request has to be, and the typed
  copy that is kept of it. An untrusted value is a \<open>jsv\<close>; \<open>JThrows\<close> is a property or element
  whose reading throws. Every refusal of the boundary has the code \<open>invalid_request\<close>, so a refusal
  is its message, \<open>Refuse\<close>; \<open>Unreadable\<close> is whatever else was thrown. Values of HOL do not change,
  so the deep freeze is the identity; a value read twice is the same value.
\<close>

datatype jsv =
  JUndef | JNull | JBool bool | JNum js_number | JStr string | JArr "jsv list" | JObj "(string, jsv) obj"
| JThrows

datatype schema_error = Refuse string | Unreadable

type_synonym 'a checked = "schema_error + 'a"

definition read_value :: "jsv \<Rightarrow> jsv checked" where
  "read_value v = (if v = JThrows then Inl Unreadable else Inr v)"

definition read_prop :: "string \<Rightarrow> (string, jsv) obj \<Rightarrow> jsv checked" where
  "read_prop key raw = (case map_of raw key of None \<Rightarrow> Inr JUndef | Some v \<Rightarrow> read_value v)"

subsection \<open>Scalars\<close>

definition MAX_KIND :: int where "MAX_KIND = 65535"

definition MAX_SAFE_INTEGER :: int where "MAX_SAFE_INTEGER = 9007199254740991"

definition requireRecord :: "jsv \<Rightarrow> string \<Rightarrow> (string, jsv) obj checked" where
  "requireRecord v message = (case v of JObj props \<Rightarrow> Inr props | _ \<Rightarrow> Inl (Refuse message))"

definition requireString :: "jsv \<Rightarrow> string \<Rightarrow> string checked" where
  "requireString v what = (case v of JStr s \<Rightarrow> Inr s | _ \<Rightarrow> Inl (Refuse (what @ '' must be a string'')))"

definition requireNonEmptyString :: "jsv \<Rightarrow> string \<Rightarrow> string checked" where
  "requireNonEmptyString v what =
     bindE (requireString v what) (\<lambda>text.
       if length text = 0 then Inl (Refuse (what @ '' must not be empty'')) else Inr text)"

definition requireBoundedString :: "jsv \<Rightarrow> string \<Rightarrow> nat \<Rightarrow> string checked" where
  "requireBoundedString v what limit =
     bindE (requireString v what) (\<lambda>text.
       if length text > limit then Inl (Refuse (what @ '' may be at most '' @ show_nat limit @ '' characters''))
       else Inr text)"

definition requirePubkey :: "jsv \<Rightarrow> string \<Rightarrow> string checked" where
  "requirePubkey v what =
     (case v of
        JStr s \<Rightarrow> if is_hex64 s then Inr s else Inl (Refuse (what @ '' must be 64 lowercase hex characters''))
      | _ \<Rightarrow> Inl (Refuse (what @ '' must be 64 lowercase hex characters'')))"

definition requireNonNegativeInteger :: "jsv \<Rightarrow> string \<Rightarrow> int \<Rightarrow> int checked" where
  "requireNonNegativeInteger v what limit =
     (case v of
        JNum (Whole n) \<Rightarrow>
          if n < 0 \<or> n > limit then Inl (Refuse (what @ '' must be an integer between 0 and '' @ show_int limit))
          else Inr n
      | _ \<Rightarrow> Inl (Refuse (what @ '' must be an integer between 0 and '' @ show_int limit)))"

definition is_base64 :: "string \<Rightarrow> bool" where
  "is_base64 s \<longleftrightarrow>
     (let body = takeWhile (\<lambda>c. c \<in> set BASE64_ALPHABET) s
      in body \<noteq> [] \<and> list_all (\<lambda>c. c = CHR ''='') (drop (length body) s))"

text \<open>The UTF-8 length of a sequence of UTF-16 code units, counted.\<close>

fun utf8ByteLength :: "nat list \<Rightarrow> nat" where
  "utf8ByteLength [] = 0"
| "utf8ByteLength [u] = (if u < 0x80 then 1 else if u < 0x800 then 2 else 3)"
| "utf8ByteLength (u # v # r) =
     (if u < 0x80 then 1 + utf8ByteLength (v # r)
      else if u < 0x800 then 2 + utf8ByteLength (v # r)
      else if 0xd800 \<le> u \<and> u \<le> 0xdbff \<and> 0xdc00 \<le> v \<and> v \<le> 0xdfff then 4 + utf8ByteLength r
      else 3 + utf8ByteLength (v # r))"

definition units :: "string \<Rightarrow> nat list" where
  "units s = map code s"

subsection \<open>Origins\<close>

definition canonicalIdentifier :: "origin_kind \<Rightarrow> string \<Rightarrow> string checked" where
  "canonicalIdentifier kind ident =
     (case kind of
        Web \<Rightarrow>
          (case canonicalHttpOrigin ident of
             Some origin \<Rightarrow> Inr origin
           | None \<Rightarrow>
               (case canonicalHostname ident of
                  Some host \<Rightarrow>
                    if host = ''null'' then
                      Inl (Refuse ''origin.identifier is an opaque origin (null) and cannot hold permissions'')
                    else Inr host
                | None \<Rightarrow>
                    if length (strip_trailing_dots ident) = 0 then Inl (Refuse ''origin.identifier must not be empty'')
                    else Inl (Refuse ''origin.identifier for a web origin must be an exact http(s) origin or a bare hostname'')))
      | Nip46 \<Rightarrow> requirePubkey (JStr (to_lower ident)) ''origin.identifier for a nip46 origin''
      | _ \<Rightarrow> Inr ident)"

definition origin_kind_of :: "string \<Rightarrow> origin_kind option" where
  "origin_kind_of s = find (\<lambda>k. origin_kind_name k = s) ORIGIN_KINDS"

definition optional_string :: "string \<Rightarrow> (string, jsv) obj \<Rightarrow> string \<Rightarrow> nat \<Rightarrow> string option checked" where
  "optional_string key props what limit =
     bindE (read_prop key props) (\<lambda>v.
       if v = JUndef then Inr None
       else bindE (requireBoundedString v what limit) (\<lambda>s. Inr (Some s)))"

definition validateOrigin :: "jsv \<Rightarrow> RequestOrigin checked" where
  "validateOrigin value =
     bindE (requireRecord value ''origin must be an object'') (\<lambda>props.
     bindE (read_prop ''kind'' props) (\<lambda>kind.
     bindE (case kind of
              JStr s \<Rightarrow> (case origin_kind_of s of Some k \<Rightarrow> Inr k
                       | None \<Rightarrow> Inl (Refuse (''origin.kind must be one of '' @ join_with '', '' (map origin_kind_name ORIGIN_KINDS))))
            | _ \<Rightarrow> Inl (Refuse (''origin.kind must be one of '' @ join_with '', '' (map origin_kind_name ORIGIN_KINDS)))) (\<lambda>originKind.
     bindE (read_prop ''identifier'' props) (\<lambda>rawIdentifier.
     bindE (requireBoundedString rawIdentifier ''origin.identifier'' MAX_ORIGIN_IDENTIFIER_LENGTH) (\<lambda>ident.
     bindE (requireNonEmptyString (JStr ident) ''origin.identifier'') (\<lambda>text.
     bindE (canonicalIdentifier originKind text) (\<lambda>canonical.
     bindE (optional_string ''displayName'' props ''origin.displayName'' MAX_ORIGIN_DISPLAY_NAME_LENGTH) (\<lambda>displayName.
     bindE (optional_string ''icon'' props ''origin.icon'' MAX_ORIGIN_ICON_LENGTH) (\<lambda>icon.
     Inr \<lparr>o_kind = originKind, o_identifier = canonical, o_displayName = displayName, o_icon = icon\<rparr>)))))))))"

subsection \<open>Event templates\<close>

definition eventTooLarge :: schema_error where
  "eventTooLarge = Refuse (''event is too large: at most '' @ show_nat MAX_EVENT_BYTES @ '' bytes as JSON'')"

definition batchTooLarge :: schema_error where
  "batchTooLarge =
     Refuse (''batch is too large: at most '' @ show_nat MAX_BATCH_BYTES @ '' bytes as JSON across every item'')"

definition tag_label :: "nat \<Rightarrow> string" where
  "tag_label index = ''event.tags['' @ show_nat index @ '']''"

fun check_entries :: "int \<Rightarrow> schema_error \<Rightarrow> nat \<Rightarrow> int \<Rightarrow> jsv list \<Rightarrow> int checked" where
  "check_entries limit tooLarge index tagBytes [] = Inr tagBytes"
| "check_entries limit tooLarge index tagBytes (v # vs) =
     bindE (read_value v) (\<lambda>entry.
     bindE (requireString entry (tag_label index @ '' values'')) (\<lambda>s.
       if tagBytes + int (length s) > limit then Inl tooLarge
       else check_entries limit tooLarge index (tagBytes + int (length s)) vs))"

fun check_tags :: "int \<Rightarrow> schema_error \<Rightarrow> nat \<Rightarrow> int \<Rightarrow> jsv list \<Rightarrow> int checked" where
  "check_tags limit tooLarge index tagBytes [] = Inr tagBytes"
| "check_tags limit tooLarge index tagBytes (v # vs) =
     bindE (read_value v) (\<lambda>tag.
     case tag of
       JArr entries \<Rightarrow>
         if length entries = 0 then Inl (Refuse (tag_label index @ '' must be a non-empty array''))
         else if length entries > MAX_TAG_VALUES then
           Inl (Refuse (tag_label index @ '' may hold at most '' @ show_nat MAX_TAG_VALUES @ '' values''))
         else let charged = tagBytes + 2 + int (length entries) * 3
              in if charged > limit then Inl tooLarge
                 else bindE (check_entries limit tooLarge index charged entries) (\<lambda>total.
                        check_tags limit tooLarge (Suc index) total vs)
     | _ \<Rightarrow> Inl (Refuse (tag_label index @ '' must be a non-empty array'')))"

fun copy_string :: "jsv \<Rightarrow> string" where
  "copy_string (JStr s) = s"
| "copy_string _ = []"

fun copy_tag :: "jsv \<Rightarrow> string list" where
  "copy_tag (JArr vs) = map copy_string vs"
| "copy_tag _ = []"

text \<open>\<open>JSON.stringify\<close> of a template, in the order its fields were set.\<close>

definition json_field :: "string \<Rightarrow> string \<Rightarrow> string" where
  "json_field key text = json_string key @ '':'' @ text"

definition event_json :: "EventTemplateInput \<Rightarrow> string" where
  "event_json e =
     ''{'' @ join_with '',''
       ([json_field ''kind'' (show_int (t_kind e)), json_field ''content'' (json_string (t_content e)),
         json_field ''tags'' (''['' @ join_with '','' (map json_array (t_tags e)) @ '']'')]
        @ (case t_created_at e of None \<Rightarrow> [] | Some n \<Rightarrow> [json_field ''created_at'' (show_int n)])
        @ (case t_pubkey e of None \<Rightarrow> [] | Some p \<Rightarrow> [json_field ''pubkey'' (json_string p)])) @ ''}''"

definition event_bytes :: "EventTemplateInput \<Rightarrow> nat" where
  "event_bytes e = utf8ByteLength (units (event_json e))"

definition validateTemplate :: "jsv \<Rightarrow> int \<Rightarrow> schema_error \<Rightarrow> (EventTemplateInput \<times> nat) checked" where
  "validateTemplate value limit tooLarge =
     bindE (requireRecord value ''signEvent needs an event template'') (\<lambda>props.
     bindE (read_prop ''kind'' props) (\<lambda>rawKind.
     bindE (requireNonNegativeInteger rawKind ''event.kind'' MAX_KIND) (\<lambda>kind.
     bindE (read_prop ''content'' props) (\<lambda>rawContent.
     bindE (requireString rawContent ''event.content'') (\<lambda>content.
     bindE (requireE (int (length content) \<le> limit) tooLarge) (\<lambda>_.
     bindE (read_prop ''tags'' props) (\<lambda>tags.
     bindE (case tags of JArr ts \<Rightarrow> Inr ts | _ \<Rightarrow> Inl (Refuse ''event.tags must be an array'')) (\<lambda>rawTags.
     bindE (requireE (length rawTags \<le> MAX_EVENT_TAGS)
              (Refuse (''event.tags may hold at most '' @ show_nat MAX_EVENT_TAGS @ '' tags''))) (\<lambda>_.
     bindE (check_tags limit tooLarge 0 0 rawTags) (\<lambda>_.
     bindE (read_prop ''created_at'' props) (\<lambda>rawCreated.
     bindE (if rawCreated = JUndef then Inr None
            else bindE (requireNonNegativeInteger rawCreated ''event.created_at'' MAX_SAFE_INTEGER) (\<lambda>n. Inr (Some n))) (\<lambda>created.
     bindE (read_prop ''pubkey'' props) (\<lambda>rawPubkey.
     bindE (if rawPubkey = JUndef then Inr None
            else bindE (requirePubkey rawPubkey ''event.pubkey'') (\<lambda>p. Inr (Some p))) (\<lambda>pubkey.
     let event = \<lparr>t_kind = kind, t_content = content, t_tags = map copy_tag rawTags, t_created_at = created,
                   t_pubkey = pubkey\<rparr>;
         byteCount = event_bytes event
     in if int byteCount > limit then Inl tooLarge else Inr (event, byteCount)))))))))))))))"

subsection \<open>Parameters\<close>

definition require_kem_key :: "jsv \<Rightarrow> encrypt_scheme checked" where
  "require_kem_key key =
     (case key of
        JStr k \<Rightarrow>
          if length k \<noteq> RECIPIENT_KEM_KEY_LENGTH then
            Inl (Refuse (''opts.recipientKemKey must be '' @ show_nat RECIPIENT_KEM_KEY_LENGTH @ '' base64 characters''))
          else if \<not> is_base64 k then Inl (Refuse ''opts.recipientKemKey must be base64'')
          else Inr (Pq k)
      | _ \<Rightarrow> Inl (Refuse ''opts.recipientKemKey must be a string''))"

definition validateEncryptScheme :: "(string, jsv) obj \<Rightarrow> encrypt_scheme checked" where
  "validateEncryptScheme raw =
     bindE (read_prop ''opts'' raw) (\<lambda>opts.
       if opts = JUndef then Inr Classic
       else bindE (requireRecord opts ''opts must be an object'') (\<lambda>props.
            bindE (read_prop ''scheme'' props) (\<lambda>scheme.
            bindE (requireE (scheme = JStr ''pq'') (Refuse ''opts.scheme must be pq'')) (\<lambda>_.
            bindE (read_prop ''recipientKemKey'' props) require_kem_key))))"

text \<open>The smaller of a method's limit and the budget; no budget is infinite.\<close>

definition min_budget :: "nat \<Rightarrow> int option \<Rightarrow> int" where
  "min_budget cap budget = (case budget of None \<Rightarrow> int cap | Some b \<Rightarrow> min (int cap) b)"

definition too_large :: "int \<Rightarrow> nat \<Rightarrow> schema_error \<Rightarrow> schema_error" where
  "too_large limit cap own = (if limit < int cap then batchTooLarge else own)"

definition validate_encrypt ::
  "SignerMethod \<Rightarrow> (string, jsv) obj \<Rightarrow> int option \<Rightarrow> (ValidatedParams \<times> nat) checked" where
  "validate_encrypt m raw budget =
     bindE (read_prop ''pubkey'' raw) (\<lambda>rawPubkey.
     bindE (requirePubkey rawPubkey ''pubkey'') (\<lambda>pubkey.
     bindE (read_prop ''plaintext'' raw) (\<lambda>rawPlaintext.
     bindE (requireString rawPlaintext ''plaintext'') (\<lambda>plaintext.
     let limit = min_budget MAX_CRYPTO_PLAINTEXT_BYTES budget;
         tooLarge = too_large limit MAX_CRYPTO_PLAINTEXT_BYTES
           (Refuse (''plaintext may be at most '' @ show_nat MAX_CRYPTO_PLAINTEXT_BYTES @ '' bytes''));
         byteCount = utf8ByteLength (units plaintext)
     in bindE (requireE (int (length plaintext) \<le> limit) tooLarge) (\<lambda>_.
        bindE (requireE (int byteCount \<le> limit) tooLarge) (\<lambda>_.
        if m = Nip04Encrypt then
          bindE (read_prop ''opts'' raw) (\<lambda>opts.
            if opts \<noteq> JUndef then Inl (Refuse ''opts are only supported for nip44Encrypt'')
            else Inr (P_nip04Encrypt pubkey plaintext, byteCount))
        else bindE (validateEncryptScheme raw) (\<lambda>scheme.
          Inr (P_nip44Encrypt pubkey plaintext scheme,
               byteCount + (case scheme of Pq _ \<Rightarrow> RECIPIENT_KEM_KEY_LENGTH | Classic \<Rightarrow> 0)))))))))"

definition decrypt_scheme_of :: "string \<Rightarrow> decrypt_scheme" where
  "decrypt_scheme_of ciphertext =
     (case classifyEnvelope ciphertext of
        ClassicClass \<Rightarrow> ClassicPayload | PqClass \<Rightarrow> PqHybrid | PqUnreadableClass \<Rightarrow> PqUnreadable)"

definition validate_decrypt ::
  "SignerMethod \<Rightarrow> (string, jsv) obj \<Rightarrow> int option \<Rightarrow> (ValidatedParams \<times> nat) checked" where
  "validate_decrypt m raw budget =
     bindE (read_prop ''pubkey'' raw) (\<lambda>rawPubkey.
     bindE (requirePubkey rawPubkey ''pubkey'') (\<lambda>pubkey.
     bindE (read_prop ''ciphertext'' raw) (\<lambda>rawCiphertext.
     bindE (requireNonEmptyString rawCiphertext ''ciphertext'') (\<lambda>ciphertext.
     let limit = min_budget MAX_CRYPTO_CIPHERTEXT_LENGTH budget
     in bindE (requireE (int (length ciphertext) \<le> limit) (too_large limit MAX_CRYPTO_CIPHERTEXT_LENGTH
            (Refuse (''ciphertext may be at most '' @ show_nat MAX_CRYPTO_CIPHERTEXT_LENGTH @ '' characters'')))) (\<lambda>_.
        if m = Nip04Decrypt then Inr (P_nip04Decrypt pubkey ciphertext, length ciphertext)
        else Inr (P_nip44Decrypt pubkey ciphertext (decrypt_scheme_of ciphertext), length ciphertext))))))"

definition validateParams ::
  "SignerMethod \<Rightarrow> (string, jsv) obj \<Rightarrow> int option \<Rightarrow> (ValidatedParams \<times> nat) checked" where
  "validateParams m raw budget =
     (case m of
        GetPublicKey \<Rightarrow> Inr (P_getPublicKey, 0)
      | GetRelays \<Rightarrow> Inr (P_getRelays, 0)
      | SignPqAttestation \<Rightarrow>
          if raw \<noteq> [] then Inl (Refuse ''signPqAttestation takes no params'') else Inr (P_signPqAttestation, 0)
      | SignEvent \<Rightarrow>
          let limit = min_budget MAX_EVENT_BYTES budget
          in bindE (read_prop ''event'' raw) (\<lambda>event.
             bindE (validateTemplate event limit (too_large limit MAX_EVENT_BYTES eventTooLarge)) (\<lambda>(e, byteCount).
               Inr (P_signEvent e, byteCount)))
      | Nip04Encrypt \<Rightarrow> validate_encrypt m raw budget
      | Nip44Encrypt \<Rightarrow> validate_encrypt m raw budget
      | Nip04Decrypt \<Rightarrow> validate_decrypt m raw budget
      | Nip44Decrypt \<Rightarrow> validate_decrypt m raw budget)"

fun wireParams :: "ValidatedParams \<Rightarrow> wire_params" where
  "wireParams P_getPublicKey = NoParams"
| "wireParams P_getRelays = NoParams"
| "wireParams P_signPqAttestation = NoParams"
| "wireParams (P_signEvent e) = EventParams e"
| "wireParams (P_nip04Encrypt pubkey plaintext) = EncryptParams pubkey plaintext None"
| "wireParams (P_nip44Encrypt pubkey plaintext scheme) =
     EncryptParams pubkey plaintext (case scheme of Pq k \<Rightarrow> Some k | Classic \<Rightarrow> None)"
| "wireParams (P_nip04Decrypt pubkey ciphertext) = DecryptParams pubkey ciphertext"
| "wireParams (P_nip44Decrypt pubkey ciphertext _) = DecryptParams pubkey ciphertext"

subsection \<open>Requests and batches\<close>

definition method_of_name :: "SignerMethod list \<Rightarrow> string \<Rightarrow> SignerMethod option" where
  "method_of_name known s = find (\<lambda>m. method_name m = s) known"

definition requireMethod :: "SignerMethod list \<Rightarrow> jsv \<Rightarrow> string \<Rightarrow> SignerMethod checked" where
  "requireMethod known v what =
     (let refusal = Refuse (what @ '' must be one of '' @ join_with '', '' (map method_name known))
      in case v of
           JStr s \<Rightarrow> (case method_of_name known s of Some m \<Rightarrow> Inr m | None \<Rightarrow> Inl refusal)
         | _ \<Rightarrow> Inl refusal)"

definition requireId :: "jsv \<Rightarrow> string \<Rightarrow> string checked" where
  "requireId v what =
     bindE (requireBoundedString v what MAX_REQUEST_ID_LENGTH) (\<lambda>s. requireNonEmptyString (JStr s) what)"

definition requireFinite :: "jsv \<Rightarrow> js_number checked" where
  "requireFinite v =
     (case v of
        JNum n \<Rightarrow> if n = NotFinite then Inl (Refuse ''receivedAt must be a finite number'') else Inr n
      | _ \<Rightarrow> Inl (Refuse ''receivedAt must be a finite number''))"

definition validate :: "jsv \<Rightarrow> ValidatedRequest checked" where
  "validate input =
     bindE (requireRecord input ''request must be an object'') (\<lambda>props.
     bindE (read_prop ''id'' props) (\<lambda>rawId.
     bindE (requireId rawId ''id'') (\<lambda>ident.
     bindE (read_prop ''origin'' props) (\<lambda>rawOrigin.
     bindE (validateOrigin rawOrigin) (\<lambda>origin.
     bindE (read_prop ''method'' props) (\<lambda>rawMethod.
     bindE (requireMethod SIGNER_METHODS rawMethod ''method'') (\<lambda>m.
     bindE (read_prop ''receivedAt'' props) (\<lambda>rawReceived.
     bindE (requireFinite rawReceived) (\<lambda>receivedAt.
     bindE (read_prop ''params'' props) (\<lambda>rawParams.
     bindE (requireRecord rawParams ''params must be an object'') (\<lambda>params.
     bindE (validateParams m params None) (\<lambda>(p, _).
     Inr \<lparr>v_request = \<lparr>r_id = ident, r_origin = origin, r_method = m, r_params = wireParams p,
            r_receivedAt = receivedAt\<rparr>, v_params = p\<rparr>))))))))))))"

definition validateRequest :: "jsv \<Rightarrow> signer_error + ValidatedRequest" where
  "validateRequest input =
     (case validate input of
        Inr v \<Rightarrow> Inr v
      | Inl (Refuse m) \<Rightarrow> Inl (SignerError Invalid_request m)
      | Inl Unreadable \<Rightarrow> Inl (SignerError Invalid_request ''request could not be read''))"

fun disclosedRequest :: "SignerRequest \<Rightarrow> PreparedParams \<Rightarrow> SignerRequest" where
  "disclosedRequest request (Given _) = request"
| "disclosedRequest request (Attestation event) =
     \<lparr>r_id = r_id request, r_origin = r_origin request, r_method = SignEvent, r_params = EventParams event,
      r_receivedAt = r_receivedAt request\<rparr>"

definition is_attestation :: "PreparedParams \<Rightarrow> bool" where
  "is_attestation p \<longleftrightarrow> (case p of Attestation _ \<Rightarrow> True | Given _ \<Rightarrow> False)"

fun disclosed_item :: "SignerBatchItem \<Rightarrow> PreparedParams \<Rightarrow> SignerBatchItem" where
  "disclosed_item item (Given _) = item"
| "disclosed_item item (Attestation event) =
     \<lparr>i_id = i_id item, i_method = SignEvent, i_params = EventParams event\<rparr>"

fun disclosed_items :: "SignerBatchItem list \<Rightarrow> PreparedParams list \<Rightarrow> SignerBatchItem list" where
  "disclosed_items (i # items) (p # ps) = disclosed_item i p # disclosed_items items ps"
| "disclosed_items items [] = items"
| "disclosed_items [] ps = []"

definition disclosedBatch :: "SignerBatchRequest \<Rightarrow> PreparedParams list \<Rightarrow> SignerBatchRequest" where
  "disclosedBatch batch prepared =
     (if \<not> list_ex is_attestation prepared then batch
      else batch\<lparr>b_items := disclosed_items (b_items batch) prepared\<rparr>)"

text \<open>The loop over the items: what is left of the budget goes down by what each item weighs.\<close>

definition item_label :: "nat \<Rightarrow> string" where
  "item_label index = ''items['' @ show_nat index @ '']''"

definition in_item :: "nat \<Rightarrow> 'a checked \<Rightarrow> 'a checked" where
  "in_item index r =
     (case r of Inl (Refuse m) \<Rightarrow> Inl (Refuse (item_label index @ '': '' @ m)) | _ \<Rightarrow> r)"

fun validate_items ::
  "nat \<Rightarrow> string list \<Rightarrow> int \<Rightarrow> jsv list \<Rightarrow> (string \<times> SignerMethod \<times> ValidatedParams \<times> nat) list checked" where
  "validate_items index seen remaining [] = Inr []"
| "validate_items index seen remaining (v # vs) =
     bindE (read_value v) (\<lambda>item.
     bindE (requireRecord item (item_label index @ '' must be an object'')) (\<lambda>raw.
     bindE (read_prop ''id'' raw) (\<lambda>rawId.
     bindE (requireId rawId (item_label index @ ''.id'')) (\<lambda>itemId.
     bindE (requireE (itemId \<notin> set seen) (Refuse (item_label index @ ''.id must be unique within the batch''))) (\<lambda>_.
     bindE (read_prop ''method'' raw) (\<lambda>rawMethod.
     bindE (requireMethod KEY_METHODS rawMethod (item_label index @ ''.method'')) (\<lambda>m.
     bindE (read_prop ''params'' raw) (\<lambda>rawParams.
     bindE (requireRecord rawParams (item_label index @ ''.params must be an object'')) (\<lambda>params.
     bindE (in_item index (validateParams m params (Some remaining))) (\<lambda>(p, byteCount).
     bindE (validate_items (Suc index) (seen @ [itemId]) (remaining - int byteCount) vs) (\<lambda>rest.
     Inr ((itemId, m, p, byteCount) # rest))))))))))))"

definition validateBatch :: "jsv \<Rightarrow> ValidatedBatch checked" where
  "validateBatch input =
     bindE (requireRecord input ''batch must be an object'') (\<lambda>props.
     bindE (read_prop ''id'' props) (\<lambda>rawId.
     bindE (requireId rawId ''id'') (\<lambda>ident.
     bindE (read_prop ''origin'' props) (\<lambda>rawOrigin.
     bindE (validateOrigin rawOrigin) (\<lambda>origin.
     bindE (read_prop ''receivedAt'' props) (\<lambda>rawReceived.
     bindE (requireFinite rawReceived) (\<lambda>receivedAt.
     bindE (read_prop ''items'' props) (\<lambda>items.
     bindE (case items of JArr xs \<Rightarrow> Inr xs | _ \<Rightarrow> Inl (Refuse ''items must be an array'')) (\<lambda>rawItems.
     bindE (requireE (length rawItems \<noteq> 0) (Refuse ''items must hold at least one item'')) (\<lambda>_.
     bindE (requireE (length rawItems \<le> MAX_BATCH_ITEMS)
              (Refuse (''items may hold at most '' @ show_nat MAX_BATCH_ITEMS @ '' items''))) (\<lambda>_.
     bindE (validate_items 0 [] (int MAX_BATCH_BYTES) rawItems) (\<lambda>checkedItems.
     Inr \<lparr>vb_request = \<lparr>b_id = ident, b_origin = origin,
            b_items = map (\<lambda>(i, m, p, _). \<lparr>i_id = i, i_method = m, i_params = wireParams p\<rparr>) checkedItems,
            b_receivedAt = receivedAt\<rparr>,
          vb_items = map (\<lambda>(i, _, p, _). \<lparr>vi_id = i, vi_params = p\<rparr>) checkedItems\<rparr>))))))))))))"

definition validateBatchRequest :: "jsv \<Rightarrow> signer_error + ValidatedBatch" where
  "validateBatchRequest input =
     (case validateBatch input of
        Inr v \<Rightarrow> Inr v
      | Inl (Refuse m) \<Rightarrow> Inl (SignerError Invalid_request m)
      | Inl Unreadable \<Rightarrow> Inl (SignerError Invalid_request ''batch could not be read''))"

subsection \<open>The counted length is the encoded length\<close>

text \<open>The encoder of the Encoding standard: a lone surrogate is read as U+FFFD.\<close>

fun code_points :: "nat list \<Rightarrow> nat list" where
  "code_points (u # v # r) =
     (if 0xd800 \<le> u \<and> u \<le> 0xdbff \<and> 0xdc00 \<le> v \<and> v \<le> 0xdfff
      then (0x10000 + (u - 0xd800) * 0x400 + (v - 0xdc00)) # code_points r
      else (if 0xd800 \<le> u \<and> u \<le> 0xdfff then 0xfffd else u) # code_points (v # r))"
| "code_points [u] = [if 0xd800 \<le> u \<and> u \<le> 0xdfff then 0xfffd else u]"
| "code_points [] = []"

definition utf8_encode :: "nat \<Rightarrow> nat list" where
  "utf8_encode c =
     (if c < 0x80 then [c]
      else if c < 0x800 then [0xc0 + c div 0x40, 0x80 + c mod 0x40]
      else if c < 0x10000 then [0xe0 + c div 0x1000, 0x80 + c div 0x40 mod 0x40, 0x80 + c mod 0x40]
      else [0xf0 + c div 0x40000, 0x80 + c div 0x1000 mod 0x40, 0x80 + c div 0x40 mod 0x40, 0x80 + c mod 0x40])"

text \<open>What is counted at the boundary is the length of what an encoder would emit, whatever the code units.\<close>
theorem utf8ByteLength_is_encoded_length:
  assumes "\<forall>u \<in> set us. u < 0x10000"
  shows "utf8ByteLength us = length (concat (map utf8_encode (code_points us)))"
  using assms
proof (induction us rule: utf8ByteLength.induct)
  case (3 u v r)
  then show ?case by (auto simp: utf8_encode_def)
qed (auto simp: utf8_encode_def)

lemma utf8ByteLength_is_encoded_length_witness:
  "utf8ByteLength [0x48, 0xd83d, 0xde00, 0xd83d] = length (concat (map utf8_encode (code_points [0x48, 0xd83d, 0xde00, 0xd83d])))"
  by (rule utf8ByteLength_is_encoded_length) simp

lemma utf8ByteLength_ge: "length us \<le> utf8ByteLength us"
  by (induction us rule: utf8ByteLength.induct) auto

lemma utf8ByteLength_ascii: "\<forall>u \<in> set us. u < 0x80 \<Longrightarrow> utf8ByteLength us = length us"
  by (induction us rule: utf8ByteLength.induct) auto

subsection \<open>Canonical identifiers\<close>

lemma strip_dots_idem: "strip_trailing_dots (strip_trailing_dots s) = strip_trailing_dots s"
  by (simp add: strip_trailing_dots_def)

lemma strip_dots_set: "set (strip_trailing_dots s) \<subseteq> set s"
  by (auto simp: strip_trailing_dots_def dest: set_dropWhileD)

lemma lower_strip_dots: "to_lower (strip_trailing_dots (to_lower s)) = strip_trailing_dots (to_lower s)"
  by (rule to_lower_same) (metis strip_dots_set subsetD to_lower_idem to_lower_fixed_char)

lemma strip_dots_same: "s = [] \<or> last s \<noteq> CHR ''.'' \<Longrightarrow> strip_trailing_dots s = s"
  by (cases s rule: rev_cases) (auto simp: strip_trailing_dots_def)

lemma last_dotted_quad: "dotted_quad a \<noteq> [] \<and> last (dotted_quad a) \<noteq> CHR ''.''"
proof -
  have "dotted_quad a = (show_nat (a div 2 ^ 24 mod 256) @ ''.'' @ show_nat (a div 2 ^ 16 mod 256) @ ''.''
      @ show_nat (a div 2 ^ 8 mod 256) @ ''.'') @ show_nat (a mod 256)"
    by (simp add: dotted_quad_def)
  then have "last (dotted_quad a) = last (show_nat (a mod 256)) \<and> dotted_quad a \<noteq> []" by simp
  then show ?thesis using show_nat_no_dot by (metis last_in_set show_base_not_Nil)
qed

lemma canonicalHostname_fixed:
  assumes "canonicalHostname v = Some h" shows "canonicalHostname h = Some h"
proof -
  let ?l = "strip_trailing_dots (to_lower v)"
  have l: "?l \<noteq> []" "is_domain ?l" using assms by (auto simp: canonicalHostname_def Let_def split: if_splits)
  show ?thesis
  proof (cases "canonicalIpv4 ?l")
    case NotNumeric
    then have "h = ?l" using assms l by (simp add: canonicalHostname_def Let_def)
    with l NotNumeric show ?thesis by (simp add: canonicalHostname_def Let_def lower_strip_dots strip_dots_idem)
  next
    case (Address a)
    then obtain n where n: "n < 4294967296" "h = dotted_quad n"
      using assms l canonicalIpv4_AddressD [OF Address] by (auto simp: canonicalHostname_def Let_def)
    have "strip_trailing_dots (to_lower h) = h"
      using last_dotted_quad [of n] by (simp add: n(2) lower_dotted_quad strip_dots_same)
    with n last_dotted_quad [of n] show ?thesis
      by (simp add: canonicalHostname_def Let_def is_domain_dotted_quad canonicalIpv4_dotted_quad)
  qed (use assms l in \<open>simp add: canonicalHostname_def Let_def\<close>)
qed

lemma is_domain_no_slash: "is_domain s \<Longrightarrow> CHR ''/'' \<notin> set s"
  using is_domain_chars [of s] by (auto simp: is_domain_char_def char_class_defs)

lemma hostname_no_slash:
  assumes "canonicalHostname v = Some h" shows "CHR ''/'' \<notin> set h"
proof -
  have "is_domain h"
    using assms canonicalIpv4_AddressD is_domain_dotted_quad
    by (auto simp: canonicalHostname_def Let_def split: if_splits ipv4.splits)
  then show ?thesis by (rule is_domain_no_slash)
qed

text \<open>C41: 
  One spelling per caller: a canonical identifier is a fixed point of canonicalisation, and for
  web pages and remote clients letter case makes no difference, not even to the refusal.
\<close>
theorem one_spelling_per_caller:
  assumes "canonicalIdentifier kind ident = Inr c"
  shows "canonicalIdentifier kind c = Inr c
     \<and> (kind = Web \<or> kind = Nip46 \<longrightarrow> canonicalIdentifier kind (to_lower ident) = Inr c)"
proof (cases kind)
  case Web
  show ?thesis
  proof (cases "canonicalHttpOrigin ident")
    case None
    then have h: "canonicalHostname ident = Some c" "c \<noteq> ''null''"
      using assms Web by (auto simp: canonicalIdentifier_def split: option.splits if_splits)
    have "canonicalHttpOrigin c = None" by (rule canonicalHttpOrigin_no_slash [OF hostname_no_slash [OF h(1)]])
    moreover have "canonicalHostname (to_lower ident) = Some c" using h(1) by (simp add: canonicalHostname_def)
    ultimately show ?thesis
      using h Web None canonicalHostname_fixed [OF h(1)] canonicalOrigin_lower [of ident HTTP_PORTS]
      by (simp add: canonicalIdentifier_def canonicalHttpOrigin_def)
  next
    case (Some c')
    then have "c' = c" using assms Web by (simp add: canonicalIdentifier_def)
    with Some have "canonicalOrigin ident HTTP_PORTS = Some c" by (simp add: canonicalHttpOrigin_def)
    from canonicalOrigin_fixed [OF this] this show ?thesis
      by (simp add: canonicalIdentifier_def Web canonicalHttpOrigin_def canonicalOrigin_lower)
  qed
next
  case Nip46
  then have "c = to_lower ident" using assms by (simp add: canonicalIdentifier_def requirePubkey_def split: if_splits)
  with assms Nip46 show ?thesis by (simp add: canonicalIdentifier_def)
qed (use assms in \<open>simp_all add: canonicalIdentifier_def\<close>)

lemma one_spelling_per_caller_witness:
  "canonicalIdentifier Web ''127.0.0.1'' = Inr ''127.0.0.1'' \<and> canonicalIdentifier Web (to_lower ''127.1.'') = Inr ''127.0.0.1''"
proof -
  have "canonicalIdentifier Web ''127.1.'' = Inr ''127.0.0.1''" by code_simp
  from one_spelling_per_caller [OF this] show ?thesis by simp
qed

subsection \<open>What an accepted request is\<close>

definition tag_js :: "string list \<Rightarrow> jsv" where
  "tag_js t = JArr (map JStr t)"

definition event_js :: "EventTemplateInput \<Rightarrow> jsv" where
  "event_js e =
     JObj ([(''kind'', JNum (Whole (t_kind e))), (''content'', JStr (t_content e)), (''tags'', JArr (map tag_js (t_tags e)))]
       @ (case t_created_at e of None \<Rightarrow> [] | Some n \<Rightarrow> [(''created_at'', JNum (Whole n))])
       @ (case t_pubkey e of None \<Rightarrow> [] | Some p \<Rightarrow> [(''pubkey'', JStr p)]))"

fun params_js :: "wire_params \<Rightarrow> (string, jsv) obj" where
  "params_js NoParams = []"
| "params_js (EventParams e) = [(''event'', event_js e)]"
| "params_js (EncryptParams pubkey plaintext opts) =
     [(''pubkey'', JStr pubkey), (''plaintext'', JStr plaintext)]
     @ (case opts of None \<Rightarrow> [] | Some k \<Rightarrow> [(''opts'', JObj [(''scheme'', JStr ''pq''), (''recipientKemKey'', JStr k)])])"
| "params_js (DecryptParams pubkey ciphertext) = [(''pubkey'', JStr pubkey), (''ciphertext'', JStr ciphertext)]"

lemma requireString_Inr [simp]: "requireString v what = Inr s \<longleftrightarrow> v = JStr s"
  by (cases v) (auto simp: requireString_def)

lemma requirePubkey_Inr [simp]: "requirePubkey v what = Inr s \<longleftrightarrow> v = JStr s \<and> is_hex64 s"
  by (cases v) (auto simp: requirePubkey_def)

lemma requireInteger_Inr [simp]:
  "requireNonNegativeInteger v what limit = Inr n \<longleftrightarrow> v = JNum (Whole n) \<and> 0 \<le> n \<and> n \<le> limit"
  by (auto simp: requireNonNegativeInteger_def split: jsv.splits js_number.splits)

lemma requireRecord_Inr [simp]: "requireRecord v m = Inr f \<longleftrightarrow> v = JObj f"
  by (cases v) (auto simp: requireRecord_def)

lemma requireNonEmpty_Inr [simp]: "requireNonEmptyString v what = Inr s \<longleftrightarrow> v = JStr s \<and> s \<noteq> []"
  by (auto simp: requireNonEmptyString_def)

lemma requireBounded_Inr [simp]: "requireBoundedString v what n = Inr s \<longleftrightarrow> v = JStr s \<and> length s \<le> n"
  by (force simp: requireBoundedString_def)

lemma read_value_Inr [simp]: "read_value v = Inr w \<longleftrightarrow> w = v \<and> v \<noteq> JThrows"
  by (auto simp: read_value_def)

lemma check_entries_Inr:
  "check_entries limit err i b vs = Inr tot \<Longrightarrow> vs = map JStr (map copy_string vs)"
  by (induction vs arbitrary: b) (auto split: if_splits)

lemma check_tags_Inr:
  "check_tags limit err i b vs = Inr tot \<Longrightarrow>
     vs = map tag_js (map copy_tag vs) \<and> (\<forall>t \<in> set (map copy_tag vs). t \<noteq> [] \<and> length t \<le> MAX_TAG_VALUES)"
proof (induction vs arbitrary: i b)
  case (Cons v vs)
  then obtain entries where v: "v = JArr entries" by (auto split: jsv.splits)
  with Cons.prems obtain mid where m: "entries \<noteq> []" "length entries \<le> MAX_TAG_VALUES"
    "check_entries limit err i (b + 2 + int (length entries) * 3) entries = Inr mid"
    "check_tags limit err (Suc i) mid vs = Inr tot"
    by (auto simp: Let_def split: if_splits)
  from check_entries_Inr [OF m(3)] Cons.IH [OF m(4)] m(1,2) v show ?case by (auto simp: tag_js_def)
qed simp

definition wf_event :: "EventTemplateInput \<Rightarrow> bool" where
  "wf_event e \<longleftrightarrow>
     0 \<le> t_kind e \<and> t_kind e \<le> MAX_KIND \<and> length (t_tags e) \<le> MAX_EVENT_TAGS
     \<and> (\<forall>t \<in> set (t_tags e). t \<noteq> [] \<and> length t \<le> MAX_TAG_VALUES)
     \<and> (\<forall>n. t_created_at e = Some n \<longrightarrow> 0 \<le> n \<and> n \<le> MAX_SAFE_INTEGER)
     \<and> (\<forall>p. t_pubkey e = Some p \<longrightarrow> is_hex64 p)"

lemma validateTemplate_Inr:
  assumes "validateTemplate value limit err = Inr (e, n)"
  shows "wf_event e \<and> n = event_bytes e \<and> int n \<le> limit \<and> validateTemplate (event_js e) limit err = Inr (e, n)"
proof -
  from assms obtain rawTags tot where t: "check_tags limit err 0 0 rawTags = Inr tot" "length rawTags \<le> MAX_EVENT_TAGS"
      "t_tags e = map copy_tag rawTags" and
    r: "0 \<le> t_kind e" "t_kind e \<le> MAX_KIND" "int (length (t_content e)) \<le> limit" "n = event_bytes e" "int n \<le> limit"
      "\<forall>k. t_created_at e = Some k \<longrightarrow> 0 \<le> k \<and> k \<le> MAX_SAFE_INTEGER" "\<forall>p. t_pubkey e = Some p \<longrightarrow> is_hex64 p"
    by (auto simp: validateTemplate_def Let_def split: if_splits jsv.splits)
  from check_tags_Inr [OF t(1)] t(3) have tags: "map tag_js (t_tags e) = rawTags"
    "\<forall>t \<in> set (t_tags e). t \<noteq> [] \<and> length t \<le> MAX_TAG_VALUES" by simp_all
  have "map copy_tag rawTags = t_tags e" using t(3) by simp
  then have "validateTemplate (event_js e) limit err = Inr (e, n)"
    using t(1,2) r tags(1)
    by (cases e; cases "t_created_at e"; cases "t_pubkey e")
      (simp_all add: validateTemplate_def event_js_def read_prop_def Let_def)
  with r t(2,3) tags(2) show ?thesis by (simp add: wf_event_def)
qed

fun wf_params :: "ValidatedParams \<Rightarrow> bool" where
  "wf_params (P_signEvent e) \<longleftrightarrow> wf_event e \<and> event_bytes e \<le> MAX_EVENT_BYTES"
| "wf_params (P_nip04Encrypt pubkey plaintext) \<longleftrightarrow>
     is_hex64 pubkey \<and> utf8ByteLength (units plaintext) \<le> MAX_CRYPTO_PLAINTEXT_BYTES"
| "wf_params (P_nip44Encrypt pubkey plaintext scheme) \<longleftrightarrow>
     is_hex64 pubkey \<and> utf8ByteLength (units plaintext) \<le> MAX_CRYPTO_PLAINTEXT_BYTES
     \<and> (\<forall>k. scheme = Pq k \<longrightarrow> length k = RECIPIENT_KEM_KEY_LENGTH \<and> is_base64 k)"
| "wf_params (P_nip04Decrypt pubkey ciphertext) \<longleftrightarrow>
     is_hex64 pubkey \<and> ciphertext \<noteq> [] \<and> length ciphertext \<le> MAX_CRYPTO_CIPHERTEXT_LENGTH"
| "wf_params (P_nip44Decrypt pubkey ciphertext scheme) \<longleftrightarrow>
     is_hex64 pubkey \<and> ciphertext \<noteq> [] \<and> length ciphertext \<le> MAX_CRYPTO_CIPHERTEXT_LENGTH
     \<and> scheme = decrypt_scheme_of ciphertext"
| "wf_params P_getPublicKey \<longleftrightarrow> True"
| "wf_params P_getRelays \<longleftrightarrow> True"
| "wf_params P_signPqAttestation \<longleftrightarrow> True"

text \<open>What an item weighs beyond the limit it was measured against: the key of a hybrid encryption.\<close>

fun unmeasured :: "ValidatedParams \<Rightarrow> nat" where
  "unmeasured (P_nip44Encrypt _ _ (Pq _)) = RECIPIENT_KEM_KEY_LENGTH"
| "unmeasured _ = 0"

lemma min_budget_le: "int n \<le> min_budget cap budget \<Longrightarrow> n \<le> cap \<and> (\<forall>b. budget = Some b \<longrightarrow> int n \<le> b)"
  by (auto simp: min_budget_def split: option.splits)

lemma require_kem_key_Inr [simp]:
  "require_kem_key v = Inr scheme \<longleftrightarrow>
     (\<exists>k. v = JStr k \<and> scheme = Pq k \<and> length k = RECIPIENT_KEM_KEY_LENGTH \<and> is_base64 k)"
  by (cases v) (auto simp: require_kem_key_def)

lemma encrypt_scheme_cases:
  "validateEncryptScheme raw = Inr scheme \<Longrightarrow>
     scheme = Classic \<or> (\<exists>k. scheme = Pq k \<and> length k = RECIPIENT_KEM_KEY_LENGTH \<and> is_base64 k)"
  by (auto simp: validateEncryptScheme_def split: if_splits)

lemma validateEncryptScheme_Inr:
  assumes "validateEncryptScheme raw = Inr scheme"
  shows "(\<forall>k. scheme = Pq k \<longrightarrow> length k = RECIPIENT_KEM_KEY_LENGTH \<and> is_base64 k)
     \<and> validateEncryptScheme (params_js (EncryptParams pubkey plaintext (case scheme of Pq k \<Rightarrow> Some k | Classic \<Rightarrow> None)))
         = Inr scheme"
  using encrypt_scheme_cases [OF assms]
proof (elim disjE exE conjE)
  fix k assume k: "scheme = Pq k" "length k = RECIPIENT_KEM_KEY_LENGTH" "is_base64 k"
  then have "require_kem_key (JStr k) = Inr (Pq k)" by simp
  with k show ?thesis by (simp add: validateEncryptScheme_def read_prop_def)
qed (simp add: validateEncryptScheme_def read_prop_def)

definition accepted :: "SignerMethod \<Rightarrow> int option \<Rightarrow> ValidatedParams \<Rightarrow> nat \<Rightarrow> bool" where
  "accepted m budget p n \<longleftrightarrow>
     wf_params p \<and> params_method p = m
     \<and> (\<forall>b. budget = Some b \<longrightarrow> m \<in> set KEY_METHODS \<longrightarrow> m \<noteq> SignPqAttestation \<longrightarrow> int n \<le> b + int (unmeasured p))
     \<and> validateParams m (params_js (wireParams p)) budget = Inr (p, n)"

lemma accepted_encrypt:
  assumes "validate_encrypt m raw budget = Inr (p, n)" "m = Nip04Encrypt \<or> m = Nip44Encrypt"
  shows "accepted m budget p n"
proof -
  let ?limit = "min_budget MAX_CRYPTO_PLAINTEXT_BYTES budget"
  from assms(1) obtain pubkey plaintext where b: "is_hex64 pubkey" "int (length plaintext) \<le> ?limit"
      "int (utf8ByteLength (units plaintext)) \<le> ?limit" and
    p: "if m = Nip04Encrypt then p = P_nip04Encrypt pubkey plaintext \<and> n = utf8ByteLength (units plaintext)
        else \<exists>scheme. validateEncryptScheme raw = Inr scheme \<and> p = P_nip44Encrypt pubkey plaintext scheme
          \<and> n = utf8ByteLength (units plaintext) + (case scheme of Pq _ \<Rightarrow> RECIPIENT_KEM_KEY_LENGTH | Classic \<Rightarrow> 0)"
    by (auto simp: validate_encrypt_def Let_def split: if_splits)
  show ?thesis
  proof (cases "m = Nip04Encrypt")
    case True
    with p b min_budget_le [OF b(3)] show ?thesis
      by (simp add: accepted_def validateParams_def validate_encrypt_def read_prop_def Let_def)
  next
    case False
    with p obtain scheme where s: "validateEncryptScheme raw = Inr scheme" "p = P_nip44Encrypt pubkey plaintext scheme"
      "n = utf8ByteLength (units plaintext) + (case scheme of Pq _ \<Rightarrow> RECIPIENT_KEM_KEY_LENGTH | Classic \<Rightarrow> 0)" by auto
    from False assms(2) b min_budget_le [OF b(3)] validateEncryptScheme_Inr [OF s(1), of pubkey plaintext] s(2,3)
    show ?thesis
      by (cases scheme) (auto simp: accepted_def validateParams_def validate_encrypt_def read_prop_def Let_def)
  qed
qed

lemma accepted_decrypt:
  assumes "validate_decrypt m raw budget = Inr (p, n)" "m = Nip04Decrypt \<or> m = Nip44Decrypt"
  shows "accepted m budget p n"
proof -
  let ?limit = "min_budget MAX_CRYPTO_CIPHERTEXT_LENGTH budget"
  from assms obtain pubkey ciphertext where b: "is_hex64 pubkey" "ciphertext \<noteq> []" "int (length ciphertext) \<le> ?limit" and
    p: "p = (if m = Nip04Decrypt then P_nip04Decrypt pubkey ciphertext
             else P_nip44Decrypt pubkey ciphertext (decrypt_scheme_of ciphertext))" "n = length ciphertext"
    by (auto simp: validate_decrypt_def Let_def split: if_splits)
  from b p assms(2) min_budget_le [OF b(3)] show ?thesis
    by (auto simp: accepted_def validateParams_def validate_decrypt_def read_prop_def Let_def)
qed

lemma accepted_params:
  assumes "validateParams m raw budget = Inr (p, n)" shows "accepted m budget p n"
proof (cases m)
  case SignEvent
  let ?limit = "min_budget MAX_EVENT_BYTES budget"
  from assms SignEvent obtain ev e where
    "validateTemplate ev ?limit (too_large ?limit MAX_EVENT_BYTES eventTooLarge) = Inr (e, n)" "p = P_signEvent e"
    by (auto simp: validateParams_def Let_def)
  with validateTemplate_Inr [OF this(1)] SignEvent min_budget_le [of n MAX_EVENT_BYTES budget] show ?thesis
    by (auto simp: accepted_def validateParams_def read_prop_def Let_def event_js_def)
next
  case Nip04Encrypt
  with assms show ?thesis by (intro accepted_encrypt [of m raw]) (simp_all add: validateParams_def)
next
  case Nip44Encrypt
  with assms show ?thesis by (intro accepted_encrypt [of m raw]) (simp_all add: validateParams_def)
next
  case Nip04Decrypt
  with assms show ?thesis by (intro accepted_decrypt [of m raw]) (simp_all add: validateParams_def)
next
  case Nip44Decrypt
  with assms show ?thesis by (intro accepted_decrypt [of m raw]) (simp_all add: validateParams_def)
qed (use assms in \<open>auto simp: validateParams_def accepted_def KEY_METHODS_def split: if_splits\<close>)


definition note_input :: jsv where
  "note_input = JObj [(''id'', JStr ''1''),
     (''origin'', JObj [(''kind'', JStr ''web''), (''identifier'', JStr ''HTTPS://Example.com:443'')]),
     (''method'', JStr ''signEvent''),
     (''params'', JObj [(''event'', JObj [(''kind'', JNum (Whole 1)), (''content'', JStr ''hi''),
        (''tags'', JArr [JArr [JStr ''t'', JStr ''x'']])])]),
     (''receivedAt'', JNum (Whole 5))]"

definition note_event :: EventTemplateInput where
  "note_event = \<lparr>t_kind = 1, t_content = ''hi'', t_tags = [[''t'', ''x'']], t_created_at = None, t_pubkey = None\<rparr>"

definition note_request :: ValidatedRequest where
  "note_request = \<lparr>v_request = \<lparr>r_id = ''1'',
       r_origin = \<lparr>o_kind = Web, o_identifier = ''https://example.com'', o_displayName = None, o_icon = None\<rparr>,
       r_method = SignEvent, r_params = EventParams note_event, r_receivedAt = Whole 5\<rparr>,
     v_params = P_signEvent note_event\<rparr>"

lemma note_accepted: "validateRequest note_input = Inr note_request"
  by code_simp


subsection \<open>Batches\<close>

lemma requireMethod_Inr:
  "requireMethod known v what = Inr m \<Longrightarrow> v = JStr (method_name m) \<and> m \<in> set known"
  by (auto simp: requireMethod_def method_of_name_def find_Some_iff Let_def split: jsv.splits option.splits)

lemma requireId_Inr [simp]:
  "requireId v what = Inr s \<longleftrightarrow> v = JStr s \<and> s \<noteq> [] \<and> length s \<le> MAX_REQUEST_ID_LENGTH"
  by (auto simp: requireId_def)

lemma in_item_Inr [simp]: "in_item index r = Inr x \<longleftrightarrow> r = Inr x"
  by (auto simp: in_item_def split: sum.splits schema_error.splits)

lemma validate_items_Nil: "validate_items index seen remaining vs = Inr [] \<Longrightarrow> vs = []"
  by (cases vs) auto

lemma nothing_overdrawn:
  assumes p: "validateParams m raw (Some remaining) = Inr (p, n)" and r: "remaining < 0" and m: "m \<in> set KEY_METHODS"
  shows "n = 0"
proof (cases m)
  case SignEvent
  with p obtain ev err e where "validateTemplate ev (min_budget MAX_EVENT_BYTES (Some remaining)) err = Inr (e, n)"
    by (auto simp: validateParams_def Let_def)
  from validateTemplate_Inr [OF this] r show ?thesis by (auto simp: min_budget_def)
next
  case SignPqAttestation
  with p show ?thesis by (auto simp: validateParams_def split: if_splits)
next
  case Nip04Encrypt
  with p r show ?thesis by (auto simp: validateParams_def validate_encrypt_def Let_def min_budget_def)
next
  case Nip44Encrypt
  with p r show ?thesis by (auto simp: validateParams_def validate_encrypt_def Let_def min_budget_def)
next
  case Nip04Decrypt
  with p r show ?thesis by (auto simp: validateParams_def validate_decrypt_def Let_def min_budget_def)
next
  case Nip44Decrypt
  with p r show ?thesis by (auto simp: validateParams_def validate_decrypt_def Let_def min_budget_def)
qed (use m in \<open>simp_all add: KEY_METHODS_def\<close>)

text \<open>
  Every item but the last is charged before the next is read, so only the unmeasured part of one
  item can go past the budget: once it is overdrawn, nothing more is accepted.
\<close>

lemma overdrawn:
  assumes "validate_items index seen remaining vs = Inr checkedItems" "remaining < 0"
  shows "sum_list (map (\<lambda>(_, _, _, n). n) checkedItems) = 0"
  using assms
proof (induction vs arbitrary: index seen remaining checkedItems)
  case (Cons v vs)
  then obtain i m p n raw rest where p: "validateParams m raw (Some remaining) = Inr (p, n)" and
    rest: "validate_items (Suc index) (seen @ [i]) (remaining - int n) vs = Inr rest" "checkedItems = (i, m, p, n) # rest"
    and m: "m \<in> set KEY_METHODS"
    by (auto dest: requireMethod_Inr)
  have "n = 0" by (rule nothing_overdrawn [OF p Cons.prems(2) m])
  with Cons.IH [OF rest(1)] Cons.prems(2) rest(2) show ?case by simp
qed simp

lemma validate_items_Inr:
  "validate_items index seen remaining vs = Inr checkedItems \<Longrightarrow>
     length checkedItems = length vs \<and> distinct (map fst checkedItems) \<and> set (map fst checkedItems) \<inter> set seen = {}
     \<and> (\<forall>(i, m, p, n) \<in> set checkedItems. i \<noteq> [] \<and> length i \<le> MAX_REQUEST_ID_LENGTH \<and> m \<in> set KEY_METHODS
          \<and> wf_params p \<and> params_method p = m)
     \<and> (0 \<le> remaining \<longrightarrow>
          int (sum_list (map (\<lambda>(_, _, _, n). n) checkedItems)) \<le> remaining + int RECIPIENT_KEM_KEY_LENGTH)"
proof (induction vs arbitrary: index seen remaining checkedItems)
  case (Cons v vs)
  then obtain i m p n raw rest where
    i: "i \<noteq> []" "length i \<le> MAX_REQUEST_ID_LENGTH" "i \<notin> set seen" and
    p: "validateParams m raw (Some remaining) = Inr (p, n)" and m: "m \<in> set KEY_METHODS" and
    rest: "validate_items (Suc index) (seen @ [i]) (remaining - int n) vs = Inr rest" "checkedItems = (i, m, p, n) # rest"
    by (auto dest: requireMethod_Inr)
  note IH = Cons.IH [OF rest(1)]
  have a: "wf_params p" "params_method p = m" "m \<noteq> SignPqAttestation \<longrightarrow> int n \<le> remaining + int (unmeasured p)"
    using accepted_params [OF p] m by (auto simp: accepted_def)
  have u: "unmeasured p \<le> RECIPIENT_KEM_KEY_LENGTH" by (cases p rule: unmeasured.cases) auto
  have z: "m = SignPqAttestation \<longrightarrow> n = 0" using p by (auto simp: validateParams_def split: if_splits)
  have "0 \<le> remaining \<longrightarrow> int (n + sum_list (map (\<lambda>(_, _, _, n). n) rest)) \<le> remaining + int RECIPIENT_KEM_KEY_LENGTH"
  proof (cases "0 \<le> remaining - int n")
    case True
    with IH show ?thesis by simp
  next
    case False
    then have "sum_list (map (\<lambda>(_, _, _, n). n) rest) = 0" using overdrawn [OF rest(1)] by linarith
    with False a(3) u z show ?thesis by (cases "m = SignPqAttestation") linarith+
  qed
  with IH i m a(1,2) show ?case unfolding rest(2) by auto
qed simp

definition batch_weight :: "(string \<times> SignerMethod \<times> ValidatedParams \<times> nat) list \<Rightarrow> nat" where
  "batch_weight xs = sum_list (map (\<lambda>(_, _, _, n). n) xs)"

text \<open>C42: 
  An accepted batch has between one and 64 items with distinct ids, each a method that uses the
  key and within its own limits, and all its items together weigh no more than the budget and one
  recipient key.
\<close>
theorem accepted_batch_is_bounded:
  assumes "validateBatchRequest (JObj props) = Inr v" "map_of props ''items'' = Some (JArr rawItems)"
  shows "\<exists>checkedItems. validate_items 0 [] (int MAX_BATCH_BYTES) rawItems = Inr checkedItems
     \<and> map vi_id (vb_items v) = map fst checkedItems \<and> distinct (map vi_id (vb_items v))
     \<and> 0 < length (vb_items v) \<and> length (vb_items v) \<le> MAX_BATCH_ITEMS
     \<and> map i_id (b_items (vb_request v)) = map vi_id (vb_items v)
     \<and> (\<forall>item \<in> set (vb_items v). wf_params (vi_params item) \<and> params_method (vi_params item) \<in> set KEY_METHODS)
     \<and> batch_weight checkedItems \<le> MAX_BATCH_BYTES + RECIPIENT_KEM_KEY_LENGTH"
proof -
  have "validateBatch (JObj props) = Inr v"
    using assms(1) by (auto simp: validateBatchRequest_def split: sum.splits schema_error.splits)
  then obtain checkedItems where
    c: "validate_items 0 [] (int MAX_BATCH_BYTES) rawItems = Inr checkedItems"
      "length rawItems \<noteq> 0" "length rawItems \<le> MAX_BATCH_ITEMS"
      "vb_items v = map (\<lambda>(i, _, p, _). \<lparr>vi_id = i, vi_params = p\<rparr>) checkedItems"
      "b_items (vb_request v) = map (\<lambda>(i, m, p, _). \<lparr>i_id = i, i_method = m, i_params = wireParams p\<rparr>) checkedItems"
    using assms(2) by (auto simp: validateBatch_def read_prop_def split: jsv.splits)
  have ids: "map vi_id (vb_items v) = map fst checkedItems" "map i_id (b_items (vb_request v)) = map fst checkedItems"
    unfolding c(4,5) by (auto simp: case_prod_beta)
  from validate_items_Inr [OF c(1)] c(2,3) ids show ?thesis
    by (intro exI [of _ checkedItems])
      (auto simp: c(1,4) batch_weight_def case_prod_beta simp del: map_map)
qed

definition web_origin :: jsv where
  "web_origin = JObj [(''kind'', JStr ''web''), (''identifier'', JStr ''https://example.com'')]"

definition batch_input :: "jsv list \<Rightarrow> (string, jsv) obj" where
  "batch_input items =
     [(''id'', JStr ''b''), (''origin'', web_origin), (''receivedAt'', JNum (Whole 5)), (''items'', JArr items)]"

definition batch_item :: "string \<Rightarrow> SignerMethod \<Rightarrow> wire_params \<Rightarrow> jsv" where
  "batch_item ident m params =
     JObj [(''id'', JStr ident), (''method'', JStr (method_name m)), (''params'', JObj (params_js params))]"

definition bare_event :: "string \<Rightarrow> EventTemplateInput" where
  "bare_event content = \<lparr>t_kind = 1, t_content = content, t_tags = [], t_created_at = None, t_pubkey = None\<rparr>"

lemma web_origin_ok:
  "validateOrigin web_origin = Inr \<lparr>o_kind = Web, o_identifier = ''https://example.com'', o_displayName = None, o_icon = None\<rparr>"
  by code_simp

lemma batch_from_items:
  assumes "validate_items 0 [] (int MAX_BATCH_BYTES) items = Inr checkedItems" "items \<noteq> []" "length items \<le> MAX_BATCH_ITEMS"
  shows "\<exists>v. validateBatchRequest (JObj (batch_input items)) = Inr v \<and> map vi_id (vb_items v) = map fst checkedItems"
  using assms
  by (simp add: validateBatchRequest_def validateBatch_def batch_input_def read_prop_def read_value_def requireRecord_def
      requireId_def requireBoundedString_def requireNonEmptyString_def requireString_def MAX_REQUEST_ID_LENGTH_def
      web_origin_ok requireFinite_def case_prod_beta)
    (simp add: web_origin_def)

lemma requireMethod_name: "m \<in> set KEY_METHODS \<Longrightarrow> requireMethod KEY_METHODS (JStr (method_name m)) what = Inr m"
  by (cases m) (simp_all add: requireMethod_def method_of_name_def KEY_METHODS_def Let_def)

lemma validate_items_step:
  assumes "ident \<noteq> []" "length ident \<le> MAX_REQUEST_ID_LENGTH" "ident \<notin> set seen" "m \<in> set KEY_METHODS"
    "validateParams m (params_js params) (Some remaining) = Inr (p, n)"
    "validate_items (Suc index) (seen @ [ident]) (remaining - int n) vs = Inr rest"
  shows "validate_items index seen remaining (batch_item ident m params # vs) = Inr ((ident, m, p, n) # rest)"
proof -
  have "requireId (JStr ident) w = Inr ident" for w using assms(1,2) by simp
  then show ?thesis using assms(3-6)
    by (simp add: batch_item_def read_value_def requireRecord_def read_prop_def requireMethod_name in_item_def)
qed

lemma json_char_a: "json_char CHR ''a'' = ''a''"
  by code_simp

lemma bare_event_bytes: "event_bytes (bare_event (replicate n CHR ''a'')) = n + 33"
proof -
  have c: "concat (map json_char (replicate n CHR ''a'')) = replicate n CHR ''a''"
    by (induction n) (simp_all add: json_char_a)
  have n: "show_int 1 = ''1''" by code_simp
  have k: "json_string ''kind'' = [CHR 0x22] @ ''kind'' @ [CHR 0x22]" "json_string ''content'' = [CHR 0x22] @ ''content'' @ [CHR 0x22]"
    "json_string ''tags'' = [CHR 0x22] @ ''tags'' @ [CHR 0x22]" by code_simp+
  have q: "char_of (34 :: nat) = CHR 0x22" by code_simp
  have s: "json_string (replicate n CHR ''a'') = [CHR 0x22] @ replicate n CHR ''a'' @ [CHR 0x22]"
    unfolding json_string_def c by (simp add: q)
  have j: "event_json (bare_event (replicate n CHR ''a'')) =
      ''{'' @ [CHR 0x22] @ ''kind'' @ [CHR 0x22] @ '':1,'' @ [CHR 0x22] @ ''content'' @ [CHR 0x22] @ '':''
      @ [CHR 0x22] @ replicate n CHR ''a'' @ [CHR 0x22] @ '','' @ [CHR 0x22] @ ''tags'' @ [CHR 0x22] @ '':[]}''"
    by (simp add: event_json_def bare_event_def json_field_def n k s)
  show ?thesis unfolding event_bytes_def units_def
    by (subst utf8ByteLength_ascii) (auto simp: j)
qed

lemma bare_event_accepted:
  assumes "n + 33 \<le> MAX_EVENT_BYTES"
  shows "validateParams SignEvent (params_js (EventParams (bare_event (replicate n CHR ''a'')))) (Some (int MAX_EVENT_BYTES))
     = Inr (P_signEvent (bare_event (replicate n CHR ''a'')), n + 33)"
proof -
  have "validateTemplate (event_js (bare_event (replicate n CHR ''a''))) (int MAX_EVENT_BYTES) err
      = Inr (bare_event (replicate n CHR ''a''), n + 33)" for err
    using assms bare_event_bytes [of n]
    by (simp add: validateTemplate_def event_js_def bare_event_def read_prop_def read_value_def requireRecord_def
        requireNonNegativeInteger_def requireString_def MAX_KIND_def requireE_def Let_def)
  then show ?thesis by (simp add: validateParams_def read_prop_def read_value_def event_js_def min_budget_def Let_def)
qed

definition any_kem_key :: string where
  "any_kem_key = replicate 2092 CHR ''A''"

lemma any_kem_key_ok: "length any_kem_key = RECIPIENT_KEM_KEY_LENGTH" "is_base64 any_kem_key"
proof -
  have "takeWhile (\<lambda>c. c \<in> set BASE64_ALPHABET) (replicate n CHR ''A'') = replicate n CHR ''A''" for n
    by (induction n) (simp_all add: BASE64_ALPHABET_def)
  then show "is_base64 any_kem_key" by (simp add: is_base64_def any_kem_key_def Let_def)
qed (simp add: any_kem_key_def RECIPIENT_KEM_KEY_LENGTH_def)

lemma empty_hybrid_accepted:
  assumes "0 \<le> b"
  shows "validateParams Nip44Encrypt (params_js (EncryptParams (replicate 64 CHR ''a'') [] (Some any_kem_key))) (Some b)
     = Inr (P_nip44Encrypt (replicate 64 CHR ''a'') [] (Pq any_kem_key), 2092)"
proof -
  have h: "is_hex64 (replicate 64 CHR ''a'')" by (simp add: is_hex64_def list_all_iff char_class_defs)
  have "require_kem_key (JStr any_kem_key) = Inr (Pq any_kem_key)" using any_kem_key_ok by simp
  then show ?thesis using assms h
    by (simp add: validateParams_def validate_encrypt_def validateEncryptScheme_def read_prop_def read_value_def
        requirePubkey_def requireString_def requireRecord_def requireE_def units_def min_budget_def Let_def
        RECIPIENT_KEM_KEY_LENGTH_def)
qed

theorem accepted_batch_is_bounded_witness:
  "\<exists>v. validateBatchRequest (JObj (batch_input [batch_item ''1'' SignEvent (EventParams (bare_event []))])) = Inr v
     \<and> 0 < length (vb_items v) \<and> length (vb_items v) \<le> 64"
proof -
  let ?items = "[batch_item ''1'' SignEvent (EventParams (bare_event []))]"
  have p: "validateParams SignEvent (params_js (EventParams (bare_event []))) (Some (int MAX_BATCH_BYTES))
      = Inr (P_signEvent (bare_event []), 33)"
    using bare_event_accepted [of 0] by (simp add: MAX_BATCH_BYTES_def MAX_EVENT_BYTES_def)
  have "validate_items 0 [] (int MAX_BATCH_BYTES) ?items = Inr [(''1'', SignEvent, P_signEvent (bare_event []), 33)]"
    by (rule validate_items_step) (use p in \<open>simp_all add: KEY_METHODS_def MAX_REQUEST_ID_LENGTH_def\<close>)
  from batch_from_items [OF this] obtain v where v: "validateBatchRequest (JObj (batch_input ?items)) = Inr v"
    by (auto simp: MAX_BATCH_ITEMS_def)
  have "map_of (batch_input ?items) ''items'' = Some (JArr ?items)" by (simp add: batch_input_def)
  from accepted_batch_is_bounded [OF v this] v show ?thesis unfolding MAX_BATCH_ITEMS_def by blast
qed

text \<open>C43: 
  The budget can be overrun: a note that fills it to the last byte and an empty hybrid encryption
  after it are accepted together, because the recipient key is charged only after its item has
  been let in.
\<close>
theorem batch_budget_overrun:
  "\<exists>items v checkedItems. validateBatchRequest (JObj (batch_input items)) = Inr v
     \<and> validate_items 0 [] (int MAX_BATCH_BYTES) items = Inr checkedItems
     \<and> batch_weight checkedItems = MAX_BATCH_BYTES + RECIPIENT_KEM_KEY_LENGTH"
proof -
  let ?n = "MAX_EVENT_BYTES - 33" and ?a = "CHR ''a''"
  let ?items = "[batch_item ''1'' SignEvent (EventParams (bare_event (replicate ?n ?a))),
     batch_item ''2'' Nip44Encrypt (EncryptParams (replicate 64 ?a) [] (Some any_kem_key))]"
  have n: "?n + 33 = MAX_EVENT_BYTES" by (simp add: MAX_EVENT_BYTES_def)
  have v: "validate_items 0 [] (int MAX_BATCH_BYTES) ?items = Inr
     [(''1'', SignEvent, P_signEvent (bare_event (replicate ?n ?a)), MAX_EVENT_BYTES),
      (''2'', Nip44Encrypt, P_nip44Encrypt (replicate 64 ?a) [] (Pq any_kem_key), 2092)]"
  proof (rule validate_items_step)
    show "validateParams SignEvent (params_js (EventParams (bare_event (replicate ?n ?a)))) (Some (int MAX_BATCH_BYTES))
        = Inr (P_signEvent (bare_event (replicate ?n ?a)), MAX_EVENT_BYTES)"
      using bare_event_accepted [of ?n] unfolding n MAX_BATCH_BYTES_def by simp
    show "validate_items (Suc 0) ([] @ [''1'']) (int MAX_BATCH_BYTES - int MAX_EVENT_BYTES)
        [batch_item ''2'' Nip44Encrypt (EncryptParams (replicate 64 ?a) [] (Some any_kem_key))]
       = Inr [(''2'', Nip44Encrypt, P_nip44Encrypt (replicate 64 ?a) [] (Pq any_kem_key), 2092)]"
      by (rule validate_items_step)
        (simp_all only: empty_hybrid_accepted MAX_BATCH_BYTES_def, simp_all add: KEY_METHODS_def MAX_REQUEST_ID_LENGTH_def)
  qed (simp_all add: KEY_METHODS_def MAX_REQUEST_ID_LENGTH_def)
  have "length ?items \<le> MAX_BATCH_ITEMS" by (simp add: MAX_BATCH_ITEMS_def)
  from batch_from_items [OF v _ this] v show ?thesis
    by (fastforce simp: batch_weight_def MAX_BATCH_BYTES_def RECIPIENT_KEM_KEY_LENGTH_def)
qed

end
