(* ===== verification/Sign_Remote.thy ===== *)
theory Sign_Remote
  imports Sign_Schema Pq_Attest
begin

section \<open>Answers of a remote signer\<close>

text \<open>
  \<^verbatim>\<open>packages/identity/src/signing/remoteEvent.ts\<close> and the pure part of
  \<^verbatim>\<open>packages/identity/src/signing/pq.ts\<close>. What a bunker sends back is a JavaScript value, as at
  the request boundary; \<open>verifyEvent\<close> of nostr-tools is an argument. A read that throws is
  \<open>Unreadable\<close>. A value has one value: a property is not read twice with two results.
\<close>

record VerifiedRemoteEvent =
  ve_id :: string
  ve_pubkey :: string
  ve_created_at :: int
  ve_kind :: int
  ve_tags :: "string list list"
  ve_content :: string
  ve_sig :: string

definition string_of :: "jsv \<Rightarrow> string option" where
  "string_of v = (case v of JStr s \<Rightarrow> Some s | _ \<Rightarrow> None)"

definition isNonNegativeInteger :: "jsv \<Rightarrow> bool" where
  "isNonNegativeInteger v = (case v of JNum (Whole n) \<Rightarrow> 0 \<le> n | _ \<Rightarrow> False)"

text \<open>The serialiser walks the whole value, and fails where a read fails.\<close>

fun unreadable :: "jsv \<Rightarrow> bool" where
  "unreadable JThrows = True"
| "unreadable (JArr vs) = list_ex unreadable vs"
| "unreadable (JObj props) = list_ex (\<lambda>p. unreadable (snd p)) props"
| "unreadable _ = False"

definition tags_js :: "string list list \<Rightarrow> jsv" where
  "tags_js tags = JArr (map tag_js tags)"

text \<open>
  Two values with the same JSON text, where one is an array of arrays of strings, are the same
  array: every other value has another text.
\<close>

definition sameTags :: "jsv \<Rightarrow> string list list \<Rightarrow> bool checked" where
  "sameTags left right = (if unreadable left then Inl Unreadable else Inr (left = tags_js right))"

definition object_props :: "jsv \<Rightarrow> (string, jsv) obj option" where
  "object_props v = (case v of JObj props \<Rightarrow> Some props | JArr _ \<Rightarrow> Some [] | _ \<Rightarrow> None)"

text \<open>An operand of \<open>||\<close> is evaluated only while the ones before it are false.\<close>

definition orE :: "'e + bool \<Rightarrow> 'e + bool \<Rightarrow> 'e + bool" where
  "orE a b = bindE a (\<lambda>x. if x then Inr True else b)"

definition differs :: "string \<Rightarrow> (string, jsv) obj \<Rightarrow> jsv \<Rightarrow> bool checked" where
  "differs key event expected = bindE (read_prop key event) (\<lambda>v. Inr (v \<noteq> expected))"

definition changed_event :: "(string, jsv) obj \<Rightarrow> EventTemplateInput \<Rightarrow> bool checked" where
  "changed_event event template =
     orE (differs ''kind'' event (JNum (Whole (t_kind template))))
    (orE (differs ''content'' event (JStr (t_content template)))
    (orE (bindE (read_prop ''tags'' event) (\<lambda>tags. bindE (sameTags tags (t_tags template)) (\<lambda>same. Inr (\<not> same))))
         (case t_created_at template of
            None \<Rightarrow> bindE (read_prop ''created_at'' event) (\<lambda>v. Inr (\<not> isNonNegativeInteger v))
          | Some n \<Rightarrow> differs ''created_at'' event (JNum (Whole n)))))"

definition remote_failure :: "schema_error \<Rightarrow> failure" where
  "remote_failure e = (case e of Refuse m \<Rightarrow> Foreign m | Unreadable \<Rightarrow> Foreign [])"

definition lift_remote :: "'a checked \<Rightarrow> failure + 'a" where
  "lift_remote m = map_sum remote_failure id m"

definition refuse_remote :: "signer_error_code \<Rightarrow> string \<Rightarrow> failure" where
  "refuse_remote c m = Signer (SignerError c m)"

definition whole_of :: "jsv \<Rightarrow> int" where
  "whole_of v = (case v of JNum (Whole n) \<Rightarrow> n | _ \<Rightarrow> 0)"

definition verifyRemoteSignedEvent ::
  "(VerifiedRemoteEvent \<Rightarrow> bool) \<Rightarrow> jsv \<Rightarrow> EventTemplateInput \<Rightarrow> string \<Rightarrow> failure + VerifiedRemoteEvent" where
  "verifyRemoteSignedEvent verifyEvent answer template expectedPubkey =
     (case object_props answer of
        None \<Rightarrow> Inl (refuse_remote Operation_failed ''Remote signer did not return an event'')
      | Some event \<Rightarrow>
          bindE (lift_remote (differs ''pubkey'' event (JStr expectedPubkey))) (\<lambda>other.
          bindE (requireE (\<not> other) (refuse_remote Author_mismatch ''Event author does not match the active account'')) (\<lambda>_.
          bindE (lift_remote (changed_event event template)) (\<lambda>changed.
          bindE (requireE (\<not> changed) (refuse_remote Operation_failed ''Remote signer changed the approved event'')) (\<lambda>_.
          bindE (lift_remote (read_prop ''id'' event)) (\<lambda>rawId.
          bindE (lift_remote (if string_of rawId = None then Inr JUndef else read_prop ''sig'' event)) (\<lambda>rawSig.
            (case (string_of rawId, string_of rawSig) of
               (Some i, Some s) \<Rightarrow>
                 bindE (lift_remote (read_prop ''created_at'' event)) (\<lambda>rawCreated.
                 let verified = \<lparr>ve_id = i, ve_pubkey = expectedPubkey, ve_created_at = whole_of rawCreated,
                        ve_kind = t_kind template, ve_tags = t_tags template, ve_content = t_content template, ve_sig = s\<rparr>
                  in if verifyEvent verified then Inr verified
                     else Inl (refuse_remote Operation_failed ''Remote signer returned an invalid signature''))
             | _ \<Rightarrow> Inl (refuse_remote Operation_failed ''Remote signer did not return a signed event'')))))))))"

subsection \<open>Post-quantum routing\<close>

definition PQ_SEED_WORD_COUNT :: nat where "PQ_SEED_WORD_COUNT = 24"

fun words :: "string \<Rightarrow> string \<Rightarrow> string list" where
  "words [] word = (if word = [] then [] else [word])"
| "words (c # s) word =
     (if is_space c then (if word = [] then words s [] else word # words s []) else words s (word @ [c]))"

definition countWords :: "string \<Rightarrow> nat" where
  "countWords value = length (words value [])"

fun needsPqKeys :: "ValidatedParams \<Rightarrow> bool" where
  "needsPqKeys (P_nip44Encrypt _ _ scheme) = (scheme \<noteq> Classic)"
| "needsPqKeys (P_nip44Decrypt _ _ scheme) = (scheme \<noteq> ClassicPayload)"
| "needsPqKeys P_signPqAttestation = True"
| "needsPqKeys _ = False"

definition remotePqRefusal :: "ValidatedParams \<Rightarrow> string option" where
  "remotePqRefusal params =
     (if \<not> needsPqKeys params then None
      else case params_method params of
             Nip44Encrypt \<Rightarrow> Some ''Remote signers do not support post-quantum encryption''
           | Nip44Decrypt \<Rightarrow> Some ''Remote signers cannot read post-quantum messages''
           | _ \<Rightarrow> Some ''Remote signers do not support post-quantum keys'')"

subsection \<open>What is accepted\<close>

definition event_fields :: "VerifiedRemoteEvent \<Rightarrow> (string, jsv) obj" where
  "event_fields v =
     [(''id'', JStr (ve_id v)), (''pubkey'', JStr (ve_pubkey v)), (''created_at'', JNum (Whole (ve_created_at v))),
      (''kind'', JNum (Whole (ve_kind v))), (''tags'', tags_js (ve_tags v)), (''content'', JStr (ve_content v)),
      (''sig'', JStr (ve_sig v))]"

definition requested :: "EventTemplateInput \<Rightarrow> string \<Rightarrow> VerifiedRemoteEvent \<Rightarrow> bool" where
  "requested template expectedPubkey v \<longleftrightarrow>
     ve_pubkey v = expectedPubkey \<and> ve_kind v = t_kind template \<and> ve_content v = t_content template
     \<and> ve_tags v = t_tags template
     \<and> (case t_created_at template of None \<Rightarrow> 0 \<le> ve_created_at v | Some n \<Rightarrow> ve_created_at v = n)"

lemma read_prop_Inr: "read_prop k props = Inr v \<longleftrightarrow>
    (map_of props k = None \<and> v = JUndef) \<or> (map_of props k = Some v \<and> v \<noteq> JThrows)"
  by (auto simp: read_prop_def read_value_def split: option.splits)

lemma string_of_Some [simp]: "string_of v = Some x \<longleftrightarrow> v = JStr x"
  by (cases v) (simp_all add: string_of_def)

lemma isNonNegativeInteger_iff: "isNonNegativeInteger v \<longleftrightarrow> (\<exists>n \<ge> 0. v = JNum (Whole n))"
  by (auto simp: isNonNegativeInteger_def split: jsv.split js_number.split)

lemma lift_remote_Inr [simp]: "lift_remote m = Inr x \<longleftrightarrow> m = Inr x"
  by (cases m) (simp_all add: lift_remote_def)

lemma orE_False [simp]: "orE a b = Inr False \<longleftrightarrow> a = Inr False \<and> b = Inr False"
  by (auto simp: orE_def split: if_splits)

lemma differs_False: "v \<noteq> JUndef \<Longrightarrow> v \<noteq> JThrows \<Longrightarrow>
    differs k props v = Inr False \<longleftrightarrow> map_of props k = Some v"
  by (auto simp: differs_def read_prop_Inr)

lemma tags_readable: "\<not> unreadable (tags_js tags)"
  by (auto simp: tags_js_def tag_js_def list_ex_iff)

lemma tags_value [simp]: "tags_js tags \<noteq> JUndef" "tags_js tags \<noteq> JThrows" "JThrows \<noteq> tags_js tags"
  by (simp_all add: tags_js_def)

lemma unchanged_iff: "changed_event props template = Inr False \<longleftrightarrow>
    map_of props ''kind'' = Some (JNum (Whole (t_kind template)))
    \<and> map_of props ''content'' = Some (JStr (t_content template))
    \<and> map_of props ''tags'' = Some (tags_js (t_tags template))
    \<and> (case t_created_at template of
         None \<Rightarrow> (\<exists>n \<ge> 0. map_of props ''created_at'' = Some (JNum (Whole n)))
       | Some n \<Rightarrow> map_of props ''created_at'' = Some (JNum (Whole n)))"
proof -
  have "bindE (read_prop ''tags'' props) (\<lambda>tags. bindE (sameTags tags (t_tags template)) (\<lambda>same. Inr (\<not> same))) = Inr False
      \<longleftrightarrow> map_of props ''tags'' = Some (tags_js (t_tags template))"
    using tags_readable [of "t_tags template"]
    by (auto simp: sameTags_def read_prop_Inr intro!: exI [of _ "tags_js (t_tags template)"] split: if_splits)
  moreover have "bindE (read_prop ''created_at'' props) (\<lambda>v. Inr (\<not> isNonNegativeInteger v)) = Inr False
      \<longleftrightarrow> (\<exists>n \<ge> 0. map_of props ''created_at'' = Some (JNum (Whole n)))"
    by (auto simp: isNonNegativeInteger_iff read_prop_Inr)
  ultimately show ?thesis
    by (simp add: changed_event_def differs_False split: option.split)
qed

text \<open>The three stages of the check: the author, the content, the signature.\<close>

definition signed_part ::
  "(VerifiedRemoteEvent \<Rightarrow> bool) \<Rightarrow> (string, jsv) obj \<Rightarrow> EventTemplateInput \<Rightarrow> string \<Rightarrow> VerifiedRemoteEvent \<Rightarrow> bool" where
  "signed_part verifyEvent props template expectedPubkey v \<longleftrightarrow>
     (\<exists>i s n. map_of props ''id'' = Some (JStr i) \<and> map_of props ''sig'' = Some (JStr s) \<and>
        (\<exists>c. read_prop ''created_at'' props = Inr c \<and> n = whole_of c) \<and>
        v = \<lparr>ve_id = i, ve_pubkey = expectedPubkey, ve_created_at = n, ve_kind = t_kind template,
             ve_tags = t_tags template, ve_content = t_content template, ve_sig = s\<rparr> \<and> verifyEvent v)"

lemma verifyRemote_object:
  "verifyRemoteSignedEvent verifyEvent (JObj props) template expectedPubkey = Inr v \<longleftrightarrow>
     map_of props ''pubkey'' = Some (JStr expectedPubkey) \<and> changed_event props template = Inr False
     \<and> signed_part verifyEvent props template expectedPubkey v"
proof -
  have check: "bindE (lift_remote m) (\<lambda>x. bindE (requireE (\<not> x) err) (\<lambda>_. f)) = Inr v \<longleftrightarrow> m = Inr False \<and> f = Inr v"
    for m err and f :: "failure + VerifiedRemoteEvent" by auto
  have both: "(case (a, b) of (Some i, Some x) \<Rightarrow> f i x | _ \<Rightarrow> Inl err) = Inr v \<longleftrightarrow>
      (\<exists>i x. a = Some i \<and> b = Some x \<and> f i x = Inr v)"
    for a b err and f :: "string \<Rightarrow> string \<Rightarrow> failure + VerifiedRemoteEvent"
    by (cases a; cases b) auto
  have pubkey: "differs ''pubkey'' props (JStr expectedPubkey) = Inr False \<longleftrightarrow> map_of props ''pubkey'' = Some (JStr expectedPubkey)"
    by (simp add: differs_False)
  have branch: "(let w = mk c in if verifyEvent w then Inr w else Inl bad) = Inr v \<longleftrightarrow> v = mk c \<and> verifyEvent v"
    for mk :: "'c \<Rightarrow> VerifiedRemoteEvent" and c and bad :: failure
    by (auto simp: Let_def)
  show ?thesis
    unfolding verifyRemoteSignedEvent_def object_props_def jsv.case option.case check pubkey
    unfolding bindE_Inr both branch signed_part_def lift_remote_Inr string_of_Some
    by (auto simp: read_prop_Inr [of _ props "JStr _"] split: if_splits)
qed

text \<open>C22: C13: 
  The answer of a remote signer is accepted exactly when it is an object that spells out an event
  of the expected author with the kind, content, tags and stated time of the template, and that
  event verifies; what is handed on is that event.
\<close>
theorem remote_answer_accepted_iff:
  "verifyRemoteSignedEvent verifyEvent answer template expectedPubkey = Inr v \<longleftrightarrow>
     verifyEvent v \<and> requested template expectedPubkey v
     \<and> (\<exists>props. answer = JObj props \<and> list_all (\<lambda>(k, x). map_of props k = Some x) (event_fields v))"
proof (cases answer)
  case (JObj props)
  show ?thesis unfolding JObj verifyRemote_object unchanged_iff signed_part_def requested_def event_fields_def
    by (cases "t_created_at template") (auto simp: read_prop_Inr whole_of_def)
qed (auto simp: object_props_def verifyRemoteSignedEvent_def differs_False)

end
