(* ===== verification/Sign_Ports.thy ===== *)
theory Sign_Ports
  imports Effects Approval_Queue Sign_Remote
begin

section \<open>The signing core: its fields, its ports, its synchronous methods\<close>

text \<open>
  \<^verbatim>\<open>packages/identity/src/signing/core.ts\<close> and the interfaces of \<^verbatim>\<open>ports.ts\<close> and \<^verbatim>\<open>types.ts\<close>. The
  core keeps the queue, the \<open>getPublicKey\<close> cooldowns and the revocations; everything else is
  reached through a port: identity, permissions, grants, approval, unlock, remote signer, relay
  list, vault and activity log. A call of a port is a value; its answer comes from the
  environment and may be a thrown failure. Keys are opaque handles. Log lines are left out.
\<close>

subsection \<open>Ports\<close>

datatype sigcall =
  Now
| IsLocked
| HasMnemonic string
| HasImportedPqKeys string
| Pause
| YieldToHost
| GetActiveAccount
| CheckPermission string SignerMethod "int option" string
| SavePermission string SignerMethod "int option" decision string
| GrantDecision string string auth_request
| GrantSave string string auth_request auth_scope decision
| GrantCommit
| RequesterFor SignerRequest SafeAccount
| OriginFor SignerRequest SafeAccount
| AssertAllowed SignerRequest SafeAccount auth_request
| Present SignerRequest SafeAccount "ApprovalContext option"
| PresentBatch SignerBatchRequest SafeAccount
| RequestUnlock SignerRequest SafeAccount
| RequestUnlockBatch SignerBatchRequest SafeAccount
| WithPrivkey string
| WithMnemonic string
| WithImportedPqKeys string
| WithDerivedSecrets PqKeys
| EndScope
| DerivePublicKey string
| SignTemplate string EventTemplateInput
| Nip04EncryptWith string string string
| Nip04DecryptWith string string string
| Nip44EncryptWith string string string
| Nip44DecryptWith string string string
| PqEncryptWith string PqKeyPair string string string
| PqDecryptWith string PqKeyPair string string
| RemoteExecute SafeAccount SignerRequest ValidatedParams
| FetchRelays SafeAccount
| RecordActivity ActivityEntry

text \<open>What a request is answered with.\<close>

datatype signer_value = V_text string | V_event VerifiedRemoteEvent | V_js jsv

datatype answer =
  A_unit
| A_throws failure
| A_number int
| A_flag bool
| A_account "SafeAccount option"
| A_decision decision
| A_stored "decision option"
| A_requester requester
| A_text string
| A_bytes bytes
| A_imported string bytes string bytes
| A_approval ApprovalDecision
| A_value signer_value

subsection \<open>Fields\<close>

record Cooldown =
  cd_expiresAt :: int
  cd_accountId :: string

record revocation =
  rv_serial :: nat
  rv_reason :: string

record core =
  c_queue :: "unit queue"
  c_cooldowns :: "(string, Cooldown) obj"
  c_revocations :: "(string, revocation) obj"
  c_revocationSerial :: nat
  c_disposed :: bool

definition new_core :: core where
  "new_core = \<lparr>c_queue = ApprovalQueue None None None, c_cooldowns = [], c_revocations = [], c_revocationSerial = 0,
     c_disposed = False\<rparr>"

subsection \<open>Origins and rules\<close>

definition permissionOrigin :: "RequestOrigin \<Rightarrow> string" where
  "permissionOrigin origin =
     (if o_kind origin = Web then o_identifier origin
      else origin_kind_name (o_kind origin) @ '':'' @ o_identifier origin)"

definition requesterOf :: "RequestOrigin \<Rightarrow> requester" where
  "requesterOf origin =
     (case o_kind origin of
        Web \<Rightarrow> WebRequester (o_identifier origin)
      | Nip46 \<Rightarrow> Nip46Requester (o_identifier origin)
      | Nip55 \<Rightarrow> Nip55Requester (o_identifier origin) None
      | Lan \<Rightarrow> LanRequester (o_identifier origin)
      | Local \<Rightarrow> LocalRequester (o_identifier origin))"

definition canonicalOriginKey :: "string \<Rightarrow> string" where
  "canonicalOriginKey key =
     (let prefix = (case index_of CHR '':'' key of None \<Rightarrow> [] | Some colon \<Rightarrow> take colon key);
          rest = (case index_of CHR '':'' key of None \<Rightarrow> key | Some colon \<Rightarrow> drop (Suc colon) key)
      in if prefix \<noteq> ''web'' \<and> prefix \<in> set (map origin_kind_name ORIGIN_KINDS)
         then (if prefix = ''nip46'' then ''nip46:'' @ to_lower rest else key)
         else (case canonicalHttpOrigin key of
                 Some origin \<Rightarrow> origin
               | None \<Rightarrow> (case canonicalHostname key of Some host \<Rightarrow> host | None \<Rightarrow> key)))"

definition sameSite :: "string \<Rightarrow> string \<Rightarrow> bool" where
  "sameSite a b \<longleftrightarrow> a = b \<or> list_ex (\<lambda>scope. scope \<in> set (siteScopes b)) (siteScopes a)"

record Asked =
  as_method :: SignerMethod
  as_kind :: "int option"

definition permissionRule :: "ValidatedParams \<Rightarrow> Asked" where
  "permissionRule params =
     (case params of
        P_signEvent event \<Rightarrow> \<lparr>as_method = SignEvent, as_kind = Some (t_kind event)\<rparr>
      | P_signPqAttestation \<Rightarrow> \<lparr>as_method = SignEvent, as_kind = Some PQC_KIND\<rparr>
      | _ \<Rightarrow> \<lparr>as_method = params_method params, as_kind = None\<rparr>)"

subsection \<open>The methods that do not wait\<close>

definition on_queue :: "(unit queue \<Rightarrow> 'a \<times> unit queue) \<Rightarrow> core \<Rightarrow> 'a \<times> core" where
  "on_queue f s = (case f (c_queue s) of (a, q) \<Rightarrow> (a, s\<lparr>c_queue := q\<rparr>))"

definition pending_core :: "core \<Rightarrow> PendingEntry list" where
  "pending_core s = pending_entries (c_queue s)"

definition cancel :: "string \<Rightarrow> string \<Rightarrow> string option \<Rightarrow> core \<Rightarrow> bool \<times> core" where
  "cancel origin requestId reason =
     on_queue (reject origin requestId (case reason of None \<Rightarrow> ''Cancelled by user'' | Some r \<Rightarrow> r))"

definition dispose_core :: "core \<Rightarrow> core" where
  "dispose_core s =
     s\<lparr>c_disposed := True, c_cooldowns := [], c_revocations := [], c_queue := dispose_queue (c_queue s)\<rparr>"

definition onActiveAccountChanged :: "string option \<Rightarrow> string option \<Rightarrow> core \<Rightarrow> core" where
  "onActiveAccountChanged previousId nextId s =
     (let s1 = s\<lparr>c_cooldowns := []\<rparr>
      in case previousId of
           None \<Rightarrow> s1
         | Some p \<Rightarrow>
             if p \<noteq> [] \<and> previousId \<noteq> nextId
             then snd (on_queue (rejectPendingForAccount p ''Account switched'') s1) else s1)"

definition clearCooldown :: "string \<Rightarrow> core \<Rightarrow> core" where
  "clearCooldown origin s =
     (let target = canonicalOriginKey origin
      in s\<lparr>c_cooldowns := filter (\<lambda>(key, _). \<not> sameSite key target) (c_cooldowns s)\<rparr>)"

text \<open>The loop over the distinct origins that have something pending.\<close>

fun reject_sites :: "string \<Rightarrow> string \<Rightarrow> string list \<Rightarrow> nat \<Rightarrow> unit queue \<Rightarrow> nat \<times> unit queue" where
  "reject_sites target reason [] n q = (n, q)"
| "reject_sites target reason (key # keys) n q =
     (if sameSite key target
      then (case rejectPendingForOrigin key reason q of (m, q1) \<Rightarrow> reject_sites target reason keys (n + m) q1)
      else reject_sites target reason keys n q)"

definition revokeOrigin :: "string \<Rightarrow> string option \<Rightarrow> core \<Rightarrow> nat \<times> core" where
  "revokeOrigin origin reason s =
     (let why = (case reason of None \<Rightarrow> ''Origin revoked'' | Some r \<Rightarrow> r);
          target = canonicalOriginKey origin;
          s1 = clearCooldown target s;
          serial = Suc (c_revocationSerial s1);
          s2 = s1\<lparr>c_revocationSerial := serial,
                  c_revocations := oset target \<lparr>rv_serial = serial, rv_reason = why\<rparr> (c_revocations s1)\<rparr>
      in on_queue (reject_sites target why (remdups (map pe_origin (pending_core s2))) 0) s2)"

subsection \<open>What other calls do while one waits\<close>

datatype host_op =
  HostCancel string string "string option"
| HostDispose
| HostAccountChanged "string option" "string option"
| HostClearCooldown string
| HostRevoke string "string option"
| HostTimeout nat
| OtherTrack PendingEntry
| OtherSettle nat
| OtherCooldown string Cooldown
| OtherExpired string

fun host_step :: "host_op \<Rightarrow> core \<Rightarrow> core" where
  "host_step (HostCancel origin requestId reason) s = snd (cancel origin requestId reason s)"
| "host_step HostDispose s = dispose_core s"
| "host_step (HostAccountChanged p n) s = onActiveAccountChanged p n s"
| "host_step (HostClearCooldown origin) s = clearCooldown origin s"
| "host_step (HostRevoke origin reason) s = snd (revokeOrigin origin reason s)"
| "host_step (HostTimeout t) s = s\<lparr>c_queue := fail Timed_out ''Request timed out'' t (c_queue s)\<rparr>"
| "host_step (OtherTrack e) s = s\<lparr>c_queue := snd (track e (c_queue s))\<rparr>"
| "host_step (OtherSettle t) s = s\<lparr>c_queue := settle t (Inr ()) (c_queue s)\<rparr>"
| "host_step (OtherCooldown origin cooldown) s = s\<lparr>c_cooldowns := oset origin cooldown (c_cooldowns s)\<rparr>"
| "host_step (OtherExpired origin) s = s\<lparr>c_cooldowns := odel origin (c_cooldowns s)\<rparr>"

definition rely :: "core \<Rightarrow> core \<Rightarrow> bool" where
  "rely s s' \<longleftrightarrow> (\<exists>ops. s' = fold host_step ops s)"

interpretation core_env: environment host_step rely
proof
  show "rely s s" for s unfolding rely_def by (rule exI [of _ "[]"]) simp
  show "rely s (host_step op s')" if "rely s s'" for s s' op
  proof -
    from that obtain ops where "s' = fold host_step ops s" by (auto simp: rely_def)
    then show ?thesis unfolding rely_def by (intro exI [of _ "ops @ [op]"]) simp
  qed
qed

end
