(* ===== verification/Sign_Core.thy ===== *)
theory Sign_Core
  imports Sign_Ports
begin

section \<open>The pipeline\<close>

text \<open>
  The methods of \<open>SignerCore\<close> that wait, as programs over its ports, and
  \<open>withPqKeys\<close> of \<^verbatim>\<open>packages/identity/src/signing/pq.ts\<close>. \<open>asyncP\<close> stands for \<open>await\<close> on a method
  of the core itself: other calls run once more before the caller goes on. An answer that is not
  of the declared type counts as a thrown failure, clocks and locks apart.
\<close>

type_synonym ('e, 'a) waiting = "(core, sigcall, answer, 'e, 'a) prog"
type_synonym 'a pipeline = "(failure, 'a) waiting"

subsection \<open>The host\<close>

record signer_deps =
  dp_unlock :: bool
  dp_unlockBatch :: bool
  dp_remote :: bool
  dp_relays :: bool
  dp_presentBatch :: bool
  dp_originFor :: bool
  dp_requesterFor :: bool
  dp_assertAllowed :: bool
  dp_grants :: bool
  dp_rememberFor :: "string list option"
  dp_legacyLoginOrigins :: "string list"
  dp_self :: "requester list option"
  dp_suite :: pq_suite
  dp_mnemonicToSeed :: "string \<Rightarrow> bytes option"
  dp_verifyEvent :: "VerifiedRemoteEvent \<Rightarrow> bool"

record signer_host =
  h_deps :: signer_deps
  h_rememberFor :: "string list"
  h_self :: "(string, requester) obj"

definition AUTHENTICATION_REQUESTER_KINDS :: "string list" where
  "AUTHENTICATION_REQUESTER_KINDS = [''web'', ''nip46'', ''nip55'', ''lan'', ''local'']"

definition NON_WEB_REQUESTER_KINDS :: "string list" where
  "NON_WEB_REQUESTER_KINDS = [''nip46'', ''nip55'', ''lan'', ''local'']"

fun requester_kind :: "requester \<Rightarrow> string" where
  "requester_kind (OriginString _) = ''web''"
| "requester_kind (WebRequester _) = ''web''"
| "requester_kind (Nip46Requester _) = ''nip46''"
| "requester_kind (Nip55Requester _ _) = ''nip55''"
| "requester_kind (LanRequester _) = ''lan''"
| "requester_kind (LocalRequester _) = ''local''"

datatype setup_error =
  BothResolvers | RememberNeedsGrants | UnknownRequesterKind string | NoSelfRequesters | WebSelfRequester
| BadSelfRequester

fun self_requesters :: "requester list \<Rightarrow> (string, requester) obj \<Rightarrow> setup_error + (string, requester) obj" where
  "self_requesters [] known = Inr known"
| "self_requesters (r # rs) known =
     (if requester_kind r = ''web'' then Inl WebSelfRequester
      else case authenticationRequesterKey r of
             Inl _ \<Rightarrow> Inl BadSelfRequester
           | Inr key \<Rightarrow> self_requesters rs (oset key r known))"

definition SignerCore :: "signer_deps \<Rightarrow> setup_error + signer_host" where
  "SignerCore deps =
     bindE (requireE (\<not> (dp_originFor deps \<and> dp_requesterFor deps)) BothResolvers) (\<lambda>_.
     bindE (requireE (dp_rememberFor deps = None \<or> dp_grants deps) RememberNeedsGrants) (\<lambda>_.
     let rememberFor = (case dp_rememberFor deps of None \<Rightarrow> NON_WEB_REQUESTER_KINDS | Some kinds \<Rightarrow> kinds)
     in bindE (case find (\<lambda>k. k \<notin> set AUTHENTICATION_REQUESTER_KINDS) rememberFor of
               None \<Rightarrow> Inr () | Some k \<Rightarrow> Inl (UnknownRequesterKind k)) (\<lambda>_.
     bindE (case dp_self deps of
              None \<Rightarrow> Inr []
            | Some requesters \<Rightarrow> if requesters = [] then Inl NoSelfRequesters else self_requesters requesters []) (\<lambda>known.
     Inr \<lparr>h_deps = deps, h_rememberFor = rememberFor, h_self = known\<rparr>))))"

subsection \<open>Calls of ports\<close>

definition expect :: "(answer \<Rightarrow> 'a option) \<Rightarrow> answer \<Rightarrow> 'a pipeline" where
  "expect f r =
     (case r of
        A_throws e \<Rightarrow> Throw e
      | _ \<Rightarrow> (case f r of None \<Rightarrow> Throw (Foreign []) | Some a \<Rightarrow> Ret a))"

fun the_unit :: "answer \<Rightarrow> unit option" where
  "the_unit A_unit = Some ()"
| "the_unit _ = None"

fun the_account :: "answer \<Rightarrow> SafeAccount option option" where
  "the_account (A_account a) = Some a"
| "the_account _ = None"

fun the_decision :: "answer \<Rightarrow> decision option" where
  "the_decision (A_decision d) = Some d"
| "the_decision _ = None"

fun the_stored :: "answer \<Rightarrow> decision option option" where
  "the_stored (A_stored d) = Some d"
| "the_stored _ = None"

fun the_requester :: "answer \<Rightarrow> requester option" where
  "the_requester (A_requester r) = Some r"
| "the_requester _ = None"

fun the_text :: "answer \<Rightarrow> string option" where
  "the_text (A_text s) = Some s"
| "the_text _ = None"

fun the_bytes :: "answer \<Rightarrow> bytes option" where
  "the_bytes (A_bytes b) = Some b"
| "the_bytes _ = None"

fun the_approval :: "answer \<Rightarrow> ApprovalDecision option" where
  "the_approval (A_approval d) = Some d"
| "the_approval _ = None"

fun the_value :: "answer \<Rightarrow> signer_value option" where
  "the_value (A_value v) = Some v"
| "the_value _ = None"

fun the_js :: "answer \<Rightarrow> jsv option" where
  "the_js (A_value (V_js v)) = Some v"
| "the_js _ = None"

fun the_imported :: "answer \<Rightarrow> (string \<times> bytes \<times> string \<times> bytes) option" where
  "the_imported (A_imported kp ks dp ds) = Some (kp, ks, dp, ds)"
| "the_imported _ = None"

fun number_of :: "answer \<Rightarrow> int" where
  "number_of (A_number n) = n"
| "number_of _ = 0"

fun flag_of :: "answer \<Rightarrow> bool" where
  "flag_of (A_flag b) = b"
| "flag_of _ = False"

definition now_ms :: "('e, int) waiting" where
  "now_ms = Sync Now (\<lambda>r. Ret (number_of r))"

definition isLocked :: "('e, bool) waiting" where
  "isLocked = Sync IsLocked (\<lambda>r. Ret (flag_of r))"

definition refusal :: "signer_error_code \<Rightarrow> string \<Rightarrow> failure" where
  "refusal c m = Signer (SignerError c m)"

definition refuse :: "signer_error_code \<Rightarrow> string \<Rightarrow> 'a pipeline" where
  "refuse c m = Throw (refusal c m)"

definition asyncP :: "('e, 'a) waiting \<Rightarrow> ('e, 'a) waiting" where
  "asyncP p = bindP (attempt p) (\<lambda>x. Await Pause (\<lambda>_. case x of Inl e \<Rightarrow> Throw e | Inr a \<Rightarrow> Ret a))"

text \<open>A callback inside a scope of the vault; the vault may void its result.\<close>

definition scopedP :: "sigcall \<Rightarrow> (answer \<Rightarrow> 'k option) \<Rightarrow> ('k \<Rightarrow> 'a pipeline) \<Rightarrow> 'a pipeline" where
  "scopedP c f body =
     Await c (\<lambda>r. bindP (expect f r) (\<lambda>k. bindP (body k) (\<lambda>a.
       Await EndScope (\<lambda>e. case e of A_throws x \<Rightarrow> Throw x | _ \<Rightarrow> Ret a))))"

definition ask :: "sigcall \<Rightarrow> (answer \<Rightarrow> 'a option) \<Rightarrow> 'a pipeline" where
  "ask c f = Await c (expect f)"

text \<open>Running work as a pending entry of the queue.\<close>

definition trackP :: "string \<Rightarrow> PendingKind \<Rightarrow> string \<Rightarrow> string \<Rightarrow> sigcall \<Rightarrow> (answer \<Rightarrow> 'a option) \<Rightarrow> 'a pipeline" where
  "trackP ident kind origin accountId work f =
     (let input = \<lambda>queuedAt. \<lparr>pe_id = ident, pe_kind = kind, pe_origin = origin, pe_accountId = Some accountId,
        pe_queuedAt = queuedAt\<rparr>
      in Get (\<lambda>s. case track (input 0) (c_queue s) of
            (Inl refused, _) \<Rightarrow> Throw (Signer refused)
          | (Inr t, _) \<Rightarrow>
              bindP now_ms (\<lambda>queuedAt.
              Put (\<lambda>s. s\<lparr>c_queue := snd (track (input queuedAt) (c_queue s))\<rparr>)
              (Await work (\<lambda>r.
              Put (\<lambda>s. s\<lparr>c_queue := settle t (Inr ()) (c_queue s)\<rparr>)
              (Get (\<lambda>s. case map_of (q_outcomes (c_queue s)) t of
                          Some (Inl ended) \<Rightarrow> Throw ended
                        | _ \<Rightarrow> expect f r)))))))"

subsection \<open>Accounts, the vault, rules\<close>

definition assertStillActive :: "SafeAccount \<Rightarrow> unit pipeline" where
  "assertStillActive shown =
     bindP (ask GetActiveAccount the_account) (\<lambda>current.
       refuseIf (case current of None \<Rightarrow> True
                 | Some a \<Rightarrow> a_id a \<noteq> a_id shown \<or> a_pubkey a \<noteq> a_pubkey shown)
         (refusal Account_switched ''Account switched''))"

definition stillWanted :: "SafeAccount \<Rightarrow> string \<Rightarrow> nat \<Rightarrow> signer_error option pipeline" where
  "stillWanted shown originKey revokedBefore =
     bindP (ask GetActiveAccount the_account) (\<lambda>current.
       if (case current of None \<Rightarrow> True | Some a \<Rightarrow> a_id a \<noteq> a_id shown \<or> a_pubkey a \<noteq> a_pubkey shown)
       then Ret (Some (SignerError Account_switched ''Account switched''))
       else Get (\<lambda>s.
         if c_revocationSerial s = revokedBefore then Ret None
         else Ret (map_option (\<lambda>(_, rv). SignerError Rejected (rv_reason rv))
                (find (\<lambda>(key, rv). rv_serial rv > revokedBefore \<and> sameSite key originKey) (c_revocations s)))))"

definition openVault :: "signer_host \<Rightarrow> SignerRequest \<Rightarrow> string \<Rightarrow> SafeAccount \<Rightarrow> unit pipeline" where
  "openVault cfg request originKey account =
     bindP isLocked (\<lambda>locked.
       if \<not> locked then Ret ()
       else if \<not> dp_unlock (h_deps cfg) then refuse Vault_locked ''Vault is locked''
       else seqP (asyncP (trackP (r_id request) UnlockEntry originKey (a_id account) (RequestUnlock request account) the_unit))
              (bindP isLocked (\<lambda>still. refuseIf still (refusal Vault_locked ''Vault is locked''))))"

definition openVaultForBatch :: "signer_host \<Rightarrow> SignerBatchRequest \<Rightarrow> string \<Rightarrow> SafeAccount \<Rightarrow> unit pipeline" where
  "openVaultForBatch cfg batch originKey account =
     bindP isLocked (\<lambda>locked.
       if \<not> locked then Ret ()
       else if \<not> dp_unlock (h_deps cfg) \<or> \<not> dp_unlockBatch (h_deps cfg) then refuse Vault_locked ''Vault is locked''
       else seqP (asyncP (trackP (b_id batch) UnlockEntry originKey (a_id account) (RequestUnlockBatch batch account) the_unit))
              (bindP isLocked (\<lambda>still. refuseIf still (refusal Vault_locked ''Vault is locked''))))"

definition wouldBeUnboundedCredential :: "Asked \<Rightarrow> decision \<Rightarrow> bool" where
  "wouldBeUnboundedCredential rule d \<longleftrightarrow>
     d = Allow \<and> as_method rule = SignEvent \<and>
     (case as_kind rule of None \<Rightarrow> False | Some k \<Rightarrow> k \<in> set AUTHENTICATION_SIGN_KINDS)"

definition remembered_kind :: "Asked \<Rightarrow> ApprovalDecision \<Rightarrow> int option" where
  "remembered_kind rule outcome = (if d_rememberKind outcome \<noteq> Some False then as_kind rule else None)"

definition remember :: "string \<Rightarrow> Asked \<Rightarrow> ApprovalDecision \<Rightarrow> decision \<Rightarrow> SafeAccount \<Rightarrow> unit pipeline" where
  "remember originKey rule outcome d account =
     whenP (\<not> wouldBeUnboundedCredential rule d)
       (ask (SavePermission originKey (as_method rule) (remembered_kind rule outcome) d (a_id account)) the_unit)"

fun remember_rules ::
  "string \<Rightarrow> (SignerMethod \<times> int option) list \<Rightarrow> Asked list \<Rightarrow> ApprovalDecision \<Rightarrow> decision \<Rightarrow> SafeAccount \<Rightarrow> unit pipeline" where
  "remember_rules originKey saved [] outcome d account = Ret ()"
| "remember_rules originKey saved (rule # asked) outcome d account =
     (let key = (as_method rule, remembered_kind rule outcome)
      in if wouldBeUnboundedCredential rule d \<or> key \<in> set saved
         then remember_rules originKey saved asked outcome d account
         else seqP (ask (SavePermission originKey (fst key) (snd key) d (a_id account)) the_unit)
                (remember_rules originKey (key # saved) asked outcome d account))"

definition rememberAll :: "string \<Rightarrow> Asked list \<Rightarrow> ApprovalDecision \<Rightarrow> decision \<Rightarrow> SafeAccount \<Rightarrow> unit pipeline" where
  "rememberAll originKey asked outcome d account = remember_rules originKey [] asked outcome d account"

definition needsPrompt :: "SignerMethod \<Rightarrow> bool \<Rightarrow> string \<Rightarrow> SafeAccount \<Rightarrow> bool pipeline" where
  "needsPrompt m remote originKey account =
     (if m = GetRelays then Ret False
      else if remote \<and> m \<noteq> GetPublicKey then Ret False
      else if m \<noteq> GetPublicKey then Ret True
      else Get (\<lambda>s. case map_of (c_cooldowns s) originKey of
             None \<Rightarrow> Ret True
           | Some cooldown \<Rightarrow>
               (let drop_it = Put (\<lambda>s. s\<lparr>c_cooldowns := odel originKey (c_cooldowns s)\<rparr>) (Ret True)
                in if cd_accountId cooldown \<noteq> a_id account then drop_it
                   else bindP now_ms (\<lambda>n. if n < cd_expiresAt cooldown then Ret False else drop_it))))"

subsection \<open>Keys\<close>

datatype key_source = DerivedKeys | ImportedKeys

definition pq_account :: "SafeAccount \<Rightarrow> PqAccount" where
  "pq_account account =
     (case a_derivationPath account of
        Some path \<Rightarrow> AccountPath path
      | None \<Rightarrow> AccountIndex (case a_derivationIndex account of None \<Rightarrow> 0 | Some i \<Rightarrow> i))"

definition imported_keys :: "string \<times> bytes \<times> string \<times> bytes \<Rightarrow> PqKeys option" where
  "imported_keys parts =
     (case parts of (kp, ks, dp, ds) \<Rightarrow>
        (case (fromBase64 kp, fromBase64 dp) of
           (Some kem, Some dsa) \<Rightarrow>
             Some \<lparr>kem_keys = \<lparr>publicKey = kem, secretKey = ks\<rparr>, dsa_keys = \<lparr>publicKey = dsa, secretKey = ds\<rparr>\<rparr>
         | _ \<Rightarrow> None))"

definition withPqKeys :: "signer_host \<Rightarrow> SafeAccount \<Rightarrow> (key_source \<Rightarrow> PqKeys \<Rightarrow> 'a pipeline) \<Rightarrow> 'a pipeline" where
  "withPqKeys cfg account fn =
     (if a_readOnly account then refuse Unsupported ''This account is watch-only, so it cannot use post-quantum keys''
      else bindP isLocked (\<lambda>locked.
        if locked then Throw (Foreign ''Vault is locked'')
        else Sync (HasImportedPqKeys (a_id account)) (\<lambda>imported.
          if flag_of imported
          then scopedP (WithImportedPqKeys (a_id account)) the_imported (\<lambda>parts.
                 case imported_keys parts of None \<Rightarrow> Throw (Foreign []) | Some keys \<Rightarrow> fn ImportedKeys keys)
          else Sync (HasMnemonic (a_id account)) (\<lambda>seeded.
            if \<not> flag_of seeded
            then refuse Unsupported ''This account has no seed phrase, so it cannot use post-quantum keys''
            else scopedP (WithMnemonic (a_id account)) the_bytes (\<lambda>phrase.
              let mnemonic = text_decode (dp_suite (h_deps cfg)) phrase
              in if countWords mnemonic \<noteq> PQ_SEED_WORD_COUNT
                 then refuse Unsupported ''Post-quantum keys require a 24-word seed phrase''
                 else (case dp_mnemonicToSeed (h_deps cfg) mnemonic of
                         None \<Rightarrow> Throw (Foreign [])
                       | Some seed \<Rightarrow>
                           (case derivePqKeys (dp_suite (h_deps cfg)) seed (pq_account account) of
                              None \<Rightarrow> Throw (Foreign [])
                            | Some keys \<Rightarrow>
                                asyncP (scopedP (WithDerivedSecrets keys) the_unit (\<lambda>_. fn DerivedKeys keys)))))))))"

definition attestation_event :: "signer_host \<Rightarrow> SafeAccount \<Rightarrow> key_source \<Rightarrow> PqKeys \<Rightarrow> int \<Rightarrow> EventTemplateInput" where
  "attestation_event cfg account source keys n =
     \<lparr>t_kind = PQC_KIND, t_content = [],
      t_tags = buildAttestationTags (dp_suite (h_deps cfg)) (a_pubkey account) (publicKey (kem_keys keys))
        (publicKey (dsa_keys keys)) (if source = DerivedKeys then Derived else Independent) (secretKey (dsa_keys keys)),
      t_created_at = Some (n div 1000), t_pubkey = None\<rparr>"

text \<open>A failure of the callback, tagged with the lock as it is at that moment.\<close>

definition tagged :: "failure \<Rightarrow> 'a pipeline" where
  "tagged e =
     (case e of
        Signer _ \<Rightarrow> Throw e
      | _ \<Rightarrow> bindP isLocked (\<lambda>locked. Throw (ExecuteFailure (errorMessage e) FromCallback locked)))"

definition buildAttestation :: "signer_host \<Rightarrow> SafeAccount \<Rightarrow> EventTemplateInput pipeline" where
  "buildAttestation cfg account =
     catchP (asyncP (withPqKeys cfg account (\<lambda>source keys.
       bindP now_ms (\<lambda>n. Ret (attestation_event cfg account source keys n))))) tagged"

definition final_template :: "EventTemplateInput \<Rightarrow> int \<Rightarrow> EventTemplateInput" where
  "final_template event n =
     \<lparr>t_kind = t_kind event, t_content = t_content event, t_tags = t_tags event,
      t_created_at = Some (case t_created_at event of None \<Rightarrow> n div 1000 | Some c \<Rightarrow> c), t_pubkey = None\<rparr>"

definition sign_event :: "string \<Rightarrow> EventTemplateInput \<Rightarrow> signer_value pipeline" where
  "sign_event key event =
     (case t_created_at event of
        Some _ \<Rightarrow> ask (SignTemplate key (final_template event 0)) the_value
      | None \<Rightarrow> bindP now_ms (\<lambda>n. ask (SignTemplate key (final_template event n)) the_value))"

definition execute :: "string \<Rightarrow> PreparedParams \<Rightarrow> signer_value pipeline" where
  "execute key params =
     (case params of
        Attestation event \<Rightarrow> sign_event key event
      | Given p \<Rightarrow>
          (case p of
             P_signEvent event \<Rightarrow> sign_event key event
           | P_nip04Encrypt pubkey plaintext \<Rightarrow> ask (Nip04EncryptWith key pubkey plaintext) the_value
           | P_nip04Decrypt pubkey ciphertext \<Rightarrow> ask (Nip04DecryptWith key pubkey ciphertext) the_value
           | P_nip44Encrypt pubkey plaintext scheme \<Rightarrow>
               if scheme \<noteq> Classic then refuse Unsupported ''nip44Encrypt with a post-quantum scheme needs the post-quantum keys''
               else ask (Nip44EncryptWith key pubkey plaintext) the_value
           | P_nip44Decrypt pubkey ciphertext scheme \<Rightarrow>
               if scheme \<noteq> ClassicPayload
               then refuse Unsupported ''nip44Decrypt of a post-quantum payload needs the post-quantum keys''
               else ask (Nip44DecryptWith key pubkey ciphertext) the_value
           | _ \<Rightarrow> refuse Unsupported (method_name (params_method p) @ '' does not use the key'')))"

definition executePq :: "PreparedParams \<Rightarrow> string \<Rightarrow> PqKeys \<Rightarrow> signer_value pipeline" where
  "executePq params key keys =
     (case params of
        Given (P_nip44Encrypt pubkey plaintext scheme) \<Rightarrow>
          (case scheme of
             Classic \<Rightarrow> refuse Unsupported ''classic nip44Encrypt does not use the post-quantum keys''
           | Pq recipientKemKey \<Rightarrow> ask (PqEncryptWith key (kem_keys keys) pubkey plaintext recipientKemKey) the_value)
      | Given (P_nip44Decrypt pubkey ciphertext scheme) \<Rightarrow>
          (case scheme of
             ClassicPayload \<Rightarrow> refuse Unsupported ''classic nip44Decrypt does not use the post-quantum keys''
           | PqUnreadable \<Rightarrow> refuse Operation_failed ''This post-quantum payload is not a readable hybrid envelope''
           | PqHybrid \<Rightarrow> ask (PqDecryptWith key (kem_keys keys) pubkey ciphertext) the_value)
      | _ \<Rightarrow> refuse Unsupported (method_name (prepared_method params) @ '' does not use the post-quantum keys''))"

definition prepared_needs_pq :: "PreparedParams \<Rightarrow> bool" where
  "prepared_needs_pq params = (case params of Attestation _ \<Rightarrow> False | Given p \<Rightarrow> p \<noteq> P_signPqAttestation \<and> needsPqKeys p)"

definition from_vault :: "failure \<Rightarrow> 'a pipeline" where
  "from_vault e =
     (case e of
        Signer _ \<Rightarrow> Throw e
      | ExecuteFailure _ _ _ \<Rightarrow> Throw e
      | _ \<Rightarrow> Throw (ExecuteFailure (errorMessage e) FromVault True))"

definition signLocally :: "signer_host \<Rightarrow> SafeAccount \<Rightarrow> PreparedParams \<Rightarrow> signer_value pipeline" where
  "signLocally cfg account params =
     catchP (scopedP (WithPrivkey (a_id account)) the_text (\<lambda>key.
       bindP (ask (DerivePublicKey key) the_text) (\<lambda>derived.
       seqP (refuseIf (derived \<noteq> a_pubkey account)
               (refusal Author_mismatch ''Event author does not match the active account''))
         (catchP
            (if \<not> prepared_needs_pq params then asyncP (execute key params)
             else asyncP (withPqKeys cfg account (\<lambda>_ keys. asyncP (executePq params key keys))))
            tagged)))) from_vault"

text \<open>The answer of a remote signer to anything but an event is handed on as it is.\<close>

definition executeFor ::
  "signer_host \<Rightarrow> SafeAccount \<Rightarrow> bool \<Rightarrow> string \<Rightarrow> SignerRequest \<Rightarrow> ValidatedParams \<Rightarrow> PreparedParams \<Rightarrow> signer_value pipeline" where
  "executeFor cfg account remote originKey request params prepared =
     (case params of
        P_getPublicKey \<Rightarrow> Ret (V_text (a_pubkey account))
      | P_getRelays \<Rightarrow>
          if dp_relays (h_deps cfg) then ask (FetchRelays account) the_value else Ret (V_js (JObj []))
      | _ \<Rightarrow>
          if remote
          then bindP (asyncP (trackP (r_id request) RemoteEntry originKey (a_id account)
                   (RemoteExecute account request params) the_js)) (\<lambda>answer.
                 case params of
                   P_signEvent event \<Rightarrow>
                     (case verifyRemoteSignedEvent (dp_verifyEvent (h_deps cfg)) answer event (a_pubkey account) of
                        Inl e \<Rightarrow> Throw e
                      | Inr verified \<Rightarrow> Ret (V_event verified))
                 | _ \<Rightarrow> Ret (V_js answer))
          else asyncP (signLocally cfg account prepared))"

subsection \<open>Authentication\<close>

record AuthenticationRun =
  au_requester :: requester
  au_key :: string
  au_auth :: auth_request
  au_self :: bool
  au_consent :: "AuthenticationConsent option"
  au_stored :: "decision option"

definition authenticationActivity :: "AuthenticationRun option \<Rightarrow> AuthenticationActivity option" where
  "authenticationActivity run =
     map_option (\<lambda>a. \<lparr>aa_protocol = req_protocol (au_auth a), aa_destination = req_destination (au_auth a),
       aa_method = req_method (au_auth a), aa_requester = au_key a, aa_consent = au_consent a\<rparr>) run"

definition invalidAuthentication :: failure where
  "invalidAuthentication = refusal Invalid_request ''Invalid authentication request''"

definition auth_event_of :: "EventTemplateInput \<Rightarrow> auth_event" where
  "auth_event_of event =
     \<lparr>ev_kind = t_kind event, ev_content = t_content event,
      ev_created_at = (case t_created_at event of None \<Rightarrow> NonInt | Some n \<Rightarrow> IntNum n), ev_tags = t_tags event\<rparr>"

definition validateAuthenticationEvent :: "signer_host \<Rightarrow> EventTemplateInput \<Rightarrow> requester \<Rightarrow> auth_request pipeline" where
  "validateAuthenticationEvent cfg event requester =
     bindP now_ms (\<lambda>n.
       case parseAuthentication (auth_event_of event) requester (n div 1000) (dp_legacyLoginOrigins (h_deps cfg)) of
         Inr (Some auth) \<Rightarrow> Ret auth
       | _ \<Rightarrow> Throw invalidAuthentication)"

definition ask_requester :: "signer_host \<Rightarrow> SignerRequest \<Rightarrow> SafeAccount \<Rightarrow> requester pipeline" where
  "ask_requester cfg request account =
     (if dp_requesterFor (h_deps cfg) then ask (RequesterFor request account) the_requester
      else if dp_originFor (h_deps cfg) then
        bindP (ask (OriginFor request account) the_text) (\<lambda>origin. Ret (OriginString origin))
      else Ret (OriginString (if o_kind (r_origin request) = Web then o_identifier (r_origin request) else [])))"

definition requester_key :: "requester \<Rightarrow> string pipeline" where
  "requester_key requester =
     (case requester of
        OriginString origin \<Rightarrow> Ret origin
      | _ \<Rightarrow> (case authenticationRequesterKey requester of
                Inl _ \<Rightarrow> Throw invalidAuthentication
              | Inr key \<Rightarrow> Ret key))"

definition resolveRequester ::
  "signer_host \<Rightarrow> SignerRequest \<Rightarrow> SafeAccount \<Rightarrow> bool \<Rightarrow> (requester \<times> string) pipeline" where
  "resolveRequester cfg request account self =
     (let originKey = permissionOrigin (r_origin request);
          unreachable = refusal Permission_denied
            (''The host'' @ [CHR 0x27] @ ''s own authentication path is not reachable by request'')
      in if self
         then (case map_of (h_self cfg) originKey of
                 None \<Rightarrow> refuse Permission_denied (''Not one of the host'' @ [CHR 0x27] @ ''s own requesters'')
               | Some declared \<Rightarrow> Ret (declared, originKey))
         else if map_of (h_self cfg) originKey \<noteq> None then Throw unreachable
         else bindP (ask_requester cfg request account) (\<lambda>requester.
              bindP (requester_key requester) (\<lambda>key.
              if map_of (h_self cfg) key \<noteq> None then Throw unreachable else Ret (requester, key))))"

definition authentication_event :: "ValidatedParams \<Rightarrow> EventTemplateInput option" where
  "authentication_event params =
     (case params of
        P_signEvent event \<Rightarrow> if t_kind event \<in> set AUTHENTICATION_SIGN_KINDS then Some event else None
      | _ \<Rightarrow> None)"

definition parse_run ::
  "signer_host \<Rightarrow> SignerRequest \<Rightarrow> ValidatedParams \<Rightarrow> SafeAccount \<Rightarrow> bool \<Rightarrow> AuthenticationRun option pipeline" where
  "parse_run cfg request params account self =
     (case authentication_event params of
        None \<Rightarrow> Ret None
      | Some event \<Rightarrow>
          bindP (asyncP (resolveRequester cfg request account self)) (\<lambda>(requester, key).
          bindP (validateAuthenticationEvent cfg event requester) (\<lambda>auth.
          seqP (refuseIf (self \<and> req_protocol auth \<noteq> Nip42)
                  (refusal Permission_denied ''The host authenticates itself to relays only''))
          (seqP (whenP (dp_assertAllowed (h_deps cfg)) (ask (AssertAllowed request account auth) the_unit))
            (Ret (Some \<lparr>au_requester = requester, au_key = key, au_auth = auth, au_self = self, au_consent = None,
                        au_stored = None\<rparr>))))))"

definition mayRemember :: "signer_host \<Rightarrow> AuthenticationRun \<Rightarrow> bool" where
  "mayRemember cfg run \<longleftrightarrow> dp_grants (h_deps cfg) \<and> requester_kind (au_requester run) \<in> set (h_rememberFor cfg)"

definition acceptedScopes :: "signer_host \<Rightarrow> AuthenticationRun \<Rightarrow> auth_scope list" where
  "acceptedScopes cfg run =
     (if mayRemember cfg run then Once # filter (validAuthenticationScope (au_auth run)) [Site, ConnectedSites] else [Once])"

definition checkRule :: "string \<Rightarrow> Asked \<Rightarrow> SafeAccount \<Rightarrow> decision pipeline" where
  "checkRule originKey rule account =
     bindP (ask (CheckPermission originKey (as_method rule) (as_kind rule) (a_id account)) the_decision) (\<lambda>d.
       if d = Deny then refuse Permission_denied ''Permission denied'' else Ret d)"

definition revalidateAuthentication ::
  "signer_host \<Rightarrow> SignerRequest \<Rightarrow> ValidatedParams \<Rightarrow> SafeAccount \<Rightarrow> AuthenticationRun option \<Rightarrow> nat \<Rightarrow> unit pipeline" where
  "revalidateAuthentication cfg request params account prior revokedBefore =
     (case prior of
        None \<Rightarrow> Ret ()
      | Some prior \<Rightarrow>
          (let originKey = permissionOrigin (r_origin request);
               shut = Get (\<lambda>s. refuseIf (c_disposed s) (refusal Shutdown ''Signer is disposed''))
           in seqP shut
             (bindP (asyncP (parse_run cfg request params account (au_self prior))) (\<lambda>current.
              seqP (refuseIf (case current of
                       None \<Rightarrow> True
                     | Some run \<Rightarrow> au_key run \<noteq> au_key prior
                         \<or> authenticationKey (au_auth run) \<noteq> authenticationKey (au_auth prior))
                     (refusal Rejected ''Authentication context changed''))
             (bindP (checkRule originKey (permissionRule params) account) (\<lambda>_.
              bindP (asyncP (stillWanted account originKey revokedBefore)) (\<lambda>revoked.
              seqP (case revoked of None \<Rightarrow> Ret () | Some e \<Rightarrow> Throw (Signer e))
             (seqP shut
             (bindP isLocked (\<lambda>locked.
              seqP (refuseIf locked (refusal Vault_locked ''Vault is locked''))
             (seqP (if dp_grants (h_deps cfg)
                    then bindP (ask (GrantDecision (a_id account) (au_key prior) (au_auth prior)) the_stored) (\<lambda>stored.
                         seqP (refuseIf (stored = Some Deny) (refusal Permission_denied ''Authentication permission denied''))
                           (refuseIf (au_consent prior = Some ByGrant \<and> stored \<noteq> Some Allow)
                             (refusal Permission_denied ''Authentication permission revoked'')))
                    else Ret ())
             (case params of
                P_signEvent event \<Rightarrow>
                  bindP (validateAuthenticationEvent cfg event (au_requester prior)) (\<lambda>_. Ret ())
              | _ \<Rightarrow> Ret ()))))))))))))"

text \<open>
  \<open>grants.save\<close> runs the check it is given inside its lock, before it writes. A store that
  refuses earlier, or has nothing to check, does not run it.
\<close>

definition saveAuthenticationGrant ::
  "signer_host \<Rightarrow> AuthenticationRun \<Rightarrow> auth_scope \<Rightarrow> SafeAccount \<Rightarrow> decision \<Rightarrow> unit pipeline" where
  "saveAuthenticationGrant cfg run scope account d =
     (if \<not> dp_grants (h_deps cfg) then refuse Internal ''Internal signer error''
      else catchP
        (bindP (ask (GrantSave (a_id account) (au_key run) (au_auth run) scope d)
                 (\<lambda>r. case r of A_unit \<Rightarrow> Some False | A_flag b \<Rightarrow> Some b | _ \<Rightarrow> None)) (\<lambda>checks.
           if checks then seqP (asyncP (assertStillActive account)) (ask GrantCommit the_unit) else Ret ()))
        (\<lambda>e. case e of
               Signer _ \<Rightarrow> Throw e
             | DeniedGrant _ \<Rightarrow> refuse Permission_denied ''Authentication permission denied''
             | _ \<Rightarrow> refuse Internal ''Could not record the authentication permission''))"

definition rememberAuthenticationDeny :: "signer_host \<Rightarrow> AuthenticationRun \<Rightarrow> SafeAccount \<Rightarrow> unit pipeline" where
  "rememberAuthenticationDeny cfg run account =
     catchP (asyncP (saveAuthenticationGrant cfg run Site account Deny))
       (\<lambda>e. case e of
              Signer err \<Rightarrow>
                if err_code err = Account_switched then Throw e
                else refuse Rejected ''Authentication rejected; the rejection could not be remembered''
            | _ \<Rightarrow> refuse Rejected ''Authentication rejected; the rejection could not be remembered'')"

subsection \<open>One request\<close>

text \<open>
  What the activity log is told if the run ends here. The code keeps it in an object that the
  run fills in; here every failure carries it.
\<close>

record RunContext =
  x_account :: "SafeAccount option"
  x_execute :: bool
  x_prepared :: "PreparedParams list option"
  x_authentication :: "AuthenticationRun option"

type_synonym 'a running = "(RunContext \<times> failure, 'a) waiting"

definition no_context :: RunContext where
  "no_context = \<lparr>x_account = None, x_execute = False, x_prepared = None, x_authentication = None\<rparr>"

definition inContext :: "RunContext \<Rightarrow> 'a pipeline \<Rightarrow> 'a running" where
  "inContext ctx p = bindP (attempt p) (\<lambda>x. case x of Inl e \<Rightarrow> Throw (ctx, e) | Inr a \<Rightarrow> Ret a)"

definition activeAccount :: "SafeAccount pipeline" where
  "activeAccount =
     bindP (ask GetActiveAccount the_account) (\<lambda>account.
       case account of None \<Rightarrow> refuse No_account ''No active account'' | Some a \<Rightarrow> Ret a)"

definition is_remote :: "SafeAccount \<Rightarrow> bool" where
  "is_remote account \<longleftrightarrow> a_type account = Nip46Account"

definition wrong_author :: "ValidatedParams \<Rightarrow> SafeAccount \<Rightarrow> bool" where
  "wrong_author params account =
     (case params of
        P_signEvent event \<Rightarrow> (case t_pubkey event of None \<Rightarrow> False | Some p \<Rightarrow> p \<noteq> a_pubkey account)
      | _ \<Rightarrow> False)"

definition wrongAuthor :: failure where
  "wrongAuthor = refusal Author_mismatch ''Event author does not match the active account''"

definition admitted :: "signer_host \<Rightarrow> ValidatedParams \<Rightarrow> SafeAccount \<Rightarrow> unit pipeline" where
  "admitted cfg params account =
     (let needsKey = params_method params \<in> set KEY_METHODS; remote = is_remote account
      in if needsKey \<and> \<not> remote \<and> a_readOnly account then refuse Unsupported ''This account has no signing key''
         else (case (if remote then remotePqRefusal params else None) of
                 Some message \<Rightarrow> refuse Unsupported message
               | None \<Rightarrow>
                   if needsKey \<and> remote \<and> \<not> dp_remote (h_deps cfg)
                   then refuse Unsupported ''Remote signing is not available on this host''
                   else refuseIf (wrong_author params account) wrongAuthor))"

definition storedConsent :: "signer_host \<Rightarrow> SafeAccount \<Rightarrow> AuthenticationRun \<Rightarrow> AuthenticationRun pipeline" where
  "storedConsent cfg account run =
     bindP (if dp_grants (h_deps cfg)
            then bindP (ask (GrantDecision (a_id account) (au_key run) (au_auth run)) the_stored) (\<lambda>stored.
                 if stored = Some Deny then refuse Permission_denied ''Authentication permission denied''
                 else Ret (run\<lparr>au_stored := stored\<rparr>))
            else Ret run) (\<lambda>run.
       Ret (if au_self run then run\<lparr>au_consent := Some BySelf\<rparr>
            else if au_stored run = Some Allow \<and> mayRemember cfg run then run\<lparr>au_consent := Some ByGrant\<rparr>
            else run))"

definition prepare :: "signer_host \<Rightarrow> SignerRequest \<Rightarrow> ValidatedParams \<Rightarrow> string \<Rightarrow> SafeAccount \<Rightarrow> PreparedParams pipeline" where
  "prepare cfg request params originKey account =
     (if params = P_signPqAttestation
      then seqP (asyncP (openVault cfg request originKey account))
          (seqP (asyncP (assertStillActive account))
          (bindP (asyncP (buildAttestation cfg account)) (\<lambda>event. Ret (Attestation event))))
      else Ret (Given params))"

definition rejection :: "ApprovalDecision \<Rightarrow> failure" where
  "rejection outcome =
     refusal Rejected (case d_reason outcome of
       None \<Rightarrow> ''Request rejected by user''
     | Some reason \<Rightarrow> if reason = [] then ''Request rejected by user'' else reason)"

definition rememberRejection ::
  "signer_host \<Rightarrow> string \<Rightarrow> Asked \<Rightarrow> ApprovalDecision \<Rightarrow> SafeAccount \<Rightarrow> AuthenticationRun option \<Rightarrow> unit pipeline" where
  "rememberRejection cfg originKey rule outcome account authentication =
     whenP (d_remember outcome \<and> (case authentication of None \<Rightarrow> True | Some run \<Rightarrow> req_protocol (au_auth run) \<noteq> LegacyLogin))
       (case authentication of
          Some run \<Rightarrow>
            if dp_grants (h_deps cfg) then asyncP (rememberAuthenticationDeny cfg run account)
            else asyncP (remember originKey rule outcome Deny account)
        | None \<Rightarrow> asyncP (remember originKey rule outcome Deny account))"

definition scope_offered :: "auth_scope option \<Rightarrow> auth_scope list \<Rightarrow> bool" where
  "scope_offered scope scopes \<longleftrightarrow> scope = Some Once \<or> (case scope of None \<Rightarrow> False | Some s \<Rightarrow> s \<in> set scopes)"

definition promptContext :: "auth_scope list \<Rightarrow> AuthenticationRun option \<Rightarrow> ApprovalContext option" where
  "promptContext scopes authentication =
     map_option (\<lambda>run. \<lparr>ac_authentication = au_auth run, ac_requester = au_key run, ac_scopes = scopes\<rparr>) authentication"

definition approved ::
  "string \<Rightarrow> Asked \<Rightarrow> ApprovalDecision \<Rightarrow> SafeAccount \<Rightarrow> SignerMethod \<Rightarrow> unit pipeline" where
  "approved originKey rule outcome account m =
     seqP (asyncP (assertStillActive account))
    (seqP (whenP (d_remember outcome) (asyncP (remember originKey rule outcome Allow account)))
    (whenP (m = GetPublicKey)
       (bindP now_ms (\<lambda>n. Put (\<lambda>s. s\<lparr>c_cooldowns := oset originKey
          \<lparr>cd_expiresAt = n + GET_PUBLIC_KEY_COOLDOWN_MS, cd_accountId = a_id account\<rparr> (c_cooldowns s)\<rparr>) (Ret ())))))"

definition askUser ::
  "signer_host \<Rightarrow> RunContext \<Rightarrow> SignerRequest \<Rightarrow> ValidatedParams \<Rightarrow> PreparedParams \<Rightarrow> SafeAccount
     \<Rightarrow> AuthenticationRun option \<Rightarrow> AuthenticationRun option running" where
  "askUser cfg ctx request params prepared account authentication =
     (let originKey = permissionOrigin (r_origin request); rule = permissionRule params;
          scopes = (case authentication of None \<Rightarrow> [] | Some run \<Rightarrow> acceptedScopes cfg run)
      in bindP (inContext ctx (asyncP (trackP (r_id request) ApprovalEntry originKey (a_id account)
               (Present (disclosedRequest request prepared) account (promptContext scopes authentication)) the_approval)))
         (\<lambda>outcome.
          if \<not> d_allow outcome
          then inContext ctx (seqP (rememberRejection cfg originKey rule outcome account authentication)
                 (Throw (rejection outcome)))
          else (case authentication of
             None \<Rightarrow>
               seqP (inContext ctx (approved originKey rule outcome account (params_method params))) (Ret None)
           | Some run \<Rightarrow>
               if \<not> scope_offered (d_scope outcome) scopes
               then inContext ctx (refuse Rejected
                      (if 1 < length scopes then ''Explicit authentication approval at an offered scope required''
                       else ''Explicit one-time authentication approval required''))
               else (let consented = run\<lparr>au_consent := map_option AtScope (d_scope outcome)\<rparr>
                     in seqP (inContext (ctx\<lparr>x_authentication := Some consented\<rparr>)
                               (approved originKey rule outcome account (params_method params)))
                          (Ret (Some consented))))))"

definition stored_scope :: "AuthenticationRun option \<Rightarrow> auth_scope option" where
  "stored_scope authentication =
     (case authentication of
        None \<Rightarrow> None
      | Some run \<Rightarrow>
          (case au_consent run of
             Some (AtScope Site) \<Rightarrow> Some Site
           | Some (AtScope ConnectedSites) \<Rightarrow> Some ConnectedSites
           | _ \<Rightarrow> None))"

text \<open>From the unlock to the answer.\<close>

definition finishRun ::
  "signer_host \<Rightarrow> RunContext \<Rightarrow> SignerRequest \<Rightarrow> ValidatedParams \<Rightarrow> PreparedParams \<Rightarrow> SafeAccount
     \<Rightarrow> AuthenticationRun option \<Rightarrow> nat \<Rightarrow> (signer_value \<times> RunContext) running" where
  "finishRun cfg ctx request params prepared account authentication revokedBefore =
     (let originKey = permissionOrigin (r_origin request);
          executing = ctx\<lparr>x_execute := True\<rparr>;
          recheck = seqP (asyncP (assertStillActive account))
            (asyncP (revalidateAuthentication cfg request params account authentication revokedBefore))
      in seqP (inContext ctx (whenP (params_method params \<in> set KEY_METHODS \<and> prepared_method prepared \<noteq> SignPqAttestation)
               (asyncP (openVault cfg request originKey account))))
        (seqP (inContext ctx recheck)
        (seqP (inContext ctx (case (authentication, stored_scope authentication) of
               (Some run, Some scope) \<Rightarrow> asyncP (saveAuthenticationGrant cfg run scope account Allow)
             | _ \<Rightarrow> Ret ()))
        (bindP (inContext executing (asyncP (executeFor cfg account (is_remote account) originKey request params prepared)))
          (\<lambda>answer. seqP (inContext executing recheck) (Ret (answer, executing)))))))"

definition needsConsent ::
  "SignerRequest \<Rightarrow> ValidatedParams \<Rightarrow> SafeAccount \<Rightarrow> decision \<Rightarrow> AuthenticationRun option \<Rightarrow> bool pipeline" where
  "needsConsent request params account d authentication =
     (case authentication of
        Some run \<Rightarrow> Ret (au_consent run = None)
      | None \<Rightarrow>
          if d = Ask
          then needsPrompt (params_method params) (is_remote account) (permissionOrigin (r_origin request)) account
          else Ret False)"

definition run_request :: "signer_host \<Rightarrow> ValidatedRequest \<Rightarrow> bool \<Rightarrow> (signer_value \<times> RunContext) running" where
  "run_request cfg validated self =
     (let request = v_request validated; params = v_params validated; originKey = permissionOrigin (r_origin request)
      in Get (\<lambda>s. let revokedBefore = c_revocationSerial s
         in bindP (inContext no_context activeAccount) (\<lambda>account.
            let ctx1 = no_context\<lparr>x_account := Some account\<rparr>
            in bindP (inContext ctx1 (checkRule originKey (permissionRule params) account)) (\<lambda>d.
               bindP (inContext ctx1 (admitted cfg params account)) (\<lambda>_.
               bindP (inContext ctx1 (asyncP (parse_run cfg request params account self))) (\<lambda>parsed.
               let ctx2 = ctx1\<lparr>x_authentication := parsed\<rparr>
               in bindP (inContext ctx2 (case parsed of
                        None \<Rightarrow> Ret None
                      | Some r \<Rightarrow> bindP (storedConsent cfg account r) (\<lambda>r. Ret (Some r)))) (\<lambda>authentication.
                  let ctx3 = ctx2\<lparr>x_authentication := authentication\<rparr>
                  in bindP (inContext ctx3 (prepare cfg request params originKey account)) (\<lambda>prepared.
                     let ctx4 = (if params = P_signPqAttestation then ctx3\<lparr>x_prepared := Some [prepared]\<rparr> else ctx3)
                     in bindP (inContext ctx4 (needsConsent request params account d authentication)) (\<lambda>asks.
                        bindP (if asks then askUser cfg ctx4 request params prepared account authentication
                               else Ret authentication) (\<lambda>consented.
                        finishRun cfg (ctx4\<lparr>x_authentication := consented\<rparr>) request params prepared account
                          consented revokedBefore))))))))))"

subsection \<open>Answering and recording\<close>

definition toSignerError :: "failure \<Rightarrow> bool \<Rightarrow> ('e, signer_error) waiting" where
  "toSignerError e executing =
     (case e of
        Signer err \<Rightarrow> Ret err
      | ExecuteFailure _ source lockedAtThrow \<Rightarrow>
          Ret (if source = FromVault \<or> lockedAtThrow then SignerError Vault_locked ''Vault is locked''
               else SignerError Operation_failed ''Operation failed'')
      | _ \<Rightarrow>
          if executing
          then bindP isLocked (\<lambda>locked. Ret (if locked then SignerError Vault_locked ''Vault is locked''
                 else SignerError Operation_failed ''Operation failed''))
          else Ret (SignerError Internal ''Internal signer error''))"

record Recorded =
  rc_id :: string
  rc_origin :: RequestOrigin
  rc_params :: PreparedParams
  rc_batchId :: "string option"
  rc_authentication :: "AuthenticationActivity option"

datatype outcome_record = Allowed | Denied string signer_error_code

fun params_event :: "PreparedParams \<Rightarrow> EventTemplateInput option" where
  "params_event (Attestation event) = Some event"
| "params_event (Given (P_signEvent event)) = Some event"
| "params_event _ = None"

fun params_kind :: "PreparedParams \<Rightarrow> int option" where
  "params_kind (Attestation event) = Some PQC_KIND"
| "params_kind (Given P_signPqAttestation) = Some PQC_KIND"
| "params_kind (Given (P_signEvent event)) = Some (t_kind event)"
| "params_kind _ = None"

fun params_peer :: "PreparedParams \<Rightarrow> string option" where
  "params_peer (Given (P_nip04Encrypt pubkey _)) = Some pubkey"
| "params_peer (Given (P_nip44Encrypt pubkey _ _)) = Some pubkey"
| "params_peer (Given (P_nip04Decrypt pubkey _)) = Some pubkey"
| "params_peer (Given (P_nip44Decrypt pubkey _ _)) = Some pubkey"
| "params_peer _ = None"

fun params_ciphertext :: "PreparedParams \<Rightarrow> string option" where
  "params_ciphertext (Given (P_nip04Decrypt _ ciphertext)) = Some ciphertext"
| "params_ciphertext (Given (P_nip44Decrypt _ ciphertext _)) = Some ciphertext"
| "params_ciphertext _ = None"

fun params_pq :: "PreparedParams \<Rightarrow> bool option" where
  "params_pq (Given (P_nip44Encrypt _ _ scheme)) = Some (scheme \<noteq> Classic)"
| "params_pq (Given (P_nip44Decrypt _ _ scheme)) = Some (scheme \<noteq> ClassicPayload)"
| "params_pq _ = None"

definition activity_entry :: "Recorded \<Rightarrow> SafeAccount option \<Rightarrow> outcome_record \<Rightarrow> int \<Rightarrow> ActivityEntry" where
  "activity_entry recorded account outcome n =
     \<lparr>en_requestId = rc_id recorded, en_timestamp = n, en_origin = rc_origin recorded,
      en_method = prepared_method (rc_params recorded), en_kind = params_kind (rc_params recorded),
      en_accountId = map_option a_id account, en_pubkey = map_option a_pubkey account,
      en_allowed = (outcome = Allowed),
      en_reason = (case outcome of Allowed \<Rightarrow> None | Denied reason _ \<Rightarrow> Some reason),
      en_code = (case outcome of Allowed \<Rightarrow> None | Denied _ c \<Rightarrow> Some c),
      en_theirPubkey = params_peer (rc_params recorded), en_ciphertext = params_ciphertext (rc_params recorded),
      en_event = params_event (rc_params recorded), en_pq = params_pq (rc_params recorded),
      en_batchId = rc_batchId recorded, en_authentication = rc_authentication recorded\<rparr>"

text \<open>A log that fails is ignored.\<close>

definition record_activity :: "Recorded \<Rightarrow> SafeAccount option \<Rightarrow> outcome_record \<Rightarrow> ('e, unit) waiting" where
  "record_activity recorded account outcome =
     bindP now_ms (\<lambda>n. Await (RecordActivity (activity_entry recorded account outcome n)) (\<lambda>_. Ret ()))"

definition recorded_request :: "ValidatedRequest \<Rightarrow> RunContext \<Rightarrow> Recorded" where
  "recorded_request validated ctx =
     \<lparr>rc_id = r_id (v_request validated), rc_origin = r_origin (v_request validated),
      rc_params = (case x_prepared ctx of Some (p # _) \<Rightarrow> p | _ \<Rightarrow> Given (v_params validated)),
      rc_batchId = None, rc_authentication = authenticationActivity (x_authentication ctx)\<rparr>"

definition handleValidated :: "signer_host \<Rightarrow> ValidatedRequest \<Rightarrow> bool \<Rightarrow> (signer_error, signer_value) waiting" where
  "handleValidated cfg validated self =
     bindP (attempt (asyncP (run_request cfg validated self))) (\<lambda>x.
       case x of
         Inr (answer, ctx) \<Rightarrow>
           seqP (asyncP (record_activity (recorded_request validated ctx) (x_account ctx) Allowed)) (Ret answer)
       | Inl (ctx, e) \<Rightarrow>
           bindP (toSignerError e (x_execute ctx)) (\<lambda>refused.
           seqP (asyncP (record_activity (recorded_request validated ctx) (x_account ctx)
                   (Denied (errorMessage e) (err_code refused))))
             (Throw refused)))"

definition shutDown :: signer_error where
  "shutDown = SignerError Shutdown ''Signer shut down''"

definition handle :: "signer_host \<Rightarrow> jsv \<Rightarrow> (signer_error, signer_value) waiting" where
  "handle cfg request =
     Get (\<lambda>s. if c_disposed s then Throw shutDown
        else (case validateRequest request of
                Inl e \<Rightarrow> Throw e
              | Inr validated \<Rightarrow> handleValidated cfg validated False))"

definition handleSelf :: "signer_host \<Rightarrow> jsv \<Rightarrow> (signer_error, signer_value) waiting" where
  "handleSelf cfg request =
     Get (\<lambda>s. if c_disposed s then Throw shutDown
        else if h_self cfg = [] then Throw (SignerError Unsupported ''This host has no self authentication path'')
        else (case validateRequest request of
                Inl e \<Rightarrow> Throw e
              | Inr validated \<Rightarrow>
                  if authentication_event (v_params validated) = None
                  then Throw (SignerError Invalid_request ''handleSelf takes an authentication event only'')
                  else handleValidated cfg validated True))"

subsection \<open>Batches\<close>

datatype item_run = RunOk string signer_value | RunRefused string failure signer_error

fun batch_rules :: "string \<Rightarrow> SafeAccount \<Rightarrow> Asked list \<Rightarrow> ValidatedParams list \<Rightarrow> Asked list pipeline" where
  "batch_rules originKey account consulted [] = Ret []"
| "batch_rules originKey account consulted (params # rest) =
     (let rule = permissionRule params
      in if rule \<in> set consulted then batch_rules originKey account consulted rest
         else bindP (checkRule originKey rule account) (\<lambda>d.
              bindP (batch_rules originKey account (rule # consulted) rest) (\<lambda>asked.
              Ret (if d = Ask then rule # asked else asked))))"

definition batch_admitted :: "ValidatedParams list \<Rightarrow> SafeAccount \<Rightarrow> unit pipeline" where
  "batch_admitted items account =
     (if list_ex (\<lambda>p. authentication_event p \<noteq> None) items
      then refuse Unsupported ''Authentication requests must be approved individually''
      else if is_remote account then refuse Unsupported ''Batches are not available for a remote account''
      else if a_readOnly account then refuse Unsupported ''This account has no signing key''
      else refuseIf (list_ex (\<lambda>p. wrong_author p account) items) wrongAuthor)"

definition yieldToHost :: "'a pipeline \<Rightarrow> 'a pipeline" where
  "yieldToHost p = Await YieldToHost (\<lambda>_. p)"

fun prepare_items ::
  "signer_host \<Rightarrow> RunContext \<Rightarrow> SafeAccount \<Rightarrow> PreparedParams list \<Rightarrow> ValidatedParams list \<Rightarrow> PreparedParams list running" where
  "prepare_items cfg ctx account done_items [] = Ret done_items"
| "prepare_items cfg ctx account done_items (params # rest) =
     (if params \<noteq> P_signPqAttestation
      then prepare_items cfg ctx account (done_items @ [Given params]) rest
      else bindP (inContext (ctx\<lparr>x_prepared := Some done_items\<rparr>)
               (if done_items = [] then asyncP (buildAttestation cfg account)
                else yieldToHost (asyncP (buildAttestation cfg account)))) (\<lambda>event.
             prepare_items cfg ctx account (done_items @ [Attestation event]) rest))"

definition askBatch ::
  "signer_host \<Rightarrow> SignerBatchRequest \<Rightarrow> PreparedParams list \<Rightarrow> SafeAccount \<Rightarrow> Asked list \<Rightarrow> unit pipeline" where
  "askBatch cfg batch prepared account asked =
     (let originKey = permissionOrigin (b_origin batch)
      in if \<not> dp_presentBatch (h_deps cfg) then refuse Unsupported ''This host cannot show a batch''
         else bindP (asyncP (trackP (b_id batch) ApprovalEntry originKey (a_id account)
                (PresentBatch (disclosedBatch batch prepared) account) the_approval)) (\<lambda>outcome.
              if \<not> d_allow outcome
              then seqP (whenP (d_remember outcome) (asyncP (rememberAll originKey asked outcome Deny account)))
                     (Throw (rejection outcome))
              else seqP (asyncP (assertStillActive account))
                     (whenP (d_remember outcome) (asyncP (rememberAll originKey asked outcome Allow account)))))"

definition run_item :: "signer_host \<Rightarrow> SafeAccount \<Rightarrow> string \<Rightarrow> PreparedParams \<Rightarrow> item_run pipeline" where
  "run_item cfg account ident prepared =
     bindP (attempt (asyncP (signLocally cfg account prepared))) (\<lambda>x.
       case x of
         Inr value \<Rightarrow> Ret (RunOk ident value)
       | Inl e \<Rightarrow> bindP (toSignerError e True) (\<lambda>refused. Ret (RunRefused ident e refused)))"

text \<open>What a running batch is checked for between two items.\<close>

definition batch_gap :: "SafeAccount \<Rightarrow> string \<Rightarrow> nat \<Rightarrow> signer_error option pipeline" where
  "batch_gap account originKey revokedBefore =
     bindP (asyncP (stillWanted account originKey revokedBefore)) (\<lambda>stopped.
       if stopped = None then yieldToHost (Ret None) else Ret stopped)"

fun run_items ::
  "signer_host \<Rightarrow> SafeAccount \<Rightarrow> string \<Rightarrow> nat \<Rightarrow> bool \<Rightarrow> signer_error option
     \<Rightarrow> (string \<times> PreparedParams) list \<Rightarrow> item_run list pipeline" where
  "run_items cfg account originKey revokedBefore first stopped [] = Ret []"
| "run_items cfg account originKey revokedBefore first stopped ((ident, prepared) # rest) =
     bindP (if \<not> first \<and> stopped = None then batch_gap account originKey revokedBefore else Ret stopped) (\<lambda>stopped.
     bindP (case stopped of
              Some e \<Rightarrow> Ret (RunRefused ident (Signer e) e)
            | None \<Rightarrow> run_item cfg account ident prepared) (\<lambda>item.
     bindP (run_items cfg account originKey revokedBefore False stopped rest) (\<lambda>items.
     Ret (item # items))))"

definition run_batch :: "signer_host \<Rightarrow> ValidatedBatch \<Rightarrow> (item_run list \<times> RunContext) running" where
  "run_batch cfg validated =
     (let batch = vb_request validated; items = map vi_params (vb_items validated);
          originKey = permissionOrigin (b_origin batch)
      in bindP (inContext no_context activeAccount) (\<lambda>account.
         let ctx1 = no_context\<lparr>x_account := Some account\<rparr>
         in bindP (inContext ctx1 (batch_rules originKey account [] items)) (\<lambda>asked.
            seqP (inContext ctx1 (batch_admitted items account))
           (seqP (inContext ctx1 (whenP (P_signPqAttestation \<in> set items)
                    (seqP (asyncP (openVaultForBatch cfg batch originKey account)) (asyncP (assertStillActive account)))))
           (bindP (prepare_items cfg ctx1 account [] items) (\<lambda>prepared.
            let ctx2 = ctx1\<lparr>x_prepared := Some prepared\<rparr>
            in seqP (inContext ctx2 (whenP (asked \<noteq> []) (askBatch cfg batch prepared account asked)))
              (seqP (inContext ctx2 (seqP (asyncP (openVaultForBatch cfg batch originKey account))
                                       (asyncP (assertStillActive account))))
              (Get (\<lambda>s. let ctx3 = ctx2\<lparr>x_execute := True\<rparr>
                 in bindP (inContext ctx3 (run_items cfg account originKey (c_revocationSerial s) True None
                        (zip (map vi_id (vb_items validated)) prepared)))
                      (\<lambda>runs. Ret (runs, ctx3)))))))))))"

definition recorded_item :: "ValidatedBatch \<Rightarrow> RunContext \<Rightarrow> nat \<Rightarrow> Recorded" where
  "recorded_item validated ctx index =
     (let item = vb_items validated ! index
      in \<lparr>rc_id = vi_id item, rc_origin = b_origin (vb_request validated),
          rc_params = (case x_prepared ctx of
             Some prepared \<Rightarrow> if index < length prepared then prepared ! index else Given (vi_params item)
           | None \<Rightarrow> Given (vi_params item)),
          rc_batchId = Some (b_id (vb_request validated)), rc_authentication = None\<rparr>)"

fun item_outcome :: "item_run \<Rightarrow> signer_value BatchItemOutcome" where
  "item_outcome (RunOk ident value) = ItemOk ident value"
| "item_outcome (RunRefused ident e refused) = ItemRefused ident (err_code refused) (err_message refused)"

fun item_record :: "item_run \<Rightarrow> outcome_record" where
  "item_record (RunOk _ _) = Allowed"
| "item_record (RunRefused _ e refused) = Denied (errorMessage e) (err_code refused)"

fun record_items :: "ValidatedBatch \<Rightarrow> RunContext \<Rightarrow> (nat \<times> outcome_record) list \<Rightarrow> ('e, unit) waiting" where
  "record_items validated ctx [] = Ret ()"
| "record_items validated ctx ((index, outcome) # rest) =
     seqP (asyncP (record_activity (recorded_item validated ctx index) (x_account ctx) outcome))
       (record_items validated ctx rest)"

definition handleBatch :: "signer_host \<Rightarrow> jsv \<Rightarrow> (signer_error, signer_value BatchResult) waiting" where
  "handleBatch cfg batch =
     Get (\<lambda>s. if c_disposed s then Throw shutDown
        else (case validateBatchRequest batch of
                Inl e \<Rightarrow> Throw e
              | Inr validated \<Rightarrow>
                  bindP (attempt (asyncP (run_batch cfg validated))) (\<lambda>x.
                    case x of
                      Inr (runs, ctx) \<Rightarrow>
                        seqP (record_items validated ctx (enumerate 0 (map item_record runs)))
                          (Ret \<lparr>br_id = b_id (vb_request validated), br_items = map item_outcome runs\<rparr>)
                    | Inl (ctx, e) \<Rightarrow>
                        bindP (toSignerError e (x_execute ctx)) (\<lambda>refused.
                        seqP (record_items validated ctx (map (\<lambda>i. (i, Denied (errorMessage e) (err_code refused)))
                               [0..<length (vb_items validated)]))
                          (Throw refused)))))"

end
