(* ===== verification/Sign_Safety.thy ===== *)
theory Sign_Safety
  imports Sign_Core
begin

section \<open>What a request may do\<close>

text \<open>
  The conditions under which the pipeline may make each call, on the history of what has been
  asked and answered so far, and the proof that every run of a request keeps them, whatever the
  ports answer and whatever runs while it waits. Histories have the last call first.
\<close>

type_synonym calls = "(sigcall, answer) history"

subsection \<open>Accounts\<close>

fun answered_account :: "sigcall \<times> answer \<Rightarrow> SafeAccount option option" where
  "answered_account (GetActiveAccount, A_account x) = Some x"
| "answered_account _ = None"

text \<open>The account a request was resolved for, and the one the host named last.\<close>

fun first_account :: "calls \<Rightarrow> SafeAccount option" where
  "first_account [] = None"
| "first_account (e # h) =
     (case first_account h of
        Some a \<Rightarrow> Some a
      | None \<Rightarrow> (case answered_account e of Some x \<Rightarrow> x | None \<Rightarrow> None))"

fun last_account :: "calls \<Rightarrow> SafeAccount option" where
  "last_account [] = None"
| "last_account (e # h) = (case answered_account e of Some x \<Rightarrow> x | None \<Rightarrow> last_account h)"

definition active :: "SafeAccount \<Rightarrow> calls \<Rightarrow> bool" where
  "active a h \<longleftrightarrow> (case last_account h of None \<Rightarrow> False | Some b \<Rightarrow> a_id b = a_id a \<and> a_pubkey b = a_pubkey a)"

text \<open>A call that names an account names this one.\<close>

fun for_account :: "SafeAccount \<Rightarrow> sigcall \<Rightarrow> bool" where
  "for_account a (CheckPermission _ _ _ i) \<longleftrightarrow> i = a_id a"
| "for_account a (SavePermission _ _ _ _ i) \<longleftrightarrow> i = a_id a"
| "for_account a (GrantDecision i _ _) \<longleftrightarrow> i = a_id a"
| "for_account a (GrantSave i _ _ _ _) \<longleftrightarrow> i = a_id a"
| "for_account a (RequesterFor _ b) \<longleftrightarrow> b = a"
| "for_account a (OriginFor _ b) \<longleftrightarrow> b = a"
| "for_account a (AssertAllowed _ b _) \<longleftrightarrow> b = a"
| "for_account a (Present _ b _) \<longleftrightarrow> b = a"
| "for_account a (PresentBatch _ b) \<longleftrightarrow> b = a"
| "for_account a (RequestUnlock _ b) \<longleftrightarrow> b = a"
| "for_account a (RequestUnlockBatch _ b) \<longleftrightarrow> b = a"
| "for_account a (WithPrivkey i) \<longleftrightarrow> i = a_id a"
| "for_account a (WithMnemonic i) \<longleftrightarrow> i = a_id a"
| "for_account a (WithImportedPqKeys i) \<longleftrightarrow> i = a_id a"
| "for_account a (HasMnemonic i) \<longleftrightarrow> i = a_id a"
| "for_account a (HasImportedPqKeys i) \<longleftrightarrow> i = a_id a"
| "for_account a (RemoteExecute b _ _) \<longleftrightarrow> b = a"
| "for_account a (FetchRelays b) \<longleftrightarrow> b = a"
| "for_account a _ \<longleftrightarrow> True"

subsection \<open>Permission\<close>

definition origin_of :: "ValidatedRequest \<Rightarrow> string" where
  "origin_of v = permissionOrigin (r_origin (v_request v))"

definition rule_of :: "ValidatedRequest \<Rightarrow> Asked" where
  "rule_of v = permissionRule (v_params v)"

definition consulted :: "ValidatedRequest \<Rightarrow> SafeAccount \<Rightarrow> decision \<Rightarrow> calls \<Rightarrow> bool" where
  "consulted v a d h \<longleftrightarrow>
     (CheckPermission (origin_of v) (as_method (rule_of v)) (as_kind (rule_of v)) (a_id a), A_decision d) \<in> set h"

fun is_denial :: "sigcall \<times> answer \<Rightarrow> bool" where
  "is_denial (CheckPermission _ _ _ _, A_decision d) \<longleftrightarrow> d = Deny"
| "is_denial (GrantDecision _ _ _, A_stored d) \<longleftrightarrow> d = Some Deny"
| "is_denial _ \<longleftrightarrow> False"

definition undenied :: "calls \<Rightarrow> bool" where
  "undenied h \<longleftrightarrow> (\<forall>e \<in> set h. \<not> is_denial e)"

text \<open>Calls that show nothing, open nothing, change nothing and compute nothing.\<close>

fun harmless :: "sigcall \<Rightarrow> bool" where
  "harmless Now \<longleftrightarrow> True"
| "harmless IsLocked \<longleftrightarrow> True"
| "harmless Pause \<longleftrightarrow> True"
| "harmless GetActiveAccount \<longleftrightarrow> True"
| "harmless (CheckPermission _ _ _ _) \<longleftrightarrow> True"
| "harmless (RecordActivity _) \<longleftrightarrow> True"
| "harmless _ \<longleftrightarrow> False"

subsection \<open>Keys\<close>

text \<open>Opening the keys of an account, or having its remote signer act.\<close>

fun opens_keys :: "sigcall \<Rightarrow> bool" where
  "opens_keys (WithPrivkey _) \<longleftrightarrow> True"
| "opens_keys (WithMnemonic _) \<longleftrightarrow> True"
| "opens_keys (WithImportedPqKeys _) \<longleftrightarrow> True"
| "opens_keys (RemoteExecute _ _ _) \<longleftrightarrow> True"
| "opens_keys _ \<longleftrightarrow> False"

fun key_used :: "sigcall \<Rightarrow> string option" where
  "key_used (SignTemplate k _) = Some k"
| "key_used (Nip04EncryptWith k _ _) = Some k"
| "key_used (Nip04DecryptWith k _ _) = Some k"
| "key_used (Nip44EncryptWith k _ _) = Some k"
| "key_used (Nip44DecryptWith k _ _) = Some k"
| "key_used (PqEncryptWith k _ _ _ _) = Some k"
| "key_used (PqDecryptWith k _ _ _) = Some k"
| "key_used _ = None"

definition key_of_account :: "SafeAccount \<Rightarrow> string \<Rightarrow> calls \<Rightarrow> bool" where
  "key_of_account a k h \<longleftrightarrow>
     (WithPrivkey (a_id a), A_text k) \<in> set h \<and> (DerivePublicKey k, A_text (a_pubkey a)) \<in> set h"

text \<open>What is computed is what the request says, and what every prompt showed.\<close>

definition is_prompt :: "sigcall \<Rightarrow> SignerRequest \<Rightarrow> bool" where
  "is_prompt c shown \<longleftrightarrow> (\<exists>a ctx. c = Present shown a ctx)"

definition event_shown :: "EventTemplateInput \<Rightarrow> calls \<Rightarrow> bool" where
  "event_shown event h \<longleftrightarrow> (\<forall>c r shown. (c, r) \<in> set h \<and> is_prompt c shown \<longrightarrow> r_params shown = EventParams event)"

definition same_event :: "EventTemplateInput \<Rightarrow> EventTemplateInput \<Rightarrow> bool" where
  "same_event t event \<longleftrightarrow>
     t_kind t = t_kind event \<and> t_content t = t_content event \<and> t_tags t = t_tags event
     \<and> (\<forall>c. t_created_at event = Some c \<longrightarrow> t_created_at t = Some c)"

fun as_requested :: "ValidatedRequest \<Rightarrow> calls \<Rightarrow> sigcall \<Rightarrow> bool" where
  "as_requested v h (SignTemplate _ t) \<longleftrightarrow>
     (\<exists>event. same_event t event \<and> event_shown event h
        \<and> (v_params v = P_signEvent event \<or> v_params v = P_signPqAttestation))"
| "as_requested v h (Nip04EncryptWith _ p x) \<longleftrightarrow> v_params v = P_nip04Encrypt p x"
| "as_requested v h (Nip04DecryptWith _ p x) \<longleftrightarrow> v_params v = P_nip04Decrypt p x"
| "as_requested v h (Nip44EncryptWith _ p x) \<longleftrightarrow> v_params v = P_nip44Encrypt p x Classic"
| "as_requested v h (Nip44DecryptWith _ p x) \<longleftrightarrow> v_params v = P_nip44Decrypt p x ClassicPayload"
| "as_requested v h (PqEncryptWith _ _ p x kem) \<longleftrightarrow> v_params v = P_nip44Encrypt p x (Pq kem)"
| "as_requested v h (PqDecryptWith _ _ p x) \<longleftrightarrow> v_params v = P_nip44Decrypt p x PqHybrid"
| "as_requested v h (RemoteExecute _ request params) \<longleftrightarrow>
     request = v_request v \<and> params = v_params v \<and> \<not> needsPqKeys params"
| "as_requested v h _ \<longleftrightarrow> True"

subsection \<open>Consent\<close>

text \<open>The user said yes to a prompt for this account and, for a login, at a scope it offered.\<close>

definition said_yes :: "SafeAccount \<Rightarrow> calls \<Rightarrow> bool" where
  "said_yes a h \<longleftrightarrow> (\<exists>shown d. (Present shown a None, A_approval d) \<in> set h \<and> d_allow d)"

definition login_of :: "signer_host \<Rightarrow> EventTemplateInput \<Rightarrow> auth_request \<Rightarrow> bool" where
  "login_of cfg event auth \<longleftrightarrow>
     (\<exists>requester n. parseAuthentication (auth_event_of event) requester n (dp_legacyLoginOrigins (h_deps cfg)) = Inr (Some auth))"

definition login_approved :: "signer_host \<Rightarrow> EventTemplateInput \<Rightarrow> SafeAccount \<Rightarrow> calls \<Rightarrow> bool" where
  "login_approved cfg event a h \<longleftrightarrow>
     (\<exists>shown ctx d s. (Present shown a (Some ctx), A_approval d) \<in> set h \<and> d_allow d \<and> d_scope d = Some s
        \<and> s \<in> set (ac_scopes ctx) \<and> login_of cfg event (ac_authentication ctx))"

definition login_granted :: "signer_host \<Rightarrow> EventTemplateInput \<Rightarrow> SafeAccount \<Rightarrow> calls \<Rightarrow> bool" where
  "login_granted cfg event a h \<longleftrightarrow>
     (\<exists>key auth. (GrantDecision (a_id a) key auth, A_stored (Some Allow)) \<in> set h \<and> dp_grants (h_deps cfg)
        \<and> login_of cfg event auth)"

definition login_of_host :: "signer_host \<Rightarrow> bool \<Rightarrow> EventTemplateInput \<Rightarrow> bool" where
  "login_of_host cfg self event \<longleftrightarrow> self \<and> (\<exists>auth. login_of cfg event auth \<and> req_protocol auth = Nip42)"

text \<open>An allow that is neither a refusal nor a question.\<close>

definition authorised :: "signer_host \<Rightarrow> bool \<Rightarrow> ValidatedRequest \<Rightarrow> SafeAccount \<Rightarrow> calls \<Rightarrow> bool" where
  "authorised cfg self v a h \<longleftrightarrow>
     (case authentication_event (v_params v) of
        None \<Rightarrow> (\<exists>d. consulted v a d h \<and> d \<noteq> Deny \<and> d \<noteq> Ask) \<or> said_yes a h \<or> is_remote a
      | Some event \<Rightarrow>
          login_of_host cfg self event \<or> login_granted cfg event a h \<or> login_approved cfg event a h)"

definition asked_to_remember :: "calls \<Rightarrow> bool" where
  "asked_to_remember h \<longleftrightarrow> (\<exists>shown a ctx d. (Present shown a ctx, A_approval d) \<in> set h \<and> d_remember d)"

fun stores_rightly :: "ValidatedRequest \<Rightarrow> calls \<Rightarrow> sigcall \<Rightarrow> bool" where
  "stores_rightly v h (SavePermission origin m k d _) \<longleftrightarrow>
     origin = origin_of v \<and> m = as_method (rule_of v) \<and> (k = as_kind (rule_of v) \<or> k = None) \<and> asked_to_remember h
     \<and> (d = Allow \<and> authentication_event (v_params v) = None \<or> d = Deny)"
| "stores_rightly v h _ \<longleftrightarrow> True"

subsection \<open>The condition on a call\<close>

definition computes :: "sigcall \<Rightarrow> bool" where
  "computes c \<longleftrightarrow> key_used c \<noteq> None \<or> (\<exists>a r p. c = RemoteExecute a r p)"

definition allowed_call :: "signer_host \<Rightarrow> bool \<Rightarrow> ValidatedRequest \<Rightarrow> calls \<Rightarrow> sigcall \<Rightarrow> bool" where
  "allowed_call cfg self v h c \<longleftrightarrow>
     as_requested v h c \<and> stores_rightly v h c \<and> (c \<noteq> GetActiveAccount \<longrightarrow> \<not> harmless c \<longrightarrow>
       undenied h \<and>
       (\<exists>a d. first_account h = Some a \<and> for_account a c \<and> consulted v a d h
          \<and> (opens_keys c \<longrightarrow> active a h)
          \<and> (\<forall>k. key_used c = Some k \<longrightarrow> key_of_account a k h)
          \<and> (computes c \<longrightarrow> authorised cfg self v a h)))"

subsection \<open>What calls leave alone\<close>

text \<open>
  \<open>settled_calls v a d h\<close>: the request has been resolved for \<open>a\<close>, its rule was answered with \<open>d\<close>,
  and nothing has been denied. It survives every call but the two that can be answered with a
  denial.
\<close>

definition base :: "ValidatedRequest \<Rightarrow> SafeAccount \<Rightarrow> decision \<Rightarrow> calls \<Rightarrow> bool" where
  "base v a d h \<longleftrightarrow> first_account h = Some a \<and> consulted v a d h \<and> d \<noteq> Deny \<and> undenied h"

lemma base_step: "base v a d h \<Longrightarrow> \<not> is_denial e \<Longrightarrow> base v a d (e # h)"
  by (simp add: base_def consulted_def undenied_def)

lemma active_step: "active a h \<Longrightarrow> answered_account e = None \<Longrightarrow> active a (e # h)"
  by (simp add: active_def)

text \<open>Neither an answer with an account nor a denial can come from these.\<close>

fun quiet :: "sigcall \<Rightarrow> bool" where
  "quiet GetActiveAccount \<longleftrightarrow> False"
| "quiet (CheckPermission _ _ _ _) \<longleftrightarrow> False"
| "quiet (GrantDecision _ _ _) \<longleftrightarrow> False"
| "quiet (Present _ _ _) \<longleftrightarrow> False"
| "quiet _ \<longleftrightarrow> True"

lemma quiet_answers: "quiet c \<Longrightarrow> answered_account (c, r) = None \<and> \<not> is_denial (c, r)"
  by (cases c; cases r) auto

text \<open>What a stage may rely on besides: facts that only a prompt can spoil.\<close>

definition stable :: "(calls \<Rightarrow> bool) \<Rightarrow> bool" where
  "stable G \<longleftrightarrow> (\<forall>h c r. (\<nexists>shown. is_prompt c shown) \<longrightarrow> G h \<longrightarrow> G ((c, r) # h))"

lemma stableD: "stable G \<Longrightarrow> G h \<Longrightarrow> (\<And>shown. \<not> is_prompt c shown) \<Longrightarrow> G ((c, r) # h)"
  by (auto simp: stable_def)

lemma stable_conj: "stable G \<Longrightarrow> stable H \<Longrightarrow> stable (\<lambda>h. G h \<and> H h)"
  by (auto simp: stable_def)

lemma stable_True: "stable (\<lambda>_. True)"
  by (simp add: stable_def)

lemma quiet_no_prompt: "quiet c \<Longrightarrow> \<not> is_prompt c shown"
  by (auto simp: is_prompt_def)

definition stage :: "ValidatedRequest \<Rightarrow> SafeAccount \<Rightarrow> decision \<Rightarrow> (calls \<Rightarrow> bool) \<Rightarrow> calls \<Rightarrow> bool" where
  "stage v a d G h \<longleftrightarrow> base v a d h \<and> active a h \<and> G h"

lemma stage_quiet: "stage v a d G h \<Longrightarrow> stable G \<Longrightarrow> quiet c \<Longrightarrow> stage v a d G ((c, r) # h)"
  using quiet_answers [of c r] quiet_no_prompt [of c]
  by (auto simp: stage_def intro: base_step active_step stableD)

subsection \<open>Calls that are allowed\<close>

lemma harmless_allowed: "harmless c \<Longrightarrow> allowed_call cfg self v h c"
  by (cases c) (simp_all add: allowed_call_def)

text \<open>Calls for the account that neither reach keys nor store rules.\<close>

definition plain :: "SafeAccount \<Rightarrow> sigcall \<Rightarrow> bool" where
  "plain a c \<longleftrightarrow> for_account a c \<and> \<not> opens_keys c \<and> \<not> computes c \<and> (\<forall>o' m k d i. c \<noteq> SavePermission o' m k d i)"

lemma computes_simps [simp]:
  "computes (RemoteExecute b r ps)" "computes (SignTemplate k t)" "computes (Nip04EncryptWith k p x)"
  "computes (Nip04DecryptWith k p x)" "computes (Nip44EncryptWith k p x)" "computes (Nip44DecryptWith k p x)"
  "computes (PqEncryptWith k kp p x kem)" "computes (PqDecryptWith k kp p x)"
  by (simp_all add: computes_def)

lemma not_computes: "key_used c = None \<Longrightarrow> \<not> (\<exists>b r p. c = RemoteExecute b r p) \<Longrightarrow> \<not> computes c"
  by (simp add: computes_def)

lemma plain_requested: "plain a c \<Longrightarrow> as_requested v h c \<and> stores_rightly v h c \<and> key_used c = None"
  by (cases c) (simp_all add: plain_def computes_def)

lemma plain_allowed:
  assumes "plain a c" "base v a d h" shows "allowed_call cfg self v h c"
proof -
  have "for_account a c" "\<not> opens_keys c" "\<not> computes c" using assms(1) by (simp_all add: plain_def)
  with plain_requested [OF assms(1)] assms(2) show ?thesis by (auto simp: allowed_call_def base_def)
qed

lemma stage_plain: "stage v a d G h \<Longrightarrow> plain a c \<Longrightarrow> allowed_call cfg self v h c"
  unfolding stage_def by (blast intro: plain_allowed)

lemma harmless_plain [simp]:
  "plain a Now" "plain a IsLocked" "plain a Pause" "plain a GetActiveAccount" "plain a YieldToHost" "plain a EndScope"
  by (simp_all add: plain_def computes_def)

lemma plain_iff [simp]:
  "plain a (CheckPermission x1 m k i) \<longleftrightarrow> i = a_id a" "plain a (GrantDecision i k' au) \<longleftrightarrow> i = a_id a"
  "plain a (GrantSave i k' au s dd) \<longleftrightarrow> i = a_id a" "plain a GrantCommit \<longleftrightarrow> True"
  "plain a (RequesterFor rq b) \<longleftrightarrow> b = a" "plain a (OriginFor rq b) \<longleftrightarrow> b = a"
  "plain a (AssertAllowed rq b au) \<longleftrightarrow> b = a" "plain a (Present rq b cx) \<longleftrightarrow> b = a"
  "plain a (PresentBatch bt b) \<longleftrightarrow> b = a" "plain a (RequestUnlock rq b) \<longleftrightarrow> b = a"
  "plain a (RequestUnlockBatch bt b) \<longleftrightarrow> b = a" "plain a (HasMnemonic i) \<longleftrightarrow> i = a_id a"
  "plain a (HasImportedPqKeys i) \<longleftrightarrow> i = a_id a" "plain a (WithDerivedSecrets ks) \<longleftrightarrow> True"
  "plain a (DerivePublicKey kk) \<longleftrightarrow> True" "plain a (FetchRelays b) \<longleftrightarrow> b = a"
  by (auto simp: plain_def computes_def)

lemma stage_only:
  assumes "only (\<lambda>c. plain a c \<and> quiet c) p" "stage v a d G h" "stable G"
  shows "ok (allowed_call cfg self v) p (\<lambda>_. stage v a d G) h"
proof (rule ok_only [where I = "stage v a d G", OF assms(1)])
  show "stage v a d G h" by (rule assms(2))
  show "allowed_call cfg self v h c" if "plain a c \<and> quiet c" "stage v a d G h" for h c
    using that by (auto simp: stage_def intro: plain_allowed)
  show "stage v a d G ((c, r) # h)" if "plain a c \<and> quiet c" "stage v a d G h" for h c r
    using stage_quiet [OF that(2) assms(3)] that(1) by simp
qed

subsection \<open>Building blocks\<close>

lemma only_expect [only_intros]: "only C (expect f r)"
  by (cases r) (auto simp: expect_def split: option.split)

lemma only_ask [only_intros]: "C c \<Longrightarrow> only C (ask c f)"
  by (simp add: ask_def only_expect)

lemma only_now [only_intros]: "C Now \<Longrightarrow> only C now_ms"
  by (simp add: now_ms_def)

lemma only_locked [only_intros]: "C IsLocked \<Longrightarrow> only C isLocked"
  by (simp add: isLocked_def)

lemma only_refuse [only_intros]: "only C (refuse e m)"
  by (simp add: refuse_def)

lemma only_async [only_intros]: "only C p \<Longrightarrow> C Pause \<Longrightarrow> only C (asyncP p)"
  unfolding asyncP_def by (intro only_bind only_attempt) (auto split: sum.split)

lemma only_scoped [only_intros]:
  "C c \<Longrightarrow> C EndScope \<Longrightarrow> (\<And>k. only C (body k)) \<Longrightarrow> only C (scopedP c f body)"
  by (auto simp: scopedP_def split: answer.split intro!: only_bind only_expect)

lemma only_track [only_intros]: "C work \<Longrightarrow> C Now \<Longrightarrow> only C (trackP i kind o' a work f)"
  by (auto simp: trackP_def now_ms_def Let_def only_expect split: prod.split sum.split option.split)

lemma only_inContext [only_intros]: "only C p \<Longrightarrow> only C (inContext ctx p)"
  unfolding inContext_def by (intro only_bind only_attempt) (auto split: sum.split)

lemma only_tagged [only_intros]: "C IsLocked \<Longrightarrow> only C (tagged e)"
  by (cases e) (auto simp: tagged_def intro!: only_intros)

lemma only_from_vault [only_intros]: "only C (from_vault e)"
  by (cases e) (auto simp: from_vault_def)

lemma ok_async:
  assumes "ok P p R h" "\<And>h. P h Pause" "\<And>a h r. R a h \<Longrightarrow> R a ((Pause, r) # h)"
  shows "ok P (asyncP p) R h"
  unfolding asyncP_def
proof (rule ok_bindI)
  show "ok P (attempt p) (\<lambda>x h. \<forall>a. x = Inr a \<longrightarrow> R a h) h" by (rule ok_attempt [OF assms(1)]) auto
  show "ok P (Await Pause (\<lambda>_. case x of Inl e \<Rightarrow> Throw e | Inr a \<Rightarrow> Ret a)) R h" if "\<forall>a. x = Inr a \<longrightarrow> R a h" for x h
    using that assms(2,3) by (auto split: sum.split)
qed

lemma ok_expect: "(\<And>a. f r = Some a \<Longrightarrow> R a h) \<Longrightarrow> ok P (expect f r) R h"
  by (cases r) (auto simp: expect_def split: option.split)

lemma ok_ask: "P h c \<Longrightarrow> (\<And>a r. f r = Some a \<Longrightarrow> R a ((c, r) # h)) \<Longrightarrow> ok P (ask c f) R h"
  by (auto simp: ask_def intro: ok_expect)

lemma ok_inContext: "ok P p R h \<Longrightarrow> ok P (inContext ctx p) R h"
  unfolding inContext_def
  by (rule ok_bindI [OF ok_attempt [where Q = "\<lambda>x h. \<forall>a. x = Inr a \<longrightarrow> R a h"]]) (auto split: sum.split)

lemma ok_scoped:
  assumes "P h c"
    and "\<And>k r. f r = Some k \<Longrightarrow> ok P (body k) R ((c, r) # h)"
    and "\<And>a h. R a h \<Longrightarrow> P h EndScope" "\<And>a h r. R a h \<Longrightarrow> R a ((EndScope, r) # h)"
  shows "ok P (scopedP c f body) R h"
proof -
  have "ok P (Await EndScope (\<lambda>e. case e of A_throws x \<Rightarrow> Throw x | _ \<Rightarrow> Ret a)) R h" if "R a h" for a h
    using assms(3,4) [OF that] by (auto split: answer.split)
  then have "ok P (bindP (body k) (\<lambda>a. Await EndScope (\<lambda>e. case e of A_throws x \<Rightarrow> Throw x | _ \<Rightarrow> Ret a))) R ((c, r) # h)"
    if "f r = Some k" for k r by (rule ok_bindI [OF assms(2) [OF that]])
  then show ?thesis unfolding scopedP_def
    by (auto simp: ok_bind intro!: ok_expect assms(1))
qed

text \<open>Work that was tracked and came back was answered, and its outcome is that answer.\<close>

lemma ok_track:
  assumes "P h Now"
    and "\<And>r. P ((Now, r) # h) work"
    and "\<And>a n r. f r = Some a \<Longrightarrow> R a ((work, r) # (Now, n) # h)"
  shows "ok P (trackP i kind o' acct work f) R h"
  unfolding trackP_def Let_def using assms
  by (auto simp: now_ms_def split: prod.split sum.split option.split intro!: ok_expect)

lemma ok_now: "P h Now \<Longrightarrow> (\<And>r. R (number_of r) ((Now, r) # h)) \<Longrightarrow> ok P now_ms R h"
  by (simp add: now_ms_def)

lemma ok_locked: "P h IsLocked \<Longrightarrow> (\<And>r. R (flag_of r) ((IsLocked, r) # h)) \<Longrightarrow> ok P isLocked R h"
  by (simp add: isLocked_def)

lemma ok_refuse [simp]: "ok P (refuse e m) R h"
  by (simp add: refuse_def)

abbreviation pipeline_ok where
  "pipeline_ok cfg self v \<equiv> ok (allowed_call cfg self v)"

lemma free_calls [simp]:
  "allowed_call cfg self v h Pause" "allowed_call cfg self v h Now" "allowed_call cfg self v h IsLocked"
  "allowed_call cfg self v h GetActiveAccount" "allowed_call cfg self v h (CheckPermission x m k i)"
  by (simp_all add: harmless_allowed)

lemma rethrows_tagged: "rethrows harmless tagged"
  unfolding rethrows_def by (intro allI, rename_tac e, case_tac e) (auto simp: tagged_def isLocked_def)

lemma rethrows_from_vault: "rethrows harmless from_vault"
  unfolding rethrows_def by (intro allI, rename_tac e, case_tac e) (auto simp: from_vault_def isLocked_def)

subsection \<open>The stages before the prompt\<close>

lemma stable_active_free: "stable G \<Longrightarrow> base v a d h \<and> G h \<Longrightarrow> base v a d ((GetActiveAccount, r) # h) \<and> G ((GetActiveAccount, r) # h)"
  by (auto intro: base_step stableD simp: is_prompt_def)

lemma assertStillActive_ok:
  assumes "base v a d h" "G h" "stable G"
  shows "pipeline_ok cfg self v (assertStillActive a) (\<lambda>_. stage v a d G) h"
  unfolding assertStillActive_def
proof (rule ok_bindI)
  show "pipeline_ok cfg self v (ask GetActiveAccount the_account)
      (\<lambda>x h. base v a d h \<and> G h \<and> last_account h = x) h"
  proof (rule ok_ask)
    fix x r assume "the_account r = Some x"
    then have "r = A_account x" by (cases r) auto
    then show "base v a d ((GetActiveAccount, r) # h) \<and> G ((GetActiveAccount, r) # h) \<and> last_account ((GetActiveAccount, r) # h) = x"
      using stable_active_free [OF assms(3), of v a d h r] assms(1,2) by simp
  qed simp
qed (auto simp: stage_def active_def split: option.splits)

lemma stage_pause: "stable G \<Longrightarrow> stage v a d G h \<Longrightarrow> stage v a d G ((Pause, r) # h)"
  by (rule stage_quiet) simp_all

lemma assertStill_async:
  assumes "base v a d h" "G h" "stable G"
  shows "pipeline_ok cfg self v (asyncP (assertStillActive a)) (\<lambda>_. stage v a d G) h"
  by (rule ok_async [OF assertStillActive_ok [OF assms]]) (auto intro: stage_pause assms(3))

lemma stage_async:
  assumes "pipeline_ok cfg self v p (\<lambda>x h. stage v a d G h \<and> B x) h" "stable G"
  shows "pipeline_ok cfg self v (asyncP p) (\<lambda>x h. stage v a d G h \<and> B x) h"
  by (rule ok_async [OF assms(1)]) (auto intro: stage_pause assms(2))

definition unprompted :: "calls \<Rightarrow> bool" where
  "unprompted h \<longleftrightarrow> (\<forall>c r shown. (c, r) \<in> set h \<longrightarrow> \<not> is_prompt c shown)"

lemma stable_unprompted: "stable unprompted"
  by (auto simp: stable_def unprompted_def)

lemma activeAccount_ok:
  "pipeline_ok cfg self v activeAccount
     (\<lambda>a h. first_account h = Some a \<and> active a h \<and> unprompted h \<and> undenied h) []"
  unfolding activeAccount_def
proof (rule ok_bindI)
  show "pipeline_ok cfg self v (ask GetActiveAccount the_account)
     (\<lambda>x h. first_account h = x \<and> last_account h = x \<and> unprompted h \<and> undenied h) []"
  proof (rule ok_ask)
    fix x r assume "the_account r = Some x"
    then have "r = A_account x" by (cases r) auto
    then show "first_account [(GetActiveAccount, r)] = x \<and> last_account [(GetActiveAccount, r)] = x
        \<and> unprompted [(GetActiveAccount, r)] \<and> undenied [(GetActiveAccount, r)]"
      by (auto simp: unprompted_def undenied_def is_prompt_def)
  qed simp
qed (auto simp: active_def split: option.splits)

lemma checkRule_ok:
  assumes "first_account h = Some a" "active a h" "undenied h" "G h" "stable G"
  shows "pipeline_ok cfg self v (checkRule (origin_of v) (rule_of v) a)
     (\<lambda>d h. stage v a d G h) h"
  unfolding checkRule_def
proof (rule ok_bindI)
  let ?c = "CheckPermission (origin_of v) (as_method (rule_of v)) (as_kind (rule_of v)) (a_id a)"
  show "pipeline_ok cfg self v (ask ?c the_decision)
      (\<lambda>d h. d \<noteq> Deny \<longrightarrow> stage v a d G h) h"
  proof (rule ok_ask)
    fix d r assume "the_decision r = Some d"
    then have "r = A_decision d" by (cases r) auto
    then show "d \<noteq> Deny \<longrightarrow> stage v a d G ((?c, r) # h)"
      using assms stableD [OF assms(5,4), of ?c r]
      by (auto simp: stage_def base_def consulted_def undenied_def is_prompt_def intro: active_step)
  qed simp
qed auto

lemma stable_consulted: "stable (consulted v a d)"
  by (auto simp: stable_def consulted_def)

lemma recheckRule_ok:
  assumes "stage v a d G h" "stable G"
  shows "pipeline_ok cfg self v (checkRule (origin_of v) (rule_of v) a) (\<lambda>_. stage v a d G) h"
proof (rule ok_mono)
  show "pipeline_ok cfg self v (checkRule (origin_of v) (rule_of v) a)
      (\<lambda>d'. stage v a d' (\<lambda>h. G h \<and> consulted v a d h)) h"
    using assms by (intro checkRule_ok stable_conj stable_consulted) (auto simp: stage_def base_def)
  show "stage v a d G h" if "stage v a d' (\<lambda>h. G h \<and> consulted v a d h) h" for d' h
    using that assms(1) by (auto simp: stage_def base_def)
qed

lemma admitted_ok:
  "pipeline_ok cfg self v (admitted cfg (v_params v) a)
     (\<lambda>_ h'. h' = h \<and> (is_remote a \<longrightarrow> \<not> needsPqKeys (v_params v))) h"
  by (auto simp: admitted_def remotePqRefusal_def Let_def split: option.split SignerMethod.split)

definition good_run :: "signer_host \<Rightarrow> bool \<Rightarrow> ValidatedParams \<Rightarrow> AuthenticationRun \<Rightarrow> bool" where
  "good_run cfg self params run \<longleftrightarrow>
     (\<exists>event. authentication_event params = Some event \<and> login_of cfg event (au_auth run)) \<and> au_self run = self
     \<and> au_consent run = None \<and> (self \<longrightarrow> req_protocol (au_auth run) = Nip42)"

definition parsed_rightly :: "signer_host \<Rightarrow> bool \<Rightarrow> ValidatedParams \<Rightarrow> AuthenticationRun option \<Rightarrow> bool" where
  "parsed_rightly cfg self params parsed \<longleftrightarrow>
     (case parsed of None \<Rightarrow> authentication_event params = None | Some run \<Rightarrow> good_run cfg self params run)"

lemma only_requester [only_intros]:
  assumes "\<And>o'. C (RequesterFor request a)" "C (OriginFor request a)"
  shows "only C (resolveRequester cfg request a self)"
proof -
  have "only C (requester_key r)" for r
    by (cases r) (auto simp: requester_key_def split: sum.split)
  then show ?thesis using assms
    by (auto simp: resolveRequester_def ask_requester_def Let_def refuse_def split: option.split intro!: only_intros)
qed

lemma only_validate [only_intros]: "C Now \<Longrightarrow> only C (validateAuthenticationEvent cfg event r)"
  by (auto simp: validateAuthenticationEvent_def split: sum.split option.split intro!: only_intros)

lemma only_parse_run [only_intros]:
  assumes "C (RequesterFor request a)" "C (OriginFor request a)" "C Now" "C Pause" "\<And>au. C (AssertAllowed request a au)"
  shows "only C (parse_run cfg request params a self)"
  using assms by (auto simp: parse_run_def split: option.split intro!: only_intros)

lemma yields_seq: "yields R q \<Longrightarrow> yields R (seqP p q)"
  unfolding seqP_def yields_bind by (rule yields_mono [where R = "\<lambda>_. True"]) auto

lemma yields_validate: "yields (login_of cfg event) (validateAuthenticationEvent cfg event r)"
  by (auto simp: validateAuthenticationEvent_def yields_bind now_ms_def login_of_def split: sum.split option.split)

lemma yields_refuseIf: "yields (\<lambda>_. \<not> b) (refuseIf b e)"
  by (simp add: refuseIf_def)

lemma parse_run_yields: "yields (parsed_rightly cfg self params) (parse_run cfg request params a self)"
proof (cases "authentication_event params")
  case None
  then show ?thesis by (simp add: parse_run_def parsed_rightly_def)
next
  case (Some event)
  have "yields (parsed_rightly cfg self params)
     (seqP (refuseIf (self \<and> req_protocol auth \<noteq> Nip42) e1)
       (seqP p (Ret (Some \<lparr>au_requester = r, au_key = key, au_auth = auth, au_self = self, au_consent = None, au_stored = None\<rparr>))))"
    if "login_of cfg event auth" for auth r key e1 and p :: "unit pipeline"
  proof (cases "self \<and> req_protocol auth \<noteq> Nip42")
    case False
    with that Some show ?thesis
      by (auto simp: parsed_rightly_def good_run_def refuseIf_def intro!: yields_seq)
  qed (simp add: refuseIf_def seqP_def)
  then have "yields (parsed_rightly cfg self params)
     (bindP (validateAuthenticationEvent cfg event r) (\<lambda>auth. seqP (refuseIf (self \<and> req_protocol auth \<noteq> Nip42) e1)
       (seqP (p auth) (Ret (Some \<lparr>au_requester = r, au_key = key, au_auth = auth, au_self = self, au_consent = None,
          au_stored = None\<rparr>)))))" for r key e1 and p :: "auth_request \<Rightarrow> unit pipeline"
    unfolding yields_bind by (rule yields_mono [OF yields_validate])
  then show ?thesis using Some unfolding parse_run_def
    by (simp add: yields_bind [of _ "asyncP _"] split_def)
qed

lemma quiet_plain_stage [simp]: "plain a c \<and> quiet c \<longleftrightarrow> quiet c \<and> plain a c"
  by blast

lemma parse_run_ok:
  assumes "stage v a d G h" "stable G"
  shows "pipeline_ok cfg self' v (asyncP (parse_run cfg request params a self))
     (\<lambda>x h. stage v a d G h \<and> parsed_rightly cfg self params x) h"
  by (rule stage_async [OF ok_yields [OF stage_only [OF _ assms] parse_run_yields] assms(2)])
    (auto intro!: only_intros)

lemma stage_mono: "stage v a d G h \<Longrightarrow> (G h \<Longrightarrow> H h) \<Longrightarrow> stage v a d H h"
  by (simp add: stage_def)

definition with_consent :: "signer_host \<Rightarrow> bool \<Rightarrow> ValidatedParams \<Rightarrow> SafeAccount \<Rightarrow> AuthenticationRun option \<Rightarrow> calls \<Rightarrow> bool" where
  "with_consent cfg self params a authentication h \<longleftrightarrow>
     (case authentication of
        None \<Rightarrow> authentication_event params = None
      | Some run \<Rightarrow>
          (\<exists>event. authentication_event params = Some event \<and> login_of cfg event (au_auth run)
            \<and> (au_consent run \<noteq> None \<longrightarrow>
                 login_of_host cfg self event \<or> login_granted cfg event a h \<or> login_approved cfg event a h)))"

lemma stable_granted: "stable (login_granted cfg event a)"
  unfolding stable_def login_granted_def by (meson list.set_intros(2))

lemma approved_more: "login_approved cfg event a h \<Longrightarrow> login_approved cfg event a (e # h)"
  unfolding login_approved_def by (meson list.set_intros(2))

lemma granted_more: "login_granted cfg event a h \<Longrightarrow> login_granted cfg event a (e # h)"
  unfolding login_granted_def by (meson list.set_intros(2))

lemma with_consent_more: "with_consent cfg self params a authentication h \<Longrightarrow>
    with_consent cfg self params a authentication (e # h)"
  by (auto simp: with_consent_def intro: approved_more granted_more split: option.splits)

lemma stable_with_consent: "stable (with_consent cfg self params a authentication)"
  by (simp add: stable_def with_consent_more)

lemma storedConsent_ok:
  assumes "stage v a d G h" "stable G" "good_run cfg self params r"
  shows "pipeline_ok cfg self' v (storedConsent cfg a r)
     (\<lambda>r' h. stage v a d (\<lambda>h. G h \<and> with_consent cfg self params a (Some r') h) h) h"
proof -
  obtain event where e: "authentication_event params = Some event" "login_of cfg event (au_auth r)"
    and r: "au_self r = self" "au_consent r = None" "self \<longrightarrow> req_protocol (au_auth r) = Nip42"
    using assms(3) by (auto simp: good_run_def)
  let ?c = "GrantDecision (a_id a) (au_key r) (au_auth r)"
  let ?post = "\<lambda>r1 h. stage v a d G h \<and> (\<exists>st. r1 = r\<lparr>au_stored := st\<rparr>
     \<and> (dp_grants (h_deps cfg) \<longrightarrow> st = Some Allow \<longrightarrow> (?c, A_stored (Some Allow)) \<in> set h))"
  have first: "pipeline_ok cfg self' v
     (if dp_grants (h_deps cfg)
      then bindP (ask ?c the_stored) (\<lambda>stored.
             if stored = Some Deny then refuse Permission_denied m else Ret (r\<lparr>au_stored := stored\<rparr>))
      else Ret r) ?post h" for m
  proof (cases "dp_grants (h_deps cfg)")
    case True
    have "pipeline_ok cfg self' v (ask ?c the_stored)
        (\<lambda>st h. st \<noteq> Some Deny \<longrightarrow> stage v a d G h \<and> (?c, A_stored st) \<in> set h) h"
    proof (rule ok_ask)
      show "allowed_call cfg self' v h ?c" using assms(1) by (auto simp: stage_def intro: plain_allowed)
      fix st x assume "the_stored x = Some st"
      then have "x = A_stored st" by (cases x) auto
      then show "st \<noteq> Some Deny \<longrightarrow> stage v a d G ((?c, x) # h) \<and> (?c, A_stored st) \<in> set ((?c, x) # h)"
        using assms(1) stableD [OF assms(2), of h ?c x]
        by (auto simp: stage_def is_prompt_def intro: base_step active_step)
    qed
    then have "pipeline_ok cfg self' v (bindP (ask ?c the_stored) (\<lambda>stored.
        if stored = Some Deny then refuse Permission_denied m else Ret (r\<lparr>au_stored := stored\<rparr>))) ?post h"
      by (rule ok_bindI) auto
    with True show ?thesis by simp
  next
    case False
    then show ?thesis using assms(1) by (auto intro!: exI [of _ "au_stored r"])
  qed
  show ?thesis unfolding storedConsent_def
  proof (rule ok_bindI [OF first])
    fix r1 h' assume "?post r1 h'"
    then obtain st where st: "stage v a d G h'" "r1 = r\<lparr>au_stored := st\<rparr>"
      "dp_grants (h_deps cfg) \<longrightarrow> st = Some Allow \<longrightarrow> (?c, A_stored (Some Allow)) \<in> set h'" by blast
    have g: "login_granted cfg event a h'" if "st = Some Allow" "mayRemember cfg r1"
      using that st(3) e(2) unfolding login_granted_def mayRemember_def by blast
    have s: "login_of_host cfg self event" if "self" using that r(3) e(2) unfolding login_of_host_def by blast
    show "pipeline_ok cfg self' v (Ret (if au_self r1 then r1\<lparr>au_consent := Some BySelf\<rparr>
            else if au_stored r1 = Some Allow \<and> mayRemember cfg r1 then r1\<lparr>au_consent := Some ByGrant\<rparr> else r1))
       (\<lambda>r' h. stage v a d (\<lambda>h. G h \<and> with_consent cfg self params a (Some r') h) h) h'"
      using st(1) e r g s by (auto simp: stage_def with_consent_def st(2))
  qed
qed

subsection \<open>Opening the vault, and building what will be signed\<close>

definition keyring :: "SafeAccount \<Rightarrow> sigcall \<Rightarrow> bool" where
  "keyring a c \<longleftrightarrow> plain a c \<or> c \<in> {WithPrivkey (a_id a), WithMnemonic (a_id a), WithImportedPqKeys (a_id a)}"

lemma keyring_allowed: "stage v a d G h \<Longrightarrow> keyring a c \<Longrightarrow> allowed_call cfg self v h c"
  by (auto simp: keyring_def stage_def intro: plain_allowed)
    (auto simp: allowed_call_def base_def computes_def)

lemma keyring_only:
  assumes "only (\<lambda>c. keyring a c \<and> quiet c) p" "stage v a d G h" "stable G"
  shows "pipeline_ok cfg self v p (\<lambda>_. stage v a d G) h"
proof (rule ok_only [where I = "stage v a d G", OF assms(1)])
  show "stage v a d G h" by (rule assms(2))
  show "allowed_call cfg self v h c" if "keyring a c \<and> quiet c" "stage v a d G h" for h c
    using that by (auto intro: keyring_allowed)
  show "stage v a d G ((c, r) # h)" if "keyring a c \<and> quiet c" "stage v a d G h" for h c r
    using stage_quiet [OF that(2) assms(3)] that(1) by simp
qed

lemma only_openVault [only_intros]:
  "C Now \<Longrightarrow> C IsLocked \<Longrightarrow> C Pause \<Longrightarrow> C (RequestUnlock request a) \<Longrightarrow> only C (openVault cfg request originKey a)"
  by (auto simp: openVault_def intro!: only_intros)

lemma only_withPqKeys [only_intros]:
  assumes "C IsLocked" "C Pause" "C EndScope" "C (HasImportedPqKeys (a_id a))" "C (HasMnemonic (a_id a))"
    "C (WithImportedPqKeys (a_id a))" "C (WithMnemonic (a_id a))" "\<And>ks. C (WithDerivedSecrets ks)"
    "\<And>src ks. only C (fn src ks)"
  shows "only C (withPqKeys cfg a fn)"
  using assms by (auto simp: withPqKeys_def Let_def isLocked_def split: option.split intro!: only_intros)

lemma only_buildAttestation [only_intros]:
  assumes "C IsLocked" "C Pause" "C EndScope" "C Now" "C (HasImportedPqKeys (a_id a))" "C (HasMnemonic (a_id a))"
    "C (WithImportedPqKeys (a_id a))" "C (WithMnemonic (a_id a))" "\<And>ks. C (WithDerivedSecrets ks)"
  shows "only C (buildAttestation cfg a)"
  using assms by (auto simp: buildAttestation_def intro!: only_intros)

lemma keyring_simps [simp]:
  "keyring a Now" "keyring a IsLocked" "keyring a Pause" "keyring a EndScope" "keyring a GetActiveAccount"
  "keyring a YieldToHost" "keyring a (HasImportedPqKeys (a_id a))" "keyring a (HasMnemonic (a_id a))"
  "keyring a (WithImportedPqKeys (a_id a))" "keyring a (WithMnemonic (a_id a))" "keyring a (WithDerivedSecrets ks)"
  "keyring a (RequestUnlock rq a)" "keyring a (WithPrivkey (a_id a))" "keyring a (DerivePublicKey k)"
  by (auto simp: keyring_def)

definition prepared_for :: "ValidatedParams \<Rightarrow> PreparedParams \<Rightarrow> bool" where
  "prepared_for params prepared \<longleftrightarrow>
     (prepared = Given params \<and> params \<noteq> P_signPqAttestation)
     \<or> (params = P_signPqAttestation \<and> (\<exists>event. prepared = Attestation event))"

lemma prepare_ok:
  assumes "stage v a d G h" "stable G"
  shows "pipeline_ok cfg self v (prepare cfg request params originKey a)
     (\<lambda>p h. stage v a d G h \<and> prepared_for params p) h"
proof (cases "params = P_signPqAttestation")
  case True
  have unlock: "pipeline_ok cfg self v (asyncP (openVault cfg request originKey a)) (\<lambda>_. stage v a d G) h"
    by (rule keyring_only [OF _ assms]) (auto intro!: only_intros)
  have still: "pipeline_ok cfg self v (asyncP (assertStillActive a)) (\<lambda>_. stage v a d G) h'" if "stage v a d G h'" for h'
    using that by (intro assertStill_async assms(2)) (simp_all add: stage_def)
  have build: "pipeline_ok cfg self v (asyncP (buildAttestation cfg a)) (\<lambda>_. stage v a d G) h'" if "stage v a d G h'" for h'
    by (rule keyring_only [OF _ that assms(2)]) (auto intro!: only_intros)
  show ?thesis unfolding prepare_def using True
    by (auto simp: prepared_for_def intro!: ok_seqI [OF unlock] ok_seqI [OF still] ok_bindI [OF build])
qed (use assms in \<open>simp add: prepare_def prepared_for_def\<close>)

end
