(* ===== verification/Sign_Runs.thy ===== *)
theory Sign_Runs
  imports Sign_Safety
begin

section \<open>Runs of a request\<close>

text \<open>
  The second half of the pipeline, from the prompt to the answer, and what every run of
  \<open>handle\<close> and \<open>handleSelf\<close> does: the conditions of \<^verbatim>\<open>Sign_Safety\<close> hold at each call, so they hold
  along every history a script can produce.
\<close>

subsection \<open>The prompt\<close>

definition stays_silent :: "ValidatedParams \<Rightarrow> SafeAccount \<Rightarrow> decision \<Rightarrow> AuthenticationRun option \<Rightarrow> bool" where
  "stays_silent params a d authentication \<longleftrightarrow>
     (case authentication of
        Some run \<Rightarrow> au_consent run \<noteq> None
      | None \<Rightarrow> d \<noteq> Ask \<or> is_remote a \<or> params_method params \<notin> set KEY_METHODS)"

lemma only_needsPrompt [only_intros]: "C Now \<Longrightarrow> only C (needsPrompt m remote k a)"
  by (auto simp: needsPrompt_def Let_def split: option.split intro!: only_intros)

lemma needsConsent_ok:
  assumes "stage v a d G h" "stable G"
  shows "pipeline_ok cfg self v (needsConsent request params a d authentication)
     (\<lambda>asks h. stage v a d G h \<and> (\<not> asks \<longrightarrow> stays_silent params a d authentication)) h"
proof (rule ok_yields [OF stage_only [OF _ assms]])
  show "only (\<lambda>c. plain a c \<and> quiet c) (needsConsent request params a d authentication)"
    by (auto simp: needsConsent_def split: option.split intro!: only_intros)
  have "yields (\<lambda>asks. \<not> asks \<longrightarrow> is_remote a \<or> params_method params \<notin> set KEY_METHODS)
      (needsPrompt (params_method params) (is_remote a) k a)" for k
    by (auto simp: needsPrompt_def Let_def key_method_iff split: option.split intro!: yields_mono [OF yields_True])
  then show "yields (\<lambda>asks. \<not> asks \<longrightarrow> stays_silent params a d authentication)
      (needsConsent request params a d authentication)"
    by (auto simp: needsConsent_def stays_silent_def split: option.split elim!: yields_mono)
qed

definition prompted :: "SafeAccount \<Rightarrow> ApprovalContext option \<Rightarrow> ApprovalDecision \<Rightarrow> calls \<Rightarrow> bool" where
  "prompted a ctx outcome h \<longleftrightarrow> (\<exists>shown. (Present shown a ctx, A_approval outcome) \<in> set h)"

lemma stable_prompted: "stable (prompted a ctx outcome)"
  by (auto simp: stable_def prompted_def)

definition shown_rightly :: "PreparedParams \<Rightarrow> calls \<Rightarrow> bool" where
  "shown_rightly prepared h \<longleftrightarrow> (\<forall>event. params_event prepared = Some event \<longrightarrow> event_shown event h)"

lemma stable_shown: "stable (shown_rightly prepared)"
  by (auto simp: stable_def shown_rightly_def event_shown_def)

lemma unprompted_shown: "unprompted h \<Longrightarrow> shown_rightly prepared h"
  by (auto simp: unprompted_def shown_rightly_def event_shown_def)

lemma disclosed_event:
  assumes "r_params (v_request v) = wireParams (v_params v)" "prepared_for (v_params v) prepared"
    "params_event prepared = Some event"
  shows "r_params (disclosedRequest (v_request v) prepared) = EventParams event"
proof (cases prepared)
  case (Given p)
  with assms(2) have p: "p = v_params v" by (auto simp: prepared_for_def)
  then have "v_params v = P_signEvent event" using assms(3) Given by (cases "v_params v") auto
  with assms(1) Given show ?thesis by simp
qed (use assms(3) in simp)

lemma present_ok:
  assumes "stage v a d (\<lambda>h. unprompted h \<and> F h) h" "stable F" "\<And>e h. F h \<Longrightarrow> F (e # h)"
    and "r_params (v_request v) = wireParams (v_params v)" "prepared_for (v_params v) prepared"
  shows "pipeline_ok cfg self v
     (asyncP (trackP ident ApprovalEntry k i (Present (disclosedRequest (v_request v) prepared) a ctx) the_approval))
     (\<lambda>outcome. stage v a d (\<lambda>h. shown_rightly prepared h \<and> prompted a ctx outcome h \<and> F h)) h"
proof (rule ok_async)
  let ?c = "Present (disclosedRequest (v_request v) prepared) a ctx"
  show "pipeline_ok cfg self v (trackP ident ApprovalEntry k i ?c the_approval)
      (\<lambda>outcome. stage v a d (\<lambda>h. shown_rightly prepared h \<and> prompted a ctx outcome h \<and> F h)) h"
  proof (rule ok_track)
    have now: "stage v a d (\<lambda>h. unprompted h \<and> F h) ((Now, r) # h)" for r
      by (rule stage_quiet [OF assms(1) stable_conj [OF stable_unprompted assms(2)]]) simp
    have "base v a d ((Now, r) # h)" for r using now [of r] by (simp add: stage_def)
    then show "allowed_call cfg self v ((Now, r) # h) ?c" for r
      by (intro plain_allowed) simp_all
    fix outcome n r assume "the_approval r = Some outcome"
    then have r: "r = A_approval outcome" by (cases r) auto
    have "shown_rightly prepared ((?c, r) # (Now, n) # h)"
      using disclosed_event [OF assms(4,5)] now [of n]
      by (auto simp: shown_rightly_def event_shown_def is_prompt_def stage_def unprompted_def)
    moreover have "prompted a ctx outcome ((?c, r) # (Now, n) # h)" by (auto simp: prompted_def r)
    ultimately show "stage v a d (\<lambda>h. shown_rightly prepared h \<and> prompted a ctx outcome h \<and> F h) ((?c, r) # (Now, n) # h)"
      using now [of n] assms(3) by (auto simp: stage_def r intro: base_step active_step)
  qed simp
  show "stage v a d (\<lambda>h. shown_rightly prepared h \<and> prompted a ctx outcome h \<and> F h) ((Pause, r) # h)"
    if "stage v a d (\<lambda>h. shown_rightly prepared h \<and> prompted a ctx outcome h \<and> F h) h" for outcome h r
    by (rule stage_pause [OF stable_conj [OF stable_shown stable_conj [OF stable_prompted assms(2)]] that])
qed simp

lemma unbounded_rule: "authentication_event (v_params v) \<noteq> None \<Longrightarrow> wouldBeUnboundedCredential (rule_of v) Allow"
  by (cases "v_params v") (auto simp: authentication_event_def wouldBeUnboundedCredential_def rule_of_def
      permissionRule_def split: if_splits)

lemma remember_ok:
  assumes "stage v a d G h" "stable G" "prompted a ctx outcome h" "d_remember outcome" "dd \<in> {Allow, Deny}"
  shows "pipeline_ok cfg self v (asyncP (remember (origin_of v) (rule_of v) outcome dd a)) (\<lambda>_. stage v a d G) h"
proof (rule ok_async)
  let ?c = "SavePermission (origin_of v) (as_method (rule_of v)) (remembered_kind (rule_of v) outcome) dd (a_id a)"
  have asked: "asked_to_remember h" using assms(3,4) by (auto simp: prompted_def asked_to_remember_def)
  have login: "authentication_event (v_params v) = None" if "\<not> wouldBeUnboundedCredential (rule_of v) Allow"
    using unbounded_rule [of v] that by blast
  have "allowed_call cfg self v h ?c" if "\<not> wouldBeUnboundedCredential (rule_of v) dd"
    using assms(1,5) asked that login
    by (auto simp: allowed_call_def stage_def base_def remembered_kind_def computes_def)
  then show "pipeline_ok cfg self v (remember (origin_of v) (rule_of v) outcome dd a) (\<lambda>_. stage v a d G) h"
    unfolding remember_def using assms(1,2) by (auto intro!: ok_whenP ok_ask stage_quiet)
qed (auto intro: stage_pause assms(2))

lemma approved_ok:
  assumes "stage v a d G h" "stable G" "prompted a ctx outcome h"
  shows "pipeline_ok cfg self v (approved (origin_of v) (rule_of v) outcome a m) (\<lambda>_. stage v a d G) h"
proof -
  let ?G = "\<lambda>h. G h \<and> prompted a ctx outcome h"
  have s: "stable ?G" by (rule stable_conj [OF assms(2) stable_prompted])
  have still: "pipeline_ok cfg self v (asyncP (assertStillActive a)) (\<lambda>_. stage v a d ?G) h"
    using assms by (intro assertStill_async s) (simp_all add: stage_def)
  have keep: "pipeline_ok cfg self v (whenP (d_remember outcome) (asyncP (remember (origin_of v) (rule_of v) outcome Allow a)))
      (\<lambda>_. stage v a d ?G) h'" if "stage v a d ?G h'" for h'
    using that by (auto intro!: ok_whenP remember_ok s simp: stage_def)
  show ?thesis unfolding approved_def
  proof (rule ok_seqI [OF still], rule ok_seqI [OF keep], assumption)
    fix h' assume g: "stage v a d ?G h'"
    then show "pipeline_ok cfg self v (whenP (m = GetPublicKey) (bindP now_ms (\<lambda>n. Put (f n) (Ret ())))) (\<lambda>_. stage v a d G) h'" for f
      using stage_quiet [OF g s, of Now]
      by (auto intro!: ok_whenP simp: ok_bind now_ms_def stage_def)
  qed
qed

lemma storeGrant_ok:
  assumes "stage v a d G h" "stable G"
  shows "pipeline_ok cfg self v (saveAuthenticationGrant cfg r scope a dd) (\<lambda>_. stage v a d G) h"
proof -
  have body: "pipeline_ok cfg self v
     (bindP (ask (GrantSave (a_id a) (au_key r) (au_auth r) scope dd) f) (\<lambda>checks.
        if checks then seqP (asyncP (assertStillActive a)) (ask GrantCommit the_unit) else Ret ())) (\<lambda>_. stage v a d G) h" for f
  proof (rule ok_bindI)
    show "pipeline_ok cfg self v (ask (GrantSave (a_id a) (au_key r) (au_auth r) scope dd) f) (\<lambda>_. stage v a d G) h"
      using assms by (auto intro!: ok_ask stage_quiet intro: stage_plain)
    fix checks h' assume g: "stage v a d G h'"
    have "pipeline_ok cfg self v (asyncP (assertStillActive a)) (\<lambda>_. stage v a d G) h'"
      using g by (intro assertStill_async assms(2)) (simp_all add: stage_def)
    then show "pipeline_ok cfg self v (if checks then seqP (asyncP (assertStillActive a)) (ask GrantCommit the_unit) else Ret ())
        (\<lambda>_. stage v a d G) h'"
      using g by (auto intro!: ok_seqI ok_ask stage_quiet assms(2) intro: stage_plain)
  qed
  show ?thesis
  proof (cases "dp_grants (h_deps cfg)")
    case True
    then show ?thesis unfolding saveAuthenticationGrant_def
      by (auto intro!: ok_catchI [OF body, where C = harmless] harmless_allowed
          simp: rethrows_def refuse_def split: failure.split)
  qed (simp add: saveAuthenticationGrant_def)
qed

lemma rememberDeny_ok:
  assumes "stage v a d G h" "stable G"
  shows "pipeline_ok cfg self v (asyncP (rememberAuthenticationDeny cfg r a)) (\<lambda>_. stage v a d G) h"
proof -
  have "pipeline_ok cfg self v (asyncP (saveAuthenticationGrant cfg r Site a Deny)) (\<lambda>_. stage v a d G) h"
    by (rule ok_async [OF storeGrant_ok [OF assms]]) (auto intro: stage_pause assms(2))
  then have "pipeline_ok cfg self v (rememberAuthenticationDeny cfg r a) (\<lambda>_. stage v a d G) h"
    unfolding rememberAuthenticationDeny_def
    by (rule ok_catchI [where C = harmless])
      (auto simp: rethrows_def refuse_def harmless_allowed split: failure.split)
  then show ?thesis by (rule ok_async) (auto intro: stage_pause assms(2))
qed

lemma rememberRejection_ok:
  assumes "stage v a d G h" "stable G" "prompted a ctx outcome h"
  shows "pipeline_ok cfg self v (rememberRejection cfg (origin_of v) (rule_of v) outcome a authentication) (\<lambda>_ _. True) h"
  unfolding rememberRejection_def
  by (rule ok_whenP)
    (auto split: option.split intro!: ok_mono [OF rememberDeny_ok [OF assms(1,2)]] ok_mono [OF remember_ok [OF assms]])

text \<open>Why the pipeline may go on after this point.\<close>

definition consenting :: "signer_host \<Rightarrow> bool \<Rightarrow> ValidatedRequest \<Rightarrow> PreparedParams \<Rightarrow> SafeAccount
     \<Rightarrow> AuthenticationRun option \<Rightarrow> calls \<Rightarrow> bool" where
  "consenting cfg self v prepared a authentication h \<longleftrightarrow>
     shown_rightly prepared h \<and> with_consent cfg self (v_params v) a authentication h
     \<and> (params_method (v_params v) \<in> set KEY_METHODS \<longrightarrow> authorised cfg self v a h)"

lemma authorised_more: "authorised cfg self v a h \<Longrightarrow> authorised cfg self v a (e # h)"
  unfolding authorised_def
  by (auto split: option.splits intro: granted_more approved_more simp: consulted_def said_yes_def)

lemma stable_consenting: "stable (consenting cfg self v prepared a authentication)"
  unfolding stable_def consenting_def
  by (auto intro: stableD [OF stable_shown] with_consent_more authorised_more)

lemma silent_consent:
  assumes "stays_silent (v_params v) a d authentication" "base v a d h" "unprompted h"
    "with_consent cfg self (v_params v) a authentication h"
  shows "consenting cfg self v prepared a authentication h"
  using assms unprompted_shown [OF assms(3)]
  by (auto simp: consenting_def stays_silent_def with_consent_def authorised_def base_def split: option.splits)

lemma scope_offered_in:
  assumes "scope_offered s (acceptedScopes cfg r)"
  obtains x where "s = Some x" "x \<in> set (acceptedScopes cfg r)"
  using assms by (cases s) (auto simp: scope_offered_def acceptedScopes_def split: if_splits)

lemma askUser_ok:
  assumes "stage v a d (\<lambda>h. unprompted h \<and> with_consent cfg self (v_params v) a authentication h) h"
    and "r_params (v_request v) = wireParams (v_params v)" "prepared_for (v_params v) prepared"
  shows "pipeline_ok cfg self v (askUser cfg ctx (v_request v) (v_params v) prepared a authentication)
     (\<lambda>auth' h. stage v a d (consenting cfg self v prepared a auth') h) h"
proof -
  let ?scopes = "case authentication of None \<Rightarrow> [] | Some run \<Rightarrow> acceptedScopes cfg run"
  let ?ctx = "promptContext ?scopes authentication"
  let ?F = "with_consent cfg self (v_params v) a authentication"
  let ?G = "\<lambda>outcome h. shown_rightly prepared h \<and> prompted a ?ctx outcome h \<and> ?F h"
  have s: "stable (?G outcome)" for outcome
    by (intro stable_conj stable_shown stable_prompted stable_with_consent)
  note shown = present_ok [where ident = "r_id (v_request v)" and ctx = ?ctx,
      OF assms(1) stable_with_consent with_consent_more assms(2,3)]
  show ?thesis
    unfolding askUser_def Let_def origin_of_def [symmetric] rule_of_def [symmetric]
  proof (rule ok_bindI [OF ok_inContext [OF shown]])
    fix outcome h' assume g: "stage v a d (?G outcome) h'"
    then have p: "prompted a ?ctx outcome h'" by (simp add: stage_def)
    have approve: "pipeline_ok cfg self v (inContext c (approved (origin_of v) (rule_of v) outcome a m)) (\<lambda>_. stage v a d (?G outcome)) h'" for c m
      by (rule ok_inContext [OF approved_ok [OF g s p]])
    have refuse: "pipeline_ok cfg self v (inContext ctx (seqP
        (rememberRejection cfg (origin_of v) (rule_of v) outcome a authentication) (Throw e))) R h'" for e R
      by (intro ok_inContext ok_seqI [OF rememberRejection_ok [OF g s p]]) simp
    show "pipeline_ok cfg self v
       (if \<not> d_allow outcome
          then inContext ctx (seqP (rememberRejection cfg (origin_of v) (rule_of v) outcome a authentication)
                 (Throw (rejection outcome)))
          else (case authentication of
             None \<Rightarrow>
               seqP (inContext ctx (approved (origin_of v) (rule_of v) outcome a (params_method (v_params v)))) (Ret None)
           | Some run \<Rightarrow>
               if \<not> scope_offered (d_scope outcome) ?scopes
               then inContext ctx (refuse Rejected
                      (if 1 < length ?scopes then ''Explicit authentication approval at an offered scope required''
                       else ''Explicit one-time authentication approval required''))
               else (seqP (inContext (ctx\<lparr>x_authentication := Some (run\<lparr>au_consent := map_option AtScope (d_scope outcome)\<rparr>)\<rparr>)
                               (approved (origin_of v) (rule_of v) outcome a (params_method (v_params v))))
                          (Ret (Some (run\<lparr>au_consent := map_option AtScope (d_scope outcome)\<rparr>))))))
       (\<lambda>auth' h. stage v a d (consenting cfg self v prepared a auth') h) h'"
    proof (cases "d_allow outcome")
      case False
      then show ?thesis using refuse by simp
    next
      case True
      show ?thesis
      proof (cases authentication)
        case None
        have "consenting cfg self v prepared a None h2" if "?G outcome h2" for h2
          using that True by (auto simp: consenting_def None with_consent_def authorised_def prompted_def promptContext_def said_yes_def)
        then show ?thesis using True None by (auto intro!: ok_seqI [OF approve] simp: stage_def)
      next
        case (Some run)
        show ?thesis
        proof (cases "scope_offered (d_scope outcome) (acceptedScopes cfg run)")
          case False
          then show ?thesis using True Some by (auto intro!: ok_inContext)
        next
          case offered: True
          then obtain x where x: "d_scope outcome = Some x" "x \<in> set (acceptedScopes cfg run)" by (rule scope_offered_in)
          let ?run = "run\<lparr>au_consent := map_option AtScope (d_scope outcome)\<rparr>"
          have "consenting cfg self v prepared a (Some ?run) h2" if g2: "?G outcome h2" for h2
          proof -
            obtain event where e: "authentication_event (v_params v) = Some event" "login_of cfg event (au_auth run)"
              using g2 by (auto simp: with_consent_def Some)
            have "login_approved cfg event a h2"
              using g2 True x e(2) by (fastforce simp: login_approved_def prompted_def promptContext_def Some)
            with e g2 show ?thesis by (auto simp: consenting_def with_consent_def authorised_def)
          qed
          then show ?thesis using True Some offered by (auto intro!: ok_seqI [OF approve] simp: stage_def)
        qed
      qed
    qed
  qed
qed

subsection \<open>Checking again\<close>

lemma stillWanted_ok:
  assumes "base v a d h" "G h" "stable G"
  shows "pipeline_ok cfg self v (stillWanted a k n) (\<lambda>x h. x = None \<longrightarrow> stage v a d G h) h"
  unfolding stillWanted_def
proof (rule ok_bindI)
  show "pipeline_ok cfg self v (ask GetActiveAccount the_account)
      (\<lambda>x h. base v a d h \<and> G h \<and> last_account h = x) h"
  proof (rule ok_ask)
    fix x r assume "the_account r = Some x"
    then have "r = A_account x" by (cases r) auto
    then show "base v a d ((GetActiveAccount, r) # h) \<and> G ((GetActiveAccount, r) # h) \<and> last_account ((GetActiveAccount, r) # h) = x"
      using stable_active_free [OF assms(3), of v a d h r] assms(1,2) by simp
  qed simp
qed (auto simp: stage_def active_def split: option.splits)

lemma stillWanted_async:
  assumes "base v a d h" "G h" "stable G"
  shows "pipeline_ok cfg self v (asyncP (stillWanted a k n)) (\<lambda>x h. x = None \<longrightarrow> stage v a d G h) h"
  by (rule ok_async [OF stillWanted_ok [OF assms]]) (auto intro: stage_pause assms(3))

lemma regrant_ok:
  assumes "stage v a d G h" "stable G"
  shows "pipeline_ok cfg self v
     (if granting
      then bindP (ask (GrantDecision (a_id a) k au) the_stored) (\<lambda>stored.
           seqP (refuseIf (stored = Some Deny) e1) (refuseIf (b stored) e2))
      else Ret ()) (\<lambda>_. stage v a d G) h"
proof -
  let ?c = "GrantDecision (a_id a) k au"
  have "pipeline_ok cfg self v (ask ?c the_stored) (\<lambda>st h. st \<noteq> Some Deny \<longrightarrow> stage v a d G h) h"
  proof (rule ok_ask)
    show "allowed_call cfg self v h ?c" using assms(1) by (rule stage_plain) simp
    fix st x assume "the_stored x = Some st"
    then have "x = A_stored st" by (cases x) auto
    then show "st \<noteq> Some Deny \<longrightarrow> stage v a d G ((?c, x) # h)"
      using assms(1) stableD [OF assms(2), of h ?c x]
      by (auto simp: stage_def is_prompt_def intro: base_step active_step)
  qed
  then have "pipeline_ok cfg self v (bindP (ask ?c the_stored) (\<lambda>stored.
      seqP (refuseIf (stored = Some Deny) e1) (refuseIf (b stored) e2))) (\<lambda>_. stage v a d G) h"
    by (rule ok_bindI) (auto simp: seqP_def ok_bind)
  then show ?thesis using assms(1) by simp
qed

lemma revalidate_ok:
  assumes "stage v a d G h" "stable G"
  shows "pipeline_ok cfg self v
     (revalidateAuthentication cfg (v_request v) (v_params v) a prior n) (\<lambda>_. stage v a d G) h"
proof (cases prior)
  case None
  then show ?thesis using assms by (simp add: revalidateAuthentication_def)
next
  case (Some run)
  have shut: "pipeline_ok cfg self v (Get (\<lambda>s. refuseIf (b s) e)) (\<lambda>_. stage v a d G) h'"
    if "stage v a d G h'" for h' b e
    using that by simp
  have parse: "pipeline_ok cfg self v (asyncP (parse_run cfg (v_request v) (v_params v) a sf)) (\<lambda>_. stage v a d G) h'"
    if "stage v a d G h'" for h' sf
    by (rule ok_mono [OF parse_run_ok [OF that assms(2)]]) simp
  have wanted: "pipeline_ok cfg self v (asyncP (stillWanted a k n)) (\<lambda>x h. x = None \<longrightarrow> stage v a d G h) h'"
    if "stage v a d G h'" for h' k
    using that by (intro stillWanted_async assms(2)) (simp_all add: stage_def)
  have locked: "pipeline_ok cfg self v isLocked (\<lambda>_. stage v a d G) h'" if "stage v a d G h'" for h'
    by (rule ok_locked) (auto intro: stage_quiet that assms(2))
  have valid: "pipeline_ok cfg self v (validateAuthenticationEvent cfg event r) (\<lambda>_. stage v a d G) h'"
    if "stage v a d G h'" for h' event r
    by (rule stage_only [OF _ that assms(2)]) (auto intro!: only_intros)
  show ?thesis
    unfolding revalidateAuthentication_def Let_def Some option.case origin_of_def [symmetric] rule_of_def [symmetric]
    apply (rule ok_seqI [OF shut], rule assms(1))
    apply (rule ok_bindI [OF parse], assumption)
    apply (rule ok_seqI [where R = "\<lambda>_. stage v a d G"], simp)
    apply (rule ok_bindI [OF recheckRule_ok [OF _ assms(2)]], assumption)
    apply (rule ok_bindI [OF wanted], assumption)
    apply (rule ok_seqI [where R = "\<lambda>_. stage v a d G"], simp split: option.split)
    apply (rule ok_seqI [OF shut], assumption)
    apply (rule ok_bindI [OF locked], assumption)
    apply (rule ok_seqI [where R = "\<lambda>_. stage v a d G"], simp)
    apply (rule ok_seqI [OF regrant_ok [OF _ assms(2)]], assumption)
    apply (auto split: ValidatedParams.split intro!: ok_bindI [OF valid])
    done
qed

lemma revalidate_async:
  assumes "stage v a d G h" "stable G"
  shows "pipeline_ok cfg self v
     (asyncP (revalidateAuthentication cfg (v_request v) (v_params v) a prior n)) (\<lambda>_. stage v a d G) h"
  by (rule ok_async [OF revalidate_ok [OF assms]]) (auto intro: stage_pause assms(2))

lemma recheck_ok:
  assumes "base v a d h" "G h" "stable G"
  shows "pipeline_ok cfg self v (seqP (asyncP (assertStillActive a))
     (asyncP (revalidateAuthentication cfg (v_request v) (v_params v) a prior n))) (\<lambda>_. stage v a d G) h"
  by (rule ok_seqI [OF assertStill_async [OF assms] revalidate_async [OF _ assms(3)]])

subsection \<open>Computing the answer\<close>

lemma withPqKeys_ok:
  assumes "stage v a d G h" "stable G"
    and body: "\<And>src ks h. stage v a d G h \<Longrightarrow> pipeline_ok cfg self v (fn src ks) (\<lambda>_. stage v a d G) h"
  shows "pipeline_ok cfg self v (withPqKeys cfg a fn) (\<lambda>_. stage v a d G) h"
proof -
  have allowed: "allowed_call cfg self v h' c" if "stage v a d G h'" "keyring a c" for h' c
    using that by (rule keyring_allowed)
  have more: "stage v a d G ((c, r) # h')" if "stage v a d G h'" "quiet c" for h' c r
    using that assms(2) by (intro stage_quiet)
  have scope: "pipeline_ok cfg self v (scopedP c f (\<lambda>k. body' k)) (\<lambda>_. stage v a d G) h'"
    if "stage v a d G h'" "keyring a c" "quiet c"
      "\<And>k h. stage v a d G h \<Longrightarrow> pipeline_ok cfg self v (body' k) (\<lambda>_. stage v a d G) h" for h' c f body'
    using that by (intro ok_scoped) (auto intro: allowed more)
  have derived: "pipeline_ok cfg self v (asyncP (scopedP (WithDerivedSecrets ks) the_unit (\<lambda>_. fn DerivedKeys ks)))
      (\<lambda>_. stage v a d G) h'" if "stage v a d G h'" for h' ks
    by (rule ok_async [OF scope]) (auto intro: that body more)
  show ?thesis unfolding withPqKeys_def
    using assms(1)
    by (auto simp: Let_def split: option.split
        intro!: ok_bindI [OF ok_locked [where R = "\<lambda>_. stage v a d G"]] scope derived body allowed more)
qed

definition signing :: "signer_host \<Rightarrow> bool \<Rightarrow> ValidatedRequest \<Rightarrow> PreparedParams \<Rightarrow> SafeAccount
     \<Rightarrow> AuthenticationRun option \<Rightarrow> string \<Rightarrow> calls \<Rightarrow> bool" where
  "signing cfg self v prepared a authentication key h \<longleftrightarrow>
     consenting cfg self v prepared a authentication h \<and> key_of_account a key h"

lemma stable_signing: "stable (signing cfg self v prepared a authentication key)"
  unfolding signing_def
  by (intro stable_conj stable_consenting) (auto simp: stable_def key_of_account_def)

lemma compute_allowed:
  assumes "stage v a d (signing cfg self v prepared a authentication key) h" "key_used c = Some key"
    and "as_requested v h c" "params_method (v_params v) \<in> set KEY_METHODS"
  shows "allowed_call cfg self v h c"
proof -
  have "for_account a c \<and> stores_rightly v h c \<and> \<not> opens_keys c" using assms(2) by (cases c) auto
  then show ?thesis using assms
    by (auto simp: allowed_call_def stage_def base_def signing_def consenting_def)
qed

lemma compute_ask:
  assumes "stage v a d (signing cfg self v prepared a authentication key) h" "key_used c = Some key"
    and "as_requested v h c" "params_method (v_params v) \<in> set KEY_METHODS"
  shows "pipeline_ok cfg self v (ask c f) (\<lambda>_. stage v a d (signing cfg self v prepared a authentication key)) h"
proof (rule ok_ask)
  show "allowed_call cfg self v h c" by (rule compute_allowed [OF assms])
  have "quiet c" using assms(2) by (cases c) auto
  then show "stage v a d (signing cfg self v prepared a authentication key) ((c, r) # h)" for r
    by (rule stage_quiet [OF assms(1) stable_signing])
qed

lemma sign_event_ok:
  assumes "stage v a d (signing cfg self v prepared a authentication key) h" "params_event prepared = Some event"
    and "prepared_for (v_params v) prepared"
  shows "pipeline_ok cfg self v (sign_event key event) (\<lambda>_. stage v a d (signing cfg self v prepared a authentication key)) h"
proof -
  have req: "as_requested v h' (SignTemplate key (final_template event n)) \<and> params_method (v_params v) \<in> set KEY_METHODS"
    if "stage v a d (signing cfg self v prepared a authentication key) h'" for h' n
  proof -
    have "event_shown event h'" using that assms(2) by (simp add: stage_def signing_def consenting_def shown_rightly_def)
    moreover have "v_params v = P_signEvent event \<or> v_params v = P_signPqAttestation"
      using assms(2,3) by (cases prepared; cases "v_params v") (auto simp: prepared_for_def)
    moreover have "same_event (final_template event n) event" by (simp add: same_event_def final_template_def)
    ultimately show ?thesis by (auto simp: key_method_iff)
  qed
  have signs: "pipeline_ok cfg self v (ask (SignTemplate key (final_template event n)) the_value)
      (\<lambda>_. stage v a d (signing cfg self v prepared a authentication key)) h'"
    if "stage v a d (signing cfg self v prepared a authentication key) h'" for h' n
    using req [OF that, of n] by (intro compute_ask that) auto
  show ?thesis
  proof (cases "t_created_at event")
    case None
    have "pipeline_ok cfg self v now_ms (\<lambda>_. stage v a d (signing cfg self v prepared a authentication key)) h"
      by (rule ok_now) (auto intro: stage_quiet [OF assms(1) stable_signing])
    then show ?thesis unfolding sign_event_def using None by (auto intro: ok_bindI signs)
  qed (simp add: sign_event_def signs assms(1))
qed

lemma execute_ok:
  assumes "stage v a d (signing cfg self v prepared a authentication key) h" "prepared_for (v_params v) prepared"
  shows "pipeline_ok cfg self v (execute key prepared) (\<lambda>_. stage v a d (signing cfg self v prepared a authentication key)) h"
proof (cases prepared)
  case (Attestation event)
  then show ?thesis using sign_event_ok [OF assms(1) _ assms(2), of event] by (simp add: execute_def)
next
  case (Given p)
  then have p: "v_params v = p" using assms(2) by (auto simp: prepared_for_def)
  show ?thesis
    using sign_event_ok [OF assms(1) _ assms(2)] p assms(1)
    by (cases p) (auto simp: execute_def Given key_method_iff intro!: compute_ask)
qed

lemma executePq_ok:
  assumes "stage v a d (signing cfg self v prepared a authentication key) h" "prepared_for (v_params v) prepared"
  shows "pipeline_ok cfg self v (executePq prepared key keys)
     (\<lambda>_. stage v a d (signing cfg self v prepared a authentication key)) h"
proof (cases prepared)
  case (Given p)
  then have p: "v_params v = p" using assms(2) by (auto simp: prepared_for_def)
  show ?thesis
    using p assms(1)
    by (cases p) (auto simp: executePq_def Given key_method_iff split: encrypt_scheme.split decrypt_scheme.split
        intro!: compute_ask)
qed (simp add: executePq_def)

lemma signLocally_ok:
  assumes "stage v a d (consenting cfg self v prepared a authentication) h" "prepared_for (v_params v) prepared"
  shows "pipeline_ok cfg self v (signLocally cfg a prepared)
     (\<lambda>_. stage v a d (consenting cfg self v prepared a authentication)) h"
proof -
  let ?C = "consenting cfg self v prepared a authentication"
  let ?S = "signing cfg self v prepared a authentication"
  have async: "pipeline_ok cfg self v (asyncP p) (\<lambda>_. stage v a d (?S key)) h'"
    if "pipeline_ok cfg self v p (\<lambda>_. stage v a d (?S key)) h'" for p :: "signer_value pipeline" and key h'
    by (rule ok_async [OF that]) (auto intro: stage_pause stable_signing)
  have run: "pipeline_ok cfg self v (catchP
      (if \<not> prepared_needs_pq prepared then asyncP (execute key prepared)
       else asyncP (withPqKeys cfg a (\<lambda>_ keys. asyncP (executePq prepared key keys)))) tagged) (\<lambda>_. stage v a d ?C) h'"
    if "stage v a d (?S key) h'" for key h'
  proof (rule ok_mono)
    show "pipeline_ok cfg self v (catchP
      (if \<not> prepared_needs_pq prepared then asyncP (execute key prepared)
       else asyncP (withPqKeys cfg a (\<lambda>_ keys. asyncP (executePq prepared key keys)))) tagged) (\<lambda>_. stage v a d (?S key)) h'"
      by (rule ok_catchI [where C = harmless])
        (auto intro!: async execute_ok executePq_ok withPqKeys_ok that assms(2) stable_signing rethrows_tagged harmless_allowed)
  qed (auto simp: stage_def signing_def)
  have opened: "pipeline_ok cfg self v (scopedP (WithPrivkey (a_id a)) the_text (\<lambda>key.
       bindP (ask (DerivePublicKey key) the_text) (\<lambda>derived.
       seqP (refuseIf (derived \<noteq> a_pubkey a) e)
         (catchP
            (if \<not> prepared_needs_pq prepared then asyncP (execute key prepared)
             else asyncP (withPqKeys cfg a (\<lambda>_ keys. asyncP (executePq prepared key keys))))
            tagged)))) (\<lambda>_. stage v a d ?C) h" for e
  proof (rule ok_scoped)
    show "allowed_call cfg self v h (WithPrivkey (a_id a))" using assms(1) by (rule keyring_allowed) simp
    show "allowed_call cfg self v h' EndScope" if "stage v a d ?C h'" for h'
      using that by (rule keyring_allowed) simp
    show "stage v a d ?C ((EndScope, r) # h')" if "stage v a d ?C h'" for h' r
      using that stable_consenting by (rule stage_quiet) simp
    fix key r assume "the_text r = Some key"
    then have r: "r = A_text key" by (cases r) auto
    let ?h = "(WithPrivkey (a_id a), r) # h"
    have g: "stage v a d ?C ?h" by (rule stage_quiet [OF assms(1) stable_consenting]) simp
    have derive: "pipeline_ok cfg self v (ask (DerivePublicKey key) the_text)
        (\<lambda>derived h. derived = a_pubkey a \<longrightarrow> stage v a d (?S key) h) ?h"
    proof (rule ok_ask)
      show "allowed_call cfg self v ?h (DerivePublicKey key)" using g by (rule stage_plain) simp
      fix derived x assume "the_text x = Some derived"
      then have "x = A_text derived" by (cases x) auto
      then show "derived = a_pubkey a \<longrightarrow> stage v a d (?S key) ((DerivePublicKey key, x) # ?h)"
        using stage_quiet [OF g stable_consenting, of "DerivePublicKey key" x]
        by (auto simp: stage_def signing_def key_of_account_def r)
    qed
    show "pipeline_ok cfg self v (bindP (ask (DerivePublicKey key) the_text) (\<lambda>derived.
       seqP (refuseIf (derived \<noteq> a_pubkey a) e)
         (catchP
            (if \<not> prepared_needs_pq prepared then asyncP (execute key prepared)
             else asyncP (withPqKeys cfg a (\<lambda>_ keys. asyncP (executePq prepared key keys))))
            tagged))) (\<lambda>_. stage v a d ?C) ?h"
      by (rule ok_bindI [OF derive], rule ok_seqI [where R = "\<lambda>_. stage v a d (?S key)"], simp, rule run)
  qed
  show ?thesis unfolding signLocally_def
    by (rule ok_catchI [OF opened rethrows_from_vault]) (rule harmless_allowed)
qed

lemma remote_ok:
  assumes "stage v a d (consenting cfg self v prepared a authentication) h"
    and "\<not> needsPqKeys (v_params v)" "params_method (v_params v) \<in> set KEY_METHODS"
  shows "pipeline_ok cfg self v
     (asyncP (trackP ident RemoteEntry k i (RemoteExecute a (v_request v) (v_params v)) f))
     (\<lambda>_. stage v a d (consenting cfg self v prepared a authentication)) h"
proof (rule ok_async)
  let ?C = "consenting cfg self v prepared a authentication"
  let ?c = "RemoteExecute a (v_request v) (v_params v)"
  have more: "stage v a d ?C ((c, r) # h')" if "stage v a d ?C h'" "quiet c" for c r h'
    using that by (intro stage_quiet stable_consenting)
  have now: "stage v a d ?C ((Now, r) # h)" for r by (rule more [OF assms(1)]) simp
  show "pipeline_ok cfg self v (trackP ident RemoteEntry k i ?c f) (\<lambda>_. stage v a d ?C) h"
  proof (rule ok_track)
    show "allowed_call cfg self v ((Now, r) # h) ?c" for r
      using now [of r] assms(2,3) by (auto simp: allowed_call_def stage_def base_def consenting_def)
    show "stage v a d ?C ((?c, r) # (Now, n) # h)" for n r by (rule more [OF now]) simp
  qed simp
  show "stage v a d ?C ((Pause, r) # h')" if "stage v a d ?C h'" for h' r by (rule more [OF that]) simp
qed simp

lemma executeFor_ok:
  assumes "stage v a d (consenting cfg self v prepared a authentication) h" "prepared_for (v_params v) prepared"
    and "is_remote a \<longrightarrow> \<not> needsPqKeys (v_params v)"
  shows "pipeline_ok cfg self v (executeFor cfg a (is_remote a) k (v_request v) (v_params v) prepared)
     (\<lambda>_. stage v a d (consenting cfg self v prepared a authentication)) h"
proof -
  let ?C = "consenting cfg self v prepared a authentication"
  have relays: "pipeline_ok cfg self v (ask (FetchRelays a) f) (\<lambda>_. stage v a d ?C) h"
    for f :: "answer \<Rightarrow> signer_value option"
    by (rule ok_ask) (auto intro: stage_plain [OF assms(1)] stage_quiet [OF assms(1) stable_consenting])
  have locally: "pipeline_ok cfg self v (asyncP (signLocally cfg a prepared)) (\<lambda>_. stage v a d ?C) h"
    by (rule ok_async [OF signLocally_ok [OF assms(1,2)]]) (auto intro: stage_pause stable_consenting)
  have remote: "pipeline_ok cfg self v (bindP (asyncP (trackP ident RemoteEntry k' i
        (RemoteExecute a (v_request v) (v_params v)) the_js)) (\<lambda>answer.
      case v_params v of
        P_signEvent event \<Rightarrow>
          (case verifyRemoteSignedEvent (dp_verifyEvent (h_deps cfg)) answer event (a_pubkey a) of
             Inl e \<Rightarrow> Throw e | Inr verified \<Rightarrow> Ret (V_event verified))
      | _ \<Rightarrow> Ret (V_js answer))) (\<lambda>_. stage v a d ?C) h"
    if "is_remote a" "params_method (v_params v) \<in> set KEY_METHODS" for ident k' i
    using that assms(3)
    by (intro ok_bindI [OF remote_ok [OF assms(1)]]) (auto split: ValidatedParams.split sum.split)
  show ?thesis
    using remote locally relays assms(1)
    by (cases "v_params v") (simp_all add: executeFor_def key_method_iff)
qed

subsection \<open>Whole runs\<close>

lemma finishRun_ok:
  assumes "stage v a d (consenting cfg self v prepared a authentication) h" "prepared_for (v_params v) prepared"
    and "is_remote a \<longrightarrow> \<not> needsPqKeys (v_params v)"
  shows "pipeline_ok cfg self v
     (finishRun cfg ctx (v_request v) (v_params v) prepared a authentication n)
     (\<lambda>_ h. first_account h = Some a \<and> active a h) h"
proof -
  let ?C = "consenting cfg self v prepared a authentication"
  have unlock: "pipeline_ok cfg self v (inContext c (whenP b (asyncP (openVault cfg (v_request v) k a))))
      (\<lambda>_. stage v a d ?C) h" for b k c
    by (intro ok_inContext keyring_only [OF _ assms(1) stable_consenting]) (auto intro!: only_intros)
  have check: "pipeline_ok cfg self v (inContext c (seqP (asyncP (assertStillActive a))
      (asyncP (revalidateAuthentication cfg (v_request v) (v_params v) a authentication n)))) (\<lambda>_. stage v a d ?C) h'"
    if "stage v a d ?C h'" for h' c
    using that by (intro ok_inContext recheck_ok stable_consenting) (simp_all add: stage_def)
  have save: "pipeline_ok cfg self v (inContext c (case (authentication, stored_scope authentication) of
        (Some run, Some scope) \<Rightarrow> asyncP (saveAuthenticationGrant cfg run scope a Allow) | _ \<Rightarrow> Ret ()))
      (\<lambda>_. stage v a d ?C) h'" if "stage v a d ?C h'" for h' c
  proof (rule ok_inContext)
    have "pipeline_ok cfg self v (asyncP (saveAuthenticationGrant cfg run scope a Allow)) (\<lambda>_. stage v a d ?C) h'" for run scope
      by (rule ok_async [OF storeGrant_ok [OF that stable_consenting]]) (auto intro: stage_pause stable_consenting)
    then show "pipeline_ok cfg self v (case (authentication, stored_scope authentication) of
        (Some run, Some scope) \<Rightarrow> asyncP (saveAuthenticationGrant cfg run scope a Allow) | _ \<Rightarrow> Ret ())
      (\<lambda>_. stage v a d ?C) h'" using that by (auto split: option.split)
  qed
  have answer: "pipeline_ok cfg self v (inContext c (asyncP
      (executeFor cfg a (is_remote a) k (v_request v) (v_params v) prepared))) (\<lambda>_. stage v a d ?C) h'"
    if "stage v a d ?C h'" for h' c k
    by (rule ok_inContext, rule ok_async [OF executeFor_ok [OF that assms(2,3)]])
      (auto intro: stage_pause stable_consenting)
  show ?thesis unfolding finishRun_def Let_def
    by (rule ok_seqI [OF unlock], rule ok_seqI [OF check], assumption, rule ok_seqI [OF save], assumption,
        rule ok_bindI [OF answer], assumption, rule ok_seqI [OF check], assumption) (simp add: stage_def base_def)
qed

lemma consent_ok:
  assumes "stage v a d unprompted h" "parsed_rightly cfg self (v_params v) parsed"
  shows "pipeline_ok cfg self v (case parsed of None \<Rightarrow> Ret None
        | Some r \<Rightarrow> bindP (storedConsent cfg a r) (\<lambda>r. Ret (Some r)))
      (\<lambda>authentication. stage v a d (\<lambda>h. unprompted h \<and> with_consent cfg self (v_params v) a authentication h)) h"
proof (cases parsed)
  case None
  then show ?thesis using assms by (auto simp: parsed_rightly_def with_consent_def stage_def)
next
  case (Some r)
  then have "pipeline_ok cfg self v (storedConsent cfg a r)
      (\<lambda>r' h. stage v a d (\<lambda>h. unprompted h \<and> with_consent cfg self (v_params v) a (Some r') h) h) h"
    using assms by (intro storedConsent_ok stable_unprompted) (auto simp: parsed_rightly_def)
  then show ?thesis by (auto simp: Some intro: ok_bindI)
qed

lemma asking_ok:
  assumes "stage v a d (\<lambda>h. unprompted h \<and> with_consent cfg self (v_params v) a authentication h) h"
    and "r_params (v_request v) = wireParams (v_params v)" "prepared_for (v_params v) prepared"
    and "\<not> asks \<longrightarrow> stays_silent (v_params v) a d authentication"
  shows "pipeline_ok cfg self v
     (if asks then askUser cfg ctx (v_request v) (v_params v) prepared a authentication else Ret authentication)
     (\<lambda>auth' h. stage v a d (consenting cfg self v prepared a auth') h) h"
proof (cases asks)
  case False
  then show ?thesis using assms silent_consent [of v a d authentication h cfg self prepared] by (simp add: stage_def)
qed (simp add: askUser_ok assms)

lemma run_request_ok:
  assumes wire: "r_params (v_request v) = wireParams (v_params v)"
  shows "pipeline_ok cfg self v (run_request cfg v self) (\<lambda>_ h. \<exists>a. first_account h = Some a \<and> active a h) []"
proof -
  let ?F = "\<lambda>a authentication h. unprompted h \<and> with_consent cfg self (v_params v) a authentication h"
  have sF: "stable (?F a authentication)" for a authentication
    by (intro stable_conj stable_unprompted stable_with_consent)
  show ?thesis
    unfolding run_request_def Let_def ok.simps origin_of_def [symmetric] rule_of_def [symmetric]
    apply (intro allI)
    apply (rule ok_bindI [OF ok_inContext [OF activeAccount_ok]])
    apply (rule ok_bindI [OF ok_inContext [OF checkRule_ok [OF _ _ _ _ stable_unprompted]]], (elim conjE, assumption)+)
    apply (rule ok_bindI [OF ok_inContext [OF admitted_ok]], elim conjE, hypsubst)
    apply (rule ok_bindI [OF ok_inContext [OF parse_run_ok [OF _ stable_unprompted]]], assumption)
    apply (elim conjE)
    apply (rule ok_bindI [OF ok_inContext [OF consent_ok]], assumption, assumption)
    apply (rule ok_bindI [OF ok_inContext [OF prepare_ok [OF _ sF]]], assumption)
    apply (elim conjE)
    apply (rule ok_bindI [OF ok_inContext [OF needsConsent_ok [OF _ sF]]], assumption)
    apply (elim conjE)
    apply (rule ok_bindI [OF asking_ok [OF _ wire]], assumption, assumption, assumption)
    apply (rule ok_mono [OF finishRun_ok], assumption, assumption, assumption)
    apply (auto simp: split_def split: if_splits)
    done
qed

subsection \<open>Every run of a request\<close>

definition answered_for :: "calls \<Rightarrow> bool" where
  "answered_for h \<longleftrightarrow> (\<exists>a. first_account h = Some a \<and> active a h)"

lemma answered_for_more: "answered_for h \<Longrightarrow> harmless c \<Longrightarrow> c \<noteq> GetActiveAccount \<Longrightarrow> answered_for ((c, r) # h)"
  by (cases c) (auto simp: answered_for_def active_def)

lemma only_toSignerError [only_intros]: "C IsLocked \<Longrightarrow> only C (toSignerError e x)"
  by (cases e) (auto simp: toSignerError_def intro!: only_intros)

lemma only_record [only_intros]: "C Now \<Longrightarrow> (\<And>e. C (RecordActivity e)) \<Longrightarrow> only C (record_activity rec acct out)"
  by (auto simp: record_activity_def intro!: only_intros)

lemma handleValidated_ok:
  assumes "r_params (v_request v) = wireParams (v_params v)"
  shows "pipeline_ok cfg self v (handleValidated cfg v self) (\<lambda>_. answered_for) []"
  unfolding handleValidated_def
proof (rule ok_bindI)
  let ?C = "\<lambda>c. harmless c \<and> c \<noteq> GetActiveAccount"
  have run: "pipeline_ok cfg self v (run_request cfg v self) (\<lambda>_. answered_for) []"
    by (rule ok_mono [OF run_request_ok [OF assms]]) (simp add: answered_for_def)
  show "pipeline_ok cfg self v (attempt (asyncP (run_request cfg v self))) (\<lambda>x h. \<forall>a. x = Inr a \<longrightarrow> answered_for h) []"
    by (rule ok_attempt [OF ok_async [OF run]]) (auto intro: answered_for_more)
  fix x :: "(RunContext \<times> failure) + (signer_value \<times> RunContext)" and h
  assume x: "\<forall>a. x = Inr a \<longrightarrow> answered_for h"
  show "pipeline_ok cfg self v (case x of
       Inr (answer, ctx) \<Rightarrow>
         seqP (asyncP (record_activity (recorded_request v ctx) (x_account ctx) Allowed)) (Ret answer)
     | Inl (ctx, e) \<Rightarrow>
         bindP (toSignerError e (x_execute ctx)) (\<lambda>refused.
           seqP (asyncP (record_activity (recorded_request v ctx) (x_account ctx)
                   (Denied (errorMessage e) (err_code refused))))
             (Throw refused))) (\<lambda>_. answered_for) h"
  proof (cases x)
    case (Inl ce)
    obtain ctx e where ce: "ce = (ctx, e)" by (cases ce)
    have "pipeline_ok cfg self v (bindP (toSignerError e (x_execute ctx)) (\<lambda>refused.
        bindP (asyncP (record_activity (recorded_request v ctx) (x_account ctx) (Denied (errorMessage e) (err_code refused))))
             (\<lambda>_. Throw refused))) (\<lambda>_. answered_for) h"
      unfolding ok_bind
      by (rule ok_mono [OF ok_free [where C = harmless]], auto intro!: only_intros harmless_allowed)
        (rule ok_mono [OF ok_free [where C = harmless]], auto intro!: only_intros harmless_allowed)
    then show ?thesis by (simp add: Inl ce seqP_def)
  next
    case (Inr ac)
    obtain answer ctx where ac: "ac = (answer, ctx)" by (cases ac)
    have "answered_for h" using x Inr by blast
    then have "pipeline_ok cfg self v (asyncP (record_activity (recorded_request v ctx) (x_account ctx) Allowed))
        (\<lambda>_. answered_for) h"
      by (intro ok_only [where C = ?C] only_intros) (auto intro: harmless_allowed answered_for_more)
    then show ?thesis by (simp add: Inr ac) (erule ok_seqI, simp)
  qed
qed

definition request_run ::
  "signer_host \<Rightarrow> bool \<Rightarrow> jsv \<Rightarrow> core \<Rightarrow> (host_op list \<times> answer) list
     \<Rightarrow> (sigcall, signer_error, signer_value) result \<times> core \<times> calls" where
  "request_run cfg self input s script =
     exec host_step (if self then handleSelf cfg input else handle cfg input) s script []"

lemma accepted_wire: "validateRequest input = Inr v \<Longrightarrow> r_params (v_request v) = wireParams (v_params v)"
  by (auto simp: validateRequest_def validate_def split: sum.splits schema_error.splits)

lemma request_ok:
  assumes "validateRequest input = Inr v"
  shows "pipeline_ok cfg self v (if self then handleSelf cfg input else handle cfg input) (\<lambda>_. answered_for) []"
  using handleValidated_ok [OF accepted_wire [OF assms]] assms
  by (auto simp: handle_def handleSelf_def)

lemma request_obeys:
  assumes "validateRequest input = Inr v" "request_run cfg self input s script = (res, s', h)"
  shows "obeys (allowed_call cfg self v) h \<and> (\<forall>answer. res = Finished (Inr answer) \<longrightarrow> answered_for h)"
proof -
  have "exec host_step (if self then handleSelf cfg input else handle cfg input) s script [] = (res, s', h)"
    using assms(2) by (simp add: request_run_def)
  from core_env.runs_obey [OF ok_wp [OF request_ok [OF assms(1)]] _ this] show ?thesis
    by (auto split: result.splits)
qed

lemma request_call:
  assumes "validateRequest input = Inr v" "request_run cfg self input s script = (res, s', later @ (c, r) # earlier)"
  shows "allowed_call cfg self v earlier c"
  using request_obeys [OF assms] by (auto dest: obeys_split)

end
