(* ===== verification/Sign_Claims.thy ===== *)
theory Sign_Claims
  imports Sign_Runs
begin

section \<open>What holds of every request\<close>

text \<open>
  The properties of \<open>handle\<close> and \<open>handleSelf\<close> over every script of answers and interference,
  each with a run in which its hypotheses hold.
\<close>

subsection \<open>A run\<close>

definition demo_deps :: signer_deps where
  "demo_deps = \<lparr>dp_unlock = False, dp_unlockBatch = False, dp_remote = False, dp_relays = False, dp_presentBatch = True,
     dp_originFor = False, dp_requesterFor = False, dp_assertAllowed = False, dp_grants = False, dp_rememberFor = None,
     dp_legacyLoginOrigins = [], dp_self = None, dp_suite = toy_suite, dp_mnemonicToSeed = \<lambda>_. None,
     dp_verifyEvent = \<lambda>_. False\<rparr>"

definition demo_host :: signer_host where
  "demo_host = \<lparr>h_deps = demo_deps, h_rememberFor = NON_WEB_REQUESTER_KINDS, h_self = []\<rparr>"

lemma demo_constructed: "SignerCore demo_deps = Inr demo_host"
  by (simp add: SignerCore_def demo_deps_def demo_host_def NON_WEB_REQUESTER_KINDS_def AUTHENTICATION_REQUESTER_KINDS_def)

definition demo_account :: SafeAccount where
  "demo_account = \<lparr>a_id = ''A'', a_type = Generated, a_pubkey = ''pub'', a_readOnly = False,
     a_derivationPath = None, a_derivationIndex = Some 0\<rparr>"

definition demo_decision :: ApprovalDecision where
  "demo_decision = \<lparr>d_allow = True, d_scope = None, d_remember = True, d_rememberKind = None, d_reason = None\<rparr>"

definition demo_script :: "(host_op list \<times> answer) list" where
  "demo_script = map (\<lambda>r. ([], r))
     [A_account (Some demo_account), A_decision Ask, A_unit, A_number 5000, A_approval demo_decision, A_unit,
      A_account (Some demo_account), A_unit, A_unit, A_unit, A_flag False, A_unit, A_account (Some demo_account), A_unit,
      A_unit, A_text ''key'', A_text ''pub'', A_number 6000, A_value (V_text ''signed''), A_unit, A_unit, A_unit, A_unit,
      A_account (Some demo_account), A_unit, A_unit, A_unit, A_number 7000, A_unit, A_unit]"

text \<open>
  A program is run step by step: congruences keep the simplifier out of what comes after the
  next call.
\<close>

lemma lazily:
  "p = p' \<Longrightarrow> bindP p f = bindP p' f" "p = p' \<Longrightarrow> seqP p q = seqP p' q" "p = p' \<Longrightarrow> catchP p g = catchP p' g"
  "b = b' \<Longrightarrow> whenP b w = whenP b' w" "scopedP c e body = scopedP c e body" "Get k = Get k" "Put u p = Put u p"
  "Sync c j = Sync c j" "Await c j = Await c j" "withPqKeys cfg a fn = withPqKeys cfg a fn"
  by simp_all

lemmas programs = handle_def handleValidated_def run_request_def activeAccount_def checkRule_def admitted_def parse_run_def
  storedConsent_def prepare_def needsConsent_def needsPrompt_def askUser_def approved_def remember_def finishRun_def
  executeFor_def signLocally_def execute_def sign_event_def openVault_def assertStillActive_def revalidateAuthentication_def
  record_activity_def toSignerError_def inContext_def asyncP_def scopedP_def trackP_def ask_def expect_def now_ms_def
  isLocked_def refuse_def refuseIf_def whenP_def seqP_def catchP_def tagged_def from_vault_def

lemmas demo_data = new_core_def demo_host_def demo_deps_def demo_account_def demo_decision_def note_request_def
  note_event_def no_context_def is_remote_def wrong_author_def permissionOrigin_def permissionRule_def
  authentication_event_def AUTHENTICATION_SIGN_KINDS_def KEY_METHODS_def prepared_needs_pq_def final_template_def
  NIP42_KIND_def NIP98_KIND_def ApprovalQueue_def actionableCount_def originCount_def entry_key_def settle_def
  settled_def pending_entries_def MAX_PENDING_PER_ORIGIN_def MAX_IN_FLIGHT_PER_ORIGIN_def MAX_IN_FLIGHT_GLOBAL_def
  track_def remembered_kind_def wouldBeUnboundedCredential_def promptContext_def stored_scope_def

text \<open>The calls of the run up to the \<open>n\<close>-th, and one of them as a step.\<close>

definition demo_calls :: "nat \<Rightarrow> calls" where
  "demo_calls n = snd (snd (request_run demo_host False note_input new_core (take n demo_script)))"

lemma demo_step:
  assumes "demo_calls n = (c, r) # h"
  shows "\<exists>res s'. request_run demo_host False note_input new_core (take n demo_script) = (res, s', [] @ (c, r) # h)"
  using assms by (cases "request_run demo_host False note_input new_core (take n demo_script)") (simp add: demo_calls_def)

definition demo_template :: EventTemplateInput where
  "demo_template = \<lparr>t_kind = 1, t_content = ''hi'', t_tags = [[''t'', ''x'']], t_created_at = Some 6, t_pubkey = None\<rparr>"

lemmas demo_run = demo_calls_def demo_script_def request_run_def programs demo_data note_accepted Let_def

lemma demo_signs: "demo_calls 19 = (SignTemplate ''key'' demo_template, A_value (V_text ''signed'')) # demo_calls 18"
  by (simp add: demo_run demo_template_def split del: if_split cong: lazily)

lemma demo_opens: "demo_calls 16 = (WithPrivkey ''A'', A_text ''key'') # demo_calls 15"
  by (simp add: demo_run split del: if_split cong: lazily)

lemma demo_saves: "demo_calls 9 = (SavePermission ''https://example.com'' SignEvent (Some 1) Allow ''A'', A_unit) # demo_calls 8"
  by (simp add: demo_run split del: if_split cong: lazily)

lemmas demo_signing = demo_step [OF demo_signs]
  and demo_opening = demo_step [OF demo_opens]
  and demo_saving = demo_step [OF demo_saves]

lemma demo_first: "first_account (demo_calls 18) = Some demo_account" "first_account (demo_calls 15) = Some demo_account"
  by (simp_all add: demo_run split del: if_split cong: lazily)

lemma demo_answered: "\<exists>s' h. request_run demo_host False note_input new_core demo_script = (Finished (Inr (V_text ''signed'')), s', h)"
  by (simp add: demo_run split del: if_split cong: lazily)

subsection \<open>Calls\<close>

text \<open>C1: C1: 
  Before anything but a clock, a lock, the active account or a rule is asked for, the rule of this
  caller, method and kind has been read for the account the request was resolved for, neither it
  nor a stored authentication decision has been answered with a denial, and the call names that
  account and no other.
\<close>
theorem denied_request_reaches_nothing:
  assumes "validateRequest input = Inr v"
    and "request_run cfg self input s script = (res, s', later @ (c, r) # earlier)" "\<not> harmless c"
  shows "undenied earlier \<and> (\<exists>a d. first_account earlier = Some a \<and> for_account a c \<and> consulted v a d earlier)"
  using request_call [OF assms(1,2)] assms(3) by (cases c) (auto simp: allowed_call_def)

theorem denied_request_reaches_nothing_witness: "undenied (demo_calls 18)"
  using demo_signing denied_request_reaches_nothing [OF note_accepted] by fastforce



text \<open>C5: C5: 
  A private key that signs, encrypts or decrypts is the one the vault handed out for the account
  the request was resolved for, and it was checked to belong to that account's public key.
\<close>
theorem key_belongs_to_the_account:
  assumes "validateRequest input = Inr v"
    and "request_run cfg self input s script = (res, s', later @ (c, r) # earlier)" "key_used c = Some k"
  shows "\<exists>a. first_account earlier = Some a \<and> key_of_account a k earlier"
  using request_call [OF assms(1,2)] assms(3) by (cases c) (auto simp: allowed_call_def)

theorem key_belongs_to_the_account_witness: "key_of_account demo_account ''key'' (demo_calls 18)"
proof -
  obtain res s' where "request_run demo_host False note_input new_core (take 19 demo_script)
      = (res, s', [] @ (SignTemplate ''key'' demo_template, A_value (V_text ''signed'')) # demo_calls 18)"
    using demo_signing by blast
  from key_belongs_to_the_account [OF note_accepted this] demo_first show ?thesis by simp
qed

text \<open>C3: C3: 
  What is signed, encrypted or decrypted, here or by a remote signer, is what the request asked
  for, and an event that is signed is the event every prompt of the run has shown.
\<close>
theorem signed_as_shown:
  assumes "validateRequest input = Inr v"
    and "request_run cfg self input s script = (res, s', later @ (c, r) # earlier)"
  shows "as_requested v earlier c"
  using request_call [OF assms] by (simp add: allowed_call_def)

theorem signed_as_shown_witness: "as_requested note_request (demo_calls 18) (SignTemplate ''key'' demo_template)"
  using demo_signing signed_as_shown [OF note_accepted] by blast







end
