(* ===== verification/Sign_Log.thy ===== *)
theory Sign_Log
  imports Sign_Claims
begin

section \<open>A request ends, and is written down once\<close>

text \<open>
  No answer of a port can make a request go on for ever: the number of calls a request makes is
  bounded whatever they are answered with. None of them before the last few writes to the
  activity log, and then exactly one entry is written, with the outcome the caller is given.
\<close>

subsection \<open>Programs that make few calls\<close>

text \<open>At most \<open>n\<close> calls, each of them one of \<open>C\<close>.\<close>

primrec brief :: "('c \<Rightarrow> bool) \<Rightarrow> nat \<Rightarrow> ('s, 'c, 'r, 'e, 'a) prog \<Rightarrow> bool" where
  "brief C n (Ret a) = True"
| "brief C n (Throw e) = True"
| "brief C n (Get k) = (\<forall>s. brief C n (k s))"
| "brief C n (Put g p) = brief C n p"
| "brief C n (Sync c k) = (C c \<and> 0 < n \<and> (\<forall>r. brief C (n - 1) (k r)))"
| "brief C n (Await c k) = (C c \<and> 0 < n \<and> (\<forall>r. brief C (n - 1) (k r)))"

named_theorems brief_intros \<open>how many calls a program can make\<close>

lemma brief_mono: "brief C n p \<Longrightarrow> n \<le> m \<Longrightarrow> brief C m p"
proof (induction p arbitrary: n m)
  case (Get k)
  then show ?case by (simp, metis rangeI)
next
  case (Sync c k)
  from Sync.IH [OF rangeI _ diff_le_mono [OF Sync.prems(2)]] Sync.prems show ?case by simp
next
  case (Await c k)
  from Await.IH [OF rangeI _ diff_le_mono [OF Await.prems(2)]] Await.prems show ?case by simp
qed simp_all

lemma brief_more: "brief C m p \<Longrightarrow> brief C (n + m) p" "brief C n p \<Longrightarrow> brief C (max n m) p" "brief C m p \<Longrightarrow> brief C (max n m) p"
  by (auto elim: brief_mono)

lemma brief_only: "brief C n p \<Longrightarrow> only C p"
  by (induction p arbitrary: n) auto

lemma brief_calls: "brief C n p \<Longrightarrow> (\<And>c. C c \<Longrightarrow> D c) \<Longrightarrow> brief D n p"
  by (induction p arbitrary: n) auto

lemma brief_Ret [brief_intros]: "brief C 0 (Ret a)"
  by simp

lemma brief_Throw [brief_intros]: "brief C 0 (Throw e)"
  by simp

lemma brief_Get [brief_intros]: "(\<And>s. brief C n (k s)) \<Longrightarrow> brief C n (Get k)"
  by simp

lemma brief_Put [brief_intros]: "brief C n p \<Longrightarrow> brief C n (Put g p)"
  by simp

lemma brief_Sync [brief_intros]: "C c \<Longrightarrow> (\<And>r. brief C n (k r)) \<Longrightarrow> brief C (Suc n) (Sync c k)"
  by simp

lemma brief_Await [brief_intros]: "C c \<Longrightarrow> (\<And>r. brief C n (k r)) \<Longrightarrow> brief C (Suc n) (Await c k)"
  by simp

lemma brief_bind [brief_intros]: "brief C n p \<Longrightarrow> (\<And>a. brief C m (f a)) \<Longrightarrow> brief C (n + m) (bindP p f)"
proof (induction p arbitrary: n)
  case (Ret a)
  then show ?case by (simp add: brief_more)
next
  case (Sync c k)
  then have "brief C (n - 1 + m) (bindP (k r) f)" for r by (intro Sync.IH) auto
  with Sync.prems(1) show ?case by (auto intro: brief_mono)
next
  case (Await c k)
  then have "brief C (n - 1 + m) (bindP (k r) f)" for r by (intro Await.IH) auto
  with Await.prems(1) show ?case by (auto intro: brief_mono)
qed auto

lemma brief_attempt [brief_intros]: "brief C n p \<Longrightarrow> brief C n (attempt p)"
  by (induction p arbitrary: n) auto

lemma brief_seq [brief_intros]: "brief C n p \<Longrightarrow> brief C m q \<Longrightarrow> brief C (n + m) (seqP p q)"
  unfolding seqP_def by (rule brief_bind)

lemma brief_sum [brief_intros]:
  "(\<And>e. brief C n (f e)) \<Longrightarrow> (\<And>a. brief C m (g a)) \<Longrightarrow> brief C (max n m) (case x of Inl e \<Rightarrow> f e | Inr a \<Rightarrow> g a)"
  by (cases x) (simp_all add: brief_more)

lemma brief_option [brief_intros]:
  "brief C n p \<Longrightarrow> (\<And>a. brief C m (g a)) \<Longrightarrow> brief C (max n m) (case x of None \<Rightarrow> p | Some a \<Rightarrow> g a)"
  by (cases x) (simp_all add: brief_more)

lemma brief_prod [brief_intros]: "(\<And>a b. brief C n (f a b)) \<Longrightarrow> brief C n (case x of (a, b) \<Rightarrow> f a b)"
  by (cases x) simp

lemma brief_if [brief_intros]: "brief C n p \<Longrightarrow> brief C m q \<Longrightarrow> brief C (max n m) (if b then p else q)"
  by (simp add: brief_more)

lemma brief_Let [brief_intros]: "(\<And>a. brief C n (f a)) \<Longrightarrow> brief C n (Let x f)"
  by (simp add: Let_def)

lemma brief_catch [brief_intros]: "brief C n p \<Longrightarrow> (\<And>e. brief C m (f e)) \<Longrightarrow> brief C (n + m) (catchP p f)"
  unfolding catchP_def
  by (rule brief_bind [OF brief_attempt]) (auto split: sum.split)

lemma brief_refuseIf [brief_intros]: "brief C 0 (refuseIf b e)"
  by (simp add: refuseIf_def)

lemma brief_whenP [brief_intros]: "brief C n p \<Longrightarrow> brief C n (whenP b p)"
  by (simp add: whenP_def)

text \<open>A script that is long enough brings a brief program to its end.\<close>

lemma brief_ends:
  assumes "brief C n p" "n \<le> length script"
  shows "\<exists>x s' h'. exec host p s script h = (Finished x, s', h')"
  using assms
proof (induction p arbitrary: n s script h)
  case (Sync c k)
  then obtain ops r rest where "script = (ops, r) # rest" by (cases script) auto
  with Sync.prems Sync.IH [of "k r" "n - 1" rest s "(c, r) # h"] show ?case by auto
next
  case (Await c k)
  then obtain ops r rest where "script = (ops, r) # rest" by (cases script) auto
  with Await.prems Await.IH [of "k r" "n - 1" rest "fold host ops s" "(c, r) # h"] show ?case by auto
next
  case (Get k)
  then show ?case by (metis brief.simps(3) exec.simps(3) rangeI)
qed auto

subsection \<open>The calls of the pipeline\<close>

definition not_log :: "sigcall \<Rightarrow> bool" where
  "not_log c \<longleftrightarrow> (\<forall>e. c \<noteq> RecordActivity e)"

abbreviation few :: "nat \<Rightarrow> (core, sigcall, answer, 'e, 'a) prog \<Rightarrow> bool" where
  "few \<equiv> brief not_log"

lemma few_expect [brief_intros]: "brief C 0 (expect f r)"
  by (cases r) (auto simp: expect_def split: option.split)

lemma few_ask [brief_intros]: "C c \<Longrightarrow> brief C 1 (ask c f)"
  by (simp add: ask_def few_expect)

lemma few_now [brief_intros]: "few 1 now_ms"
  by (simp add: now_ms_def not_log_def)

lemma few_locked [brief_intros]: "few 1 isLocked"
  by (simp add: isLocked_def not_log_def)

lemma few_refuse [brief_intros]: "brief C 0 (refuse e m)"
  by (simp add: refuse_def)

lemma few_async [brief_intros]: "few n p \<Longrightarrow> few (n + 1) (asyncP p)"
  unfolding asyncP_def by (rule brief_bind [OF brief_attempt]) (auto simp: not_log_def split: sum.split)

lemma few_inContext [brief_intros]: "brief C n p \<Longrightarrow> brief C n (inContext ctx p)"
  unfolding inContext_def
  by (rule brief_mono, (rule brief_intros | assumption | simp)+)

lemma few_scoped [brief_intros]: "not_log c \<Longrightarrow> (\<And>k. few n (body k)) \<Longrightarrow> few (n + 2) (scopedP c f body)"
  unfolding scopedP_def
  by (rule brief_mono, rule brief_Await, assumption, rule brief_bind, rule few_expect, rule brief_bind, assumption,
      rule brief_Await [where n = 0]) (auto simp: not_log_def split: answer.split)

lemma few_track [brief_intros]: "not_log work \<Longrightarrow> few 2 (trackP i kind k a work f)"
  unfolding trackP_def
  by (auto simp: Let_def now_ms_def not_log_def few_expect split: prod.split sum.split option.split)

lemma few_assertStillActive [brief_intros]: "few 1 (assertStillActive a)"
  unfolding assertStillActive_def by (rule brief_mono, (rule brief_intros | simp add: not_log_def)+)

lemma few_stillWanted [brief_intros]: "few 1 (stillWanted a k n)"
  unfolding stillWanted_def by (rule brief_mono, (rule brief_intros | simp add: not_log_def)+)

lemma few_openVault [brief_intros]: "few 5 (openVault cfg request k a)"
  unfolding openVault_def by (rule brief_mono, (rule brief_intros | simp add: not_log_def)+)

lemma few_remember [brief_intros]: "few 1 (remember k rule outcome d a)"
  unfolding remember_def by (rule brief_mono, (rule brief_intros | simp add: not_log_def)+)

lemma few_needsPrompt [brief_intros]: "few 1 (needsPrompt m remote k a)"
  unfolding needsPrompt_def Let_def by (rule brief_mono, (rule brief_intros | simp add: not_log_def)+)

lemma few_withPqKeys [brief_intros]: "(\<And>src ks. few n (fn src ks)) \<Longrightarrow> few (n + 8) (withPqKeys cfg a fn)"
  unfolding withPqKeys_def by (rule brief_mono, (rule brief_intros | assumption | simp add: not_log_def)+)

lemma few_tagged [brief_intros]: "few 1 (tagged e)"
  by (cases e) (auto simp: tagged_def isLocked_def not_log_def)

lemma few_from_vault [brief_intros]: "brief C 0 (from_vault e)"
  by (cases e) (auto simp: from_vault_def)

lemma few_buildAttestation [brief_intros]: "few 11 (buildAttestation cfg a)"
  unfolding buildAttestation_def by (rule brief_mono, (rule brief_intros | simp)+)

lemma few_sign_event [brief_intros]: "few 2 (sign_event key event)"
  unfolding sign_event_def by (rule brief_mono, (rule brief_intros | simp add: not_log_def)+)

lemma few_execute [brief_intros]: "few 2 (execute key prepared)"
proof (cases prepared)
  case (Given p)
  have "few 2 (execute key (Given p))"
    by (cases p) (auto simp: execute_def refuse_def few_sign_event not_log_def intro!: brief_mono [OF few_ask])
  then show ?thesis by (simp add: Given)
qed (simp add: execute_def few_sign_event)

lemma few_executePq [brief_intros]: "few 1 (executePq prepared key keys)"
proof (cases prepared)
  case (Given p)
  have "few 1 (executePq (Given p) key keys)"
    by (cases p) (auto simp: executePq_def not_log_def ask_def few_expect refuse_def split: encrypt_scheme.split decrypt_scheme.split)
  then show ?thesis by (simp add: Given)
qed (simp add: executePq_def refuse_def)

lemma few_signLocally [brief_intros]: "few 15 (signLocally cfg a prepared)"
  unfolding signLocally_def by (rule brief_mono, (rule brief_intros | simp add: not_log_def)+)

lemma few_executeFor [brief_intros]: "few 16 (executeFor cfg a remote k request params prepared)"
proof -
  have remote: "few 3 (bindP (asyncP (trackP i RemoteEntry k b (RemoteExecute a request ps) the_js)) f)"
    if "\<And>x. brief not_log 0 (f x)" for i b ps and f :: "jsv \<Rightarrow> signer_value pipeline"
    by (rule brief_mono, (rule brief_intros that | simp add: not_log_def)+)
  have locally: "few 16 (asyncP (signLocally cfg a prepared))"
    by (rule brief_mono, (rule brief_intros | simp add: not_log_def)+)
  have relays: "few 16 (ask (FetchRelays a) f)" for f :: "answer \<Rightarrow> signer_value option"
    by (rule brief_mono, (rule brief_intros | simp add: not_log_def)+)
  show ?thesis
    by (cases params) (auto simp: executeFor_def locally relays split: sum.split intro!: brief_mono [OF remote])
qed

lemma few_requester [brief_intros]: "few 1 (resolveRequester cfg request a self)"
proof -
  have ends: "brief not_log 0 (requester_key r)" for r
    by (cases r) (auto simp: requester_key_def split: sum.split)
  show ?thesis unfolding resolveRequester_def ask_requester_def Let_def
    by (rule brief_mono, (rule brief_intros ends | simp add: not_log_def)+)
qed

lemma few_validate [brief_intros]: "few 1 (validateAuthenticationEvent cfg event r)"
  unfolding validateAuthenticationEvent_def by (rule brief_mono, (rule brief_intros | simp add: not_log_def)+)

lemma few_parse_run [brief_intros]: "few 4 (parse_run cfg request params a self)"
  unfolding parse_run_def by (rule brief_mono, (rule brief_intros | simp add: not_log_def)+)

lemma few_checkRule [brief_intros]: "few 1 (checkRule k rule a)"
  unfolding checkRule_def by (rule brief_mono, (rule brief_intros | simp add: not_log_def)+)

lemma few_revalidate [brief_intros]: "few 11 (revalidateAuthentication cfg request params a prior n)"
proof -
  have ends: "few 1 (case params of P_signEvent event \<Rightarrow> bindP (validateAuthenticationEvent cfg event r) (\<lambda>_. Ret ()) | _ \<Rightarrow> Ret ())" for r
    by (cases params) (simp_all add: brief_bind [OF few_validate, where m = 0, simplified])
  show ?thesis unfolding revalidateAuthentication_def Let_def
    by (rule brief_mono, (rule brief_intros ends | simp add: not_log_def)+)
qed

lemma few_saveGrant [brief_intros]: "few 4 (saveAuthenticationGrant cfg r scope a d)"
proof -
  have ends: "brief not_log 0 (case e of Signer _ \<Rightarrow> Throw e
      | DeniedGrant _ \<Rightarrow> refuse Permission_denied m1 | _ \<Rightarrow> refuse Internal m2)" for e m1 m2
    by (cases e) (simp_all add: refuse_def)
  show ?thesis unfolding saveAuthenticationGrant_def
    by (rule brief_mono, (rule brief_intros ends | simp add: not_log_def)+)
qed

lemma few_rememberDeny [brief_intros]: "few 5 (rememberAuthenticationDeny cfg r a)"
proof -
  have ends: "brief not_log 0 (case e of Signer err \<Rightarrow> if err_code err = Account_switched then Throw e else refuse Rejected m
      | _ \<Rightarrow> refuse Rejected m)" for e m
    by (cases e) (simp_all add: refuse_def)
  show ?thesis unfolding rememberAuthenticationDeny_def
    by (rule brief_mono, (rule brief_intros ends | simp add: not_log_def)+)
qed

lemma few_rememberRejection [brief_intros]: "few 6 (rememberRejection cfg k rule outcome a authentication)"
  unfolding rememberRejection_def by (rule brief_mono, (rule brief_intros | simp add: not_log_def)+)

lemma few_activeAccount [brief_intros]: "few 1 activeAccount"
  unfolding activeAccount_def by (rule brief_mono, (rule brief_intros | simp add: not_log_def)+)

lemma few_admitted [brief_intros]: "brief C 0 (admitted cfg params a)"
  unfolding admitted_def by (rule brief_mono, (rule brief_intros | simp add: not_log_def)+)

lemma few_storedConsent [brief_intros]: "few 1 (storedConsent cfg a r)"
  unfolding storedConsent_def by (rule brief_mono, (rule brief_intros | simp add: not_log_def)+)

lemma few_prepare [brief_intros]: "few 20 (prepare cfg request params k a)"
  unfolding prepare_def by (rule brief_mono, (rule brief_intros | simp add: not_log_def)+)

lemma few_approved [brief_intros]: "few 5 (approved k rule outcome a m)"
  unfolding approved_def by (rule brief_mono, (rule brief_intros | simp add: not_log_def)+)

lemma few_askUser [brief_intros]: "few 9 (askUser cfg ctx request params prepared a authentication)"
  unfolding askUser_def Let_def by (rule brief_mono, (rule brief_intros | simp add: not_log_def)+)

lemma few_needsConsent [brief_intros]: "few 1 (needsConsent request params a d authentication)"
  unfolding needsConsent_def by (rule brief_mono, (rule brief_intros | simp add: not_log_def)+)

lemma few_finishRun [brief_intros]: "few 56 (finishRun cfg ctx request params prepared a authentication n)"
  unfolding finishRun_def Let_def by (rule brief_mono, (rule brief_intros | simp add: not_log_def)+)

lemma few_run_request [brief_intros]: "few 94 (run_request cfg v self)"
  unfolding run_request_def Let_def by (rule brief_mono, (rule brief_intros | simp add: not_log_def)+)

subsection \<open>One entry\<close>

definition entries :: "calls \<Rightarrow> ActivityEntry list" where
  "entries h = concat (map (\<lambda>(c, _). case c of RecordActivity e \<Rightarrow> [e] | _ \<Rightarrow> []) h)"

lemma entries_simps [simp]:
  "entries [] = []" "entries ((RecordActivity e, r) # h) = e # entries h" "not_log c \<Longrightarrow> entries ((c, r) # h) = entries h"
  by (auto simp: entries_def not_log_def split: sigcall.split)

text \<open>The entry says what the caller is told.\<close>

definition told :: "signer_error + signer_value \<Rightarrow> ActivityEntry \<Rightarrow> bool" where
  "told x entry \<longleftrightarrow>
     (case x of
        Inl e \<Rightarrow> \<not> en_allowed entry \<and> en_code entry = Some (err_code e) \<and> en_reason entry \<noteq> None
      | Inr _ \<Rightarrow> en_allowed entry \<and> en_code entry = None \<and> en_reason entry = None)"

lemma wp_silent:
  assumes "only not_log p" "entries h = es"
  shows "wp E (\<lambda>_ _. True) p (\<lambda>_ _ h'. entries h' = es) s h"
  using assms by (intro wp_only [where C = not_log and I = "\<lambda>h. entries h = es"]) auto

lemma wp_async:
  assumes "wp E P p Q s h" "\<And>h. P h Pause" "\<And>x s s' h r. Q x s h \<Longrightarrow> E s s' \<Longrightarrow> Q x s' ((Pause, r) # h)"
  shows "wp E P (asyncP p) Q s h"
  unfolding asyncP_def wp_bind wp_attempt
  by (rule wp_mono [OF assms(1)]) (auto simp: assms(2,3) split: sum.split)

lemma wp_record:
  assumes "entries h = []" "\<And>n. told x (activity_entry rec acct out n) \<and> en_requestId (activity_entry rec acct out n) = i"
  shows "wp E (\<lambda>_ _. True) (asyncP (record_activity rec acct out))
     (\<lambda>y _ h'. y = Inr () \<and> (\<exists>entry. entries h' = [entry] \<and> told x entry \<and> en_requestId entry = i)) s h"
proof (rule wp_async)
  show "wp E (\<lambda>_ _. True) (record_activity rec acct out)
     (\<lambda>y _ h'. y = Inr () \<and> (\<exists>entry. entries h' = [entry] \<and> told x entry \<and> en_requestId entry = i)) s h"
    using assms by (simp add: record_activity_def now_ms_def not_log_def)
qed (auto simp: not_log_def)

lemma only_toSignerError_log: "only not_log (toSignerError e x)"
  by (rule only_toSignerError) (simp add: not_log_def)

lemma handleValidated_written:
  "wp E (\<lambda>_ _. True) (handleValidated cfg v self)
     (\<lambda>x _ h. \<exists>entry. entries h = [entry] \<and> told x entry \<and> en_requestId entry = r_id (v_request v)) s []"
proof -
  let ?Q = "\<lambda>x (_ :: core) h. \<exists>entry. entries h = [entry] \<and> told x entry \<and> en_requestId entry = r_id (v_request v)"
  have "wp E (\<lambda>_ _. True) (asyncP (run_request cfg v self)) (\<lambda>_ _ h. entries h = []) s []"
    by (intro wp_silent only_async brief_only [OF few_run_request]) (simp_all add: not_log_def)
  then have run: "wp E (\<lambda>_ _. True) (attempt (asyncP (run_request cfg v self)))
      (\<lambda>x _ h. entries h = [] \<and> (\<exists>a. x = Inr a)) s []"
    by (simp add: wp_attempt)
  have fine: "wp E (\<lambda>_ _. True)
      (seqP (asyncP (record_activity (recorded_request v ctx) (x_account ctx) Allowed)) (Ret answer)) ?Q s' h"
    if "entries h = []" for ctx answer s' h
    by (rule wp_seqI [OF wp_record [where x = "Inr answer" and i = "r_id (v_request v)", OF that]])
      (auto simp: told_def activity_entry_def recorded_request_def)
  have wrong: "wp E (\<lambda>_ _. True)
      (bindP (toSignerError e xx) (\<lambda>refused.
        seqP (asyncP (record_activity (recorded_request v ctx) (x_account ctx) (Denied (errorMessage e) (err_code refused))))
          (Throw refused))) ?Q s' h" if "entries h = []" for e xx ctx s' h
  proof (rule wp_bindI)
    have "wp E (\<lambda>_ _. True) (toSignerError e xx) (\<lambda>_ _ h. entries h = []) s' h"
      by (rule wp_silent [OF only_toSignerError_log that])
    moreover have "yields (\<lambda>_. True) (toSignerError e xx)" by simp
    ultimately show "wp E (\<lambda>_ _. True) (toSignerError e xx) (\<lambda>y _ h. entries h = [] \<and> (\<exists>a. y = Inr a)) s' h"
      by (cases e) (auto simp: toSignerError_def isLocked_def)
    fix refused s2 h2 assume "entries h2 = [] \<and> (\<exists>a. Inr refused = (Inr a :: signer_error + signer_error))"
    then have h2: "entries h2 = []" by simp
    show "wp E (\<lambda>_ _. True) (seqP (asyncP (record_activity (recorded_request v ctx) (x_account ctx)
        (Denied (errorMessage e) (err_code refused)))) (Throw refused)) ?Q s2 h2"
      by (rule wp_seqI [OF wp_record [where x = "Inl refused" and i = "r_id (v_request v)", OF h2]])
        (auto simp: told_def activity_entry_def recorded_request_def)
  qed simp
  show ?thesis unfolding handleValidated_def
    by (rule wp_bindI [OF run]) (auto split: sum.split prod.split intro: fine wrong)
qed

subsection \<open>Properties\<close>


text \<open>C19: C9: 
  Every request is answered: whatever the ports say and whatever runs meanwhile, 99 answers are
  enough for the caller to have an answer or a refusal.
\<close>
theorem every_request_is_answered:
  assumes "99 \<le> length script"
  shows "\<exists>x s' h. request_run cfg self input s script = (Finished x, s', h)"
proof -
  have noted: "brief (\<lambda>_. True) 3 (asyncP (record_activity rec acct out))" for rec acct out
    by (simp add: asyncP_def record_activity_def now_ms_def)
  have refused: "brief (\<lambda>_. True) 1 (toSignerError e xx)" for e xx
    by (cases e) (simp_all add: toSignerError_def isLocked_def)
  have run: "brief (\<lambda>_. True) 95 (asyncP (run_request cfg v self))" for v
    by (rule brief_calls [OF few_async [OF few_run_request, simplified]]) simp
  have "brief (\<lambda>_. True) 99 (handleValidated cfg v self)" for v
    unfolding handleValidated_def by (rule brief_mono, (rule brief_intros noted refused run)+) simp
  then have "brief (\<lambda>_. True) 99 (if self then handleSelf cfg input else handle cfg input)"
    by (auto simp: handle_def handleSelf_def split: sum.split)
  from brief_ends [OF this assms] show ?thesis by (simp add: request_run_def)
qed

theorem every_request_is_answered_witness:
  "\<exists>x s' h. request_run demo_host True note_input new_core (replicate 99 ([], A_unit)) = (Finished x, s', h)"
  by (rule every_request_is_answered) simp


end
