(* ===== verification/Sign_Batch.thy ===== *)
theory Sign_Batch
  imports Sign_Log
begin

section \<open>A batch ends, and every item is answered\<close>

text \<open>
  The bounds of \<^verbatim>\<open>Sign_Log\<close> for \<open>handleBatch\<close>, the lengths and names of what its stages pass on, and
  the run in which the code and the comment of \<open>handleBatch\<close> part ways.
\<close>

subsection \<open>The calls of a batch\<close>

lemma few_openVaultForBatch [brief_intros]: "few 5 (openVaultForBatch cfg batch k a)"
  unfolding openVaultForBatch_def by (rule brief_mono, (rule brief_intros | simp add: not_log_def)+)

lemma few_remember_rules: "few (length asked) (remember_rules k saved asked outcome d a)"
proof (induction asked arbitrary: saved)
  case (Cons rule asked)
  have "few (1 + length asked) (seqP (ask (SavePermission k m kd d i) the_unit) (remember_rules k saved' asked outcome d a))"
    for m kd i saved'
    by (intro brief_seq few_ask Cons.IH) (simp add: not_log_def)
  then show ?case by (auto simp: Let_def intro: brief_mono [OF Cons.IH])
qed simp

lemma few_batch_rules: "few (length ps) (batch_rules k a seen ps)"
proof (induction ps arbitrary: seen)
  case (Cons p ps)
  have "few (1 + (length ps + 0)) (bindP (checkRule k rule a) (\<lambda>d. bindP (batch_rules k a seen' ps)
      (\<lambda>asked. Ret (f d asked))))" for rule seen' and f :: "decision \<Rightarrow> Asked list \<Rightarrow> Asked list"
    by (intro brief_bind few_checkRule Cons.IH) simp
  then show ?case by (auto simp: Let_def intro: brief_mono [OF Cons.IH])
qed simp

lemma few_batch_admitted [brief_intros]: "brief C 0 (batch_admitted items a)"
  unfolding batch_admitted_def by (rule brief_mono, (rule brief_intros | simp)+)

lemma few_yield [brief_intros]: "few n p \<Longrightarrow> few (Suc n) (yieldToHost p)"
  unfolding yieldToHost_def by (rule brief_Await) (simp_all add: not_log_def)

lemma few_prepare_items: "few (13 * length ps) (prepare_items cfg ctx a before ps)"
proof (induction ps arbitrary: before)
  case (Cons p ps)
  have "few (13 + 13 * length ps) (bindP (inContext c (if b then asyncP (buildAttestation cfg a)
      else yieldToHost (asyncP (buildAttestation cfg a)))) (\<lambda>event. prepare_items cfg ctx a (before @ [Attestation event]) ps))" for c b
    by (rule brief_mono, (rule brief_intros Cons.IH | simp)+)
  then show ?case by (auto intro: brief_mono [OF Cons.IH])
qed simp

lemma few_askBatch: "few (length asked + 6) (askBatch cfg batch prepared a asked)"
proof -
  have "few (length asked) (rememberAll k asked outcome d a)" for k outcome d
    unfolding rememberAll_def by (rule few_remember_rules)
  note all = few_async [OF this]
  show ?thesis unfolding askBatch_def Let_def
    by (rule brief_mono, (rule all brief_intros | simp add: not_log_def)+)
qed

lemma few_run_item [brief_intros]: "few 17 (run_item cfg a i prepared)"
proof -
  have "few 1 (toSignerError e xx)" for e xx
    by (cases e) (auto simp: toSignerError_def isLocked_def not_log_def)
  then show ?thesis unfolding run_item_def
    by - (rule brief_mono, (rule brief_intros | assumption | simp)+)
qed

lemma few_batch_gap [brief_intros]: "few 3 (batch_gap a k n)"
  unfolding batch_gap_def by (rule brief_mono, (rule brief_intros | simp)+)

lemma few_run_items: "few (20 * length rest) (run_items cfg a k n first stopped rest)"
proof (induction rest arbitrary: first stopped)
  case (Cons x rest)
  obtain i prepared where x: "x = (i, prepared)" by (cases x)
  have "few (20 + 20 * length rest) (run_items cfg a k n first stopped (x # rest))"
    unfolding x run_items.simps by (rule brief_mono, (rule brief_intros Cons.IH | simp)+)
  then show ?case by simp
qed simp

text \<open>Lengths of what the stages of a batch pass on.\<close>

lemma yields_inContext: "yields R p \<Longrightarrow> yields R (inContext ctx p)"
  unfolding inContext_def yields_bind
  by (rule yields_mono [OF yields_attemptI [where R = "\<lambda>x. \<forall>a. x = Inr a \<longrightarrow> R a"]]) (auto split: sum.split elim: yields_mono)

lemma yields_asyncP: "yields R p \<Longrightarrow> yields R (asyncP p)"
  unfolding asyncP_def yields_bind
  by (rule yields_mono [OF yields_attemptI [where R = "\<lambda>x. \<forall>a. x = Inr a \<longrightarrow> R a"]]) (auto split: sum.split elim: yields_mono)

lemma yields_bindI: "yields R p \<Longrightarrow> (\<And>a. R a \<Longrightarrow> yields Q (f a)) \<Longrightarrow> yields Q (bindP p f)"
  unfolding yields_bind by (rule yields_mono)

lemma asked_rules: "yields (\<lambda>asked. length asked \<le> length ps) (batch_rules k a seen ps)"
proof (induction ps arbitrary: seen)
  case (Cons p ps)
  have "yields (\<lambda>asked. length asked \<le> Suc (length ps)) (bindP (checkRule k rule a) (\<lambda>d.
      bindP (batch_rules k a seen' ps) (\<lambda>asked. Ret (if d = Ask then rule # asked else asked))))" for rule seen'
    by (rule yields_bindI [OF yields_True], rule yields_bindI [OF Cons.IH]) simp
  then show ?case by (auto simp: Let_def intro: yields_mono [OF Cons.IH])
qed simp

lemma prepared_items: "yields (\<lambda>prepared. length prepared = length before + length ps) (prepare_items cfg ctx a before ps)"
proof (induction ps arbitrary: before)
  case (Cons p ps)
  have "yields (\<lambda>prepared. length prepared = length before + length (p # ps))
      (bindP q (\<lambda>event. prepare_items cfg ctx a (before @ [Attestation event]) ps))"
    for q :: "EventTemplateInput running"
    by (rule yields_bindI [OF yields_True], rule yields_mono [OF Cons.IH]) simp
  then show ?case by (auto intro: yields_mono [OF Cons.IH])
qed simp

lemma brief_bind_yields:
  "brief C n p \<Longrightarrow> yields R p \<Longrightarrow> (\<And>a. R a \<Longrightarrow> brief C m (f a)) \<Longrightarrow> brief C (n + m) (bindP p f)"
proof (induction p arbitrary: n)
  case (Ret a)
  then show ?case by (simp add: brief_more)
next
  case (Sync c k)
  then have "brief C (n - 1 + m) (bindP (k r) f)" for r by (intro Sync.IH) auto
  with Sync.prems(1) show ?case by (auto intro: brief_mono)
next
  case (Await c k)
  then have "brief C (n - 1 + m) (bindP (k r) f)" for r by (intro Await.IH) auto
  with Await.prems(1) show ?case by (auto intro: brief_mono)
qed auto

lemma yields_exec: "yields R p \<Longrightarrow> exec host p s script h = (Finished (Inr a), s', h') \<Longrightarrow> R a"
  by (induction p arbitrary: s script h) (auto split: list.splits, (meson rangeI)+)

fun run_id :: "item_run \<Rightarrow> string" where
  "run_id (RunOk i _) = i"
| "run_id (RunRefused i _ _) = i"

lemma ids_run_item: "yields (\<lambda>x. run_id x = i) (run_item cfg a i prepared)"
  unfolding run_item_def
  by (rule yields_bindI [OF yields_True]) (auto split: sum.split intro!: yields_bindI [OF yields_True])

lemma ids_run_items: "yields (\<lambda>runs. map run_id runs = map fst rest) (run_items cfg a k n first stopped rest)"
proof (induction rest arbitrary: first stopped)
  case (Cons x rest)
  obtain i prepared where x: "x = (i, prepared)" by (cases x)
  have item: "yields (\<lambda>x. run_id x = i) (case st of Some e \<Rightarrow> Ret (RunRefused i (Signer e) e) | None \<Rightarrow> run_item cfg a i prepared)" for st
    by (auto split: option.split intro: ids_run_item)
  show ?case unfolding x run_items.simps
    by (rule yields_bindI [OF yields_True], rule yields_bindI [OF item], rule yields_bindI [OF Cons.IH]) simp
qed simp

lemma few_run_batch: "few (35 * length (vb_items v) + 23) (run_batch cfg v)"
proof -
  let ?n = "length (vb_items v)"
  have items: "few (20 * ?n) (run_items cfg a k c first stopped (zip (map vi_id (vb_items v)) prepared))" for a k c first stopped prepared
    by (rule brief_mono [OF few_run_items]) simp
  have ask: "few (?n + 6) (askBatch cfg batch prepared a asked)" if "length asked \<le> ?n" for batch prepared a asked
    by (rule brief_mono [OF few_askBatch]) (simp add: that)
  have prepares: "few (13 * ?n) (prepare_items cfg ctx a [] (map vi_params (vb_items v)))" for ctx a
    by (rule brief_mono [OF few_prepare_items]) simp
  have rules: "few ?n (inContext c (batch_rules k a [] (map vi_params (vb_items v))))"
    "yields (\<lambda>asked. length asked \<le> ?n) (inContext c (batch_rules k a [] (map vi_params (vb_items v))))" for c k a
    using few_inContext [OF few_batch_rules [of "map vi_params (vb_items v)"]]
      yields_inContext [OF asked_rules [of "map vi_params (vb_items v)"]] by simp_all
  show ?thesis unfolding run_batch_def Let_def
    apply (rule brief_mono)
     apply (rule brief_bind [OF few_inContext [OF few_activeAccount]])
     apply (rule brief_bind_yields [OF rules])
     apply (rule brief_intros items ask prepares | assumption | simp)+
    done
qed

lemma few_record_items: "brief (\<lambda>_. True) (3 * length xs) (record_items v ctx xs)"
proof (induction xs)
  case (Cons x xs)
  obtain i out where x: "x = (i, out)" by (cases x)
  have "brief (\<lambda>_. True) 3 (asyncP (record_activity rec acct out))" for rec acct
    by (simp add: asyncP_def record_activity_def now_ms_def)
  from brief_seq [OF this Cons.IH] show ?case by (simp add: x)
qed simp

lemma yields_whenP [simp]: "yields (\<lambda>_. True) (whenP b p)"
  by simp

lemma ids_run_batch: "yields (\<lambda>x. map run_id (fst x) = map vi_id (vb_items v)) (run_batch cfg v)"
proof -
  let ?Q = "\<lambda>x. map run_id (fst x) = map vi_id (vb_items v)"
  have items: "yields (\<lambda>prepared. length prepared = length (vb_items v)) (prepare_items cfg ctx a [] (map vi_params (vb_items v)))" for ctx a
    by (rule yields_mono [OF prepared_items]) simp
  have runs: "yields ?Q (bindP (inContext c (run_items cfg a k m True None (zip (map vi_id (vb_items v)) prepared))) (\<lambda>runs. Ret (runs, ctx)))"
    if "length prepared = length (vb_items v)" for c a k m prepared ctx
    by (rule yields_bindI [OF yields_inContext [OF ids_run_items]]) (simp add: that)
  show ?thesis unfolding run_batch_def Let_def
    by (rule yields_bindI [OF yields_True], rule yields_bindI [OF yields_True], rule yields_seq, rule yields_seq,
        rule yields_bindI [OF items], rule yields_seq, rule yields_seq) (auto intro: runs)
qed

definition batch_run ::
  "signer_host \<Rightarrow> jsv \<Rightarrow> core \<Rightarrow> (host_op list \<times> answer) list
     \<Rightarrow> (sigcall, signer_error, signer_value BatchResult) result \<times> core \<times> calls" where
  "batch_run cfg input s script = exec host_step (handleBatch cfg input) s script []"

fun outcome_id :: "'r BatchItemOutcome \<Rightarrow> string" where
  "outcome_id (ItemOk i _) = i"
| "outcome_id (ItemRefused i _ _) = i"

text \<open>C21: C11: 
  The answer to a batch names every item of the request, in the order of the request and once
  each, whatever stopped it on the way.
\<close>
theorem batch_answers_every_item:
  assumes "validateBatchRequest input = Inr v" "batch_run cfg input s script = (Finished (Inr r), s', h)"
  shows "br_id r = b_id (vb_request v) \<and> map outcome_id (br_items r) = map vi_id (vb_items v)"
proof -
  let ?Q = "\<lambda>r. br_id r = b_id (vb_request v) \<and> map outcome_id (br_items r) = map vi_id (vb_items v)"
  have ids: "outcome_id (item_outcome x) = run_id x" for x by (cases x) simp_all
  have runs: "yields (\<lambda>x. \<forall>y. x = Inr y \<longrightarrow> map run_id (fst y) = map vi_id (vb_items v)) (attempt (asyncP (run_batch cfg v)))"
    by (rule yields_attemptI [OF yields_asyncP [OF ids_run_batch, THEN yields_mono]]) auto
  have "yields ?Q (bindP (attempt (asyncP (run_batch cfg v))) (\<lambda>x.
      case x of
        Inr (runs, ctx) \<Rightarrow>
          seqP (record_items v ctx (enumerate 0 (map item_record runs)))
            (Ret \<lparr>br_id = b_id (vb_request v), br_items = map item_outcome runs\<rparr>)
      | Inl (ctx, e) \<Rightarrow>
          bindP (toSignerError e (x_execute ctx)) (\<lambda>refused.
          seqP (record_items v ctx (map (\<lambda>i. (i, Denied (errorMessage e) (err_code refused))) [0..<length (vb_items v)]))
            (Throw refused))))"
  proof (rule yields_bindI [OF runs])
    fix x :: "(RunContext \<times> failure) + (item_run list \<times> RunContext)"
    assume x: "\<forall>y. x = Inr y \<longrightarrow> map run_id (fst y) = map vi_id (vb_items v)"
    show "yields ?Q (case x of
        Inr (runs, ctx) \<Rightarrow>
          seqP (record_items v ctx (enumerate 0 (map item_record runs)))
            (Ret \<lparr>br_id = b_id (vb_request v), br_items = map item_outcome runs\<rparr>)
      | Inl (ctx, e) \<Rightarrow>
          bindP (toSignerError e (x_execute ctx)) (\<lambda>refused.
          seqP (record_items v ctx (map (\<lambda>i. (i, Denied (errorMessage e) (err_code refused))) [0..<length (vb_items v)]))
            (Throw refused)))"
    proof (cases x)
      case (Inl ce)
      then show ?thesis by (auto split: prod.split intro!: yields_bindI [OF yields_True] yields_seq)
    next
      case (Inr rc)
      have "map (outcome_id \<circ> item_outcome) (fst rc) = map vi_id (vb_items v)"
        using x Inr by (auto simp: ids comp_def)
      then show ?thesis by (auto simp: Inr split: prod.split intro!: yields_seq)
    qed
  qed
  then have "yields ?Q (handleBatch cfg input)" using assms(1) by (simp add: handleBatch_def)
  from yields_exec [OF this] assms(2) show ?thesis by (simp add: batch_run_def)
qed

text \<open>C20: C10: 
  Every batch is answered: the number of port answers it takes grows with the number of its
  items and with nothing else.
\<close>
theorem every_batch_is_answered:
  assumes "validateBatchRequest input = Inr v" "38 * length (vb_items v) + 25 \<le> length script"
  shows "\<exists>x s' h. batch_run cfg input s script = (Finished x, s', h)"
proof -
  let ?n = "length (vb_items v)"
  have run: "brief (\<lambda>_. True) (35 * ?n + 24) (asyncP (run_batch cfg v))"
    using brief_calls [OF few_async [OF few_run_batch [of v cfg]], of "\<lambda>_. True"]
    by (simp add: add.commute)
  have ids: "yields (\<lambda>x. \<forall>y. x = Inr y \<longrightarrow> map run_id (fst y) = map vi_id (vb_items v)) (attempt (asyncP (run_batch cfg v)))"
    by (rule yields_attemptI [OF yields_asyncP [OF ids_run_batch, THEN yields_mono]]) auto
  have refused: "brief (\<lambda>_. True) 1 (toSignerError e xx)" for e xx
    by (cases e) (simp_all add: toSignerError_def isLocked_def)
  have after: "brief (\<lambda>_. True) (3 * ?n) (record_items v ctx xs)" if "length xs = ?n" for ctx xs
    using few_record_items [of xs v ctx] that by simp
  have refusing: "brief (\<lambda>_. True) (Suc (3 * ?n)) (bindP (toSignerError e xx) (\<lambda>refused.
      seqP (record_items v ctx (map (g refused) [0..<?n])) (Throw refused)))" for e xx ctx and g :: "_ \<Rightarrow> nat \<Rightarrow> _"
  proof -
    have "brief (\<lambda>_. True) (3 * ?n + 0) (seqP (record_items v ctx (map (g refused) [0..<?n])) (Throw refused))" for refused
      by (intro brief_seq after brief_Throw) simp
    from brief_bind [OF refused this] show ?thesis by simp
  qed
  have "brief (\<lambda>_. True) (35 * ?n + 24 + (1 + 3 * ?n)) (bindP (attempt (asyncP (run_batch cfg v))) (\<lambda>x.
      case x of
        Inr (runs, ctx) \<Rightarrow>
          seqP (record_items v ctx (enumerate 0 (map item_record runs)))
            (Ret \<lparr>br_id = b_id (vb_request v), br_items = map item_outcome runs\<rparr>)
      | Inl (ctx, e) \<Rightarrow>
          bindP (toSignerError e (x_execute ctx)) (\<lambda>refused.
          seqP (record_items v ctx (map (\<lambda>i. (i, Denied (errorMessage e) (err_code refused))) [0..<?n]))
            (Throw refused))))"
  proof (rule brief_bind_yields [OF brief_attempt [OF run] ids])
    fix x :: "(RunContext \<times> failure) + (item_run list \<times> RunContext)"
    assume x: "\<forall>y. x = Inr y \<longrightarrow> map run_id (fst y) = map vi_id (vb_items v)"
    show "brief (\<lambda>_. True) (1 + 3 * ?n) (case x of
        Inr (runs, ctx) \<Rightarrow>
          seqP (record_items v ctx (enumerate 0 (map item_record runs)))
            (Ret \<lparr>br_id = b_id (vb_request v), br_items = map item_outcome runs\<rparr>)
      | Inl (ctx, e) \<Rightarrow>
          bindP (toSignerError e (x_execute ctx)) (\<lambda>refused.
          seqP (record_items v ctx (map (\<lambda>i. (i, Denied (errorMessage e) (err_code refused))) [0..<?n]))
            (Throw refused)))"
    proof (cases x)
      case (Inl ce)
      then show ?thesis
        by (auto split: prod.split intro: refusing)
    next
      case (Inr rc)
      have "length (fst rc) = ?n" using x Inr by (metis length_map)
      then show ?thesis
        by (auto simp: Inr split: prod.split intro!: brief_mono [OF brief_seq [OF after brief_Ret]])
    qed
  qed
  then have "brief (\<lambda>_. True) (38 * ?n + 25) (handleBatch cfg input)"
    using assms(1) by (auto simp: handleBatch_def intro: brief_mono)
  from brief_ends [OF this assms(2)] show ?thesis by (simp add: batch_run_def)
qed

subsection \<open>Two notes\<close>

definition note_item :: "string \<Rightarrow> jsv" where
  "note_item i = JObj [(''id'', JStr i), (''method'', JStr ''signEvent''),
     (''params'', JObj [(''event'', JObj [(''kind'', JNum (Whole 1)), (''content'', JStr ''hi''),
        (''tags'', JArr [JArr [JStr ''t'', JStr ''x'']])])])]"

definition pair_input :: jsv where
  "pair_input = JObj [(''id'', JStr ''9''),
     (''origin'', JObj [(''kind'', JStr ''web''), (''identifier'', JStr ''https://example.com'')]),
     (''items'', JArr [note_item ''1'', note_item ''2'']), (''receivedAt'', JNum (Whole 5))]"

definition pair_batch :: ValidatedBatch where
  "pair_batch = \<lparr>vb_request = \<lparr>b_id = ''9'',
       b_origin = \<lparr>o_kind = Web, o_identifier = ''https://example.com'', o_displayName = None, o_icon = None\<rparr>,
       b_items = [\<lparr>i_id = ''1'', i_method = SignEvent, i_params = EventParams note_event\<rparr>,
         \<lparr>i_id = ''2'', i_method = SignEvent, i_params = EventParams note_event\<rparr>], b_receivedAt = Whole 5\<rparr>,
     vb_items = [\<lparr>vi_id = ''1'', vi_params = P_signEvent note_event\<rparr>, \<lparr>vi_id = ''2'', vi_params = P_signEvent note_event\<rparr>]\<rparr>"

lemma pair_accepted: "validateBatchRequest pair_input = Inr pair_batch"
  by code_simp

text \<open>Both notes are allowed by a rule and the vault is open.\<close>

definition pair_start :: "answer list" where
  "pair_start = [A_account (Some demo_account), A_decision Allow, A_flag False, A_unit, A_account (Some demo_account), A_unit]"

definition sign_answers :: "answer list" where
  "sign_answers = [A_text ''key'', A_text ''pub'', A_number 6000, A_value (V_text ''signed''), A_unit, A_unit, A_unit]"

definition pair_script :: "(host_op list \<times> answer) list" where
  "pair_script = map (\<lambda>r. ([], r)) (pair_start @ sign_answers @ [A_account (Some demo_account), A_unit, A_unit] @ sign_answers
     @ replicate 7 A_unit)"

definition cut_script :: "(host_op list \<times> answer) list" where
  "cut_script = map (\<lambda>r. ([], r)) (pair_start @ sign_answers @ [A_throws (Foreign ''x'')] @ replicate 9 A_unit)"

lemmas batch_programs = batch_run_def handleBatch_def run_batch_def batch_admitted_def openVaultForBatch_def run_item_def
  batch_gap_def stillWanted_def yieldToHost_def pair_batch_def pair_start_def sign_answers_def

lemma pair_answered: "\<exists>s' h. batch_run demo_host pair_input new_core pair_script =
    (Finished (Inr \<lparr>br_id = ''9'', br_items = [ItemOk ''1'' (V_text ''signed''), ItemOk ''2'' (V_text ''signed'')]\<rparr>), s', h)"
  by (simp add: batch_programs pair_script_def programs demo_data pair_accepted Let_def numeral_eq_Suc split del: if_split cong: lazily)

theorem batch_answers_every_item_witness: "map vi_id (vb_items pair_batch) = [''1'', ''2'']"
proof -
  obtain s' h where "batch_run demo_host pair_input new_core pair_script =
    (Finished (Inr \<lparr>br_id = ''9'', br_items = [ItemOk ''1'' (V_text ''signed''), ItemOk ''2'' (V_text ''signed'')]\<rparr>), s', h)"
    using pair_answered by blast
  from batch_answers_every_item [OF pair_accepted this] show ?thesis by simp
qed

theorem every_batch_is_answered_witness:
  "\<exists>x s' h. batch_run demo_host pair_input new_core (replicate 101 ([], A_unit)) = (Finished x, s', h)"
  by (rule every_batch_is_answered [OF pair_accepted]) (simp add: pair_batch_def)

text \<open>C12: 
  An identity port that fails between two items turns the whole batch into a refusal: the first
  note has been signed, and the log says both were refused.
\<close>
theorem signed_item_reported_refused:
  "\<exists>s' h template. batch_run demo_host pair_input new_core cut_script
       = (Finished (Inl (SignerError Operation_failed ''Operation failed'')), s', h)
     \<and> (SignTemplate ''key'' template, A_value (V_text ''signed'')) \<in> set h
     \<and> map en_allowed (entries h) = [False, False]"
  by (simp add: batch_programs cut_script_def entries_def activity_entry_def programs demo_data pair_accepted Let_def numeral_eq_Suc split del: if_split cong: lazily)

end
