(* ===== verification/Bunker_Wire.thy ===== *)
theory Bunker_Wire
  imports Complex_Main Prelude
begin

section \<open>The remote signer server: data, options, messages, pairing links\<close>

text \<open>
  \<^verbatim>\<open>packages/identity/src/bunker/types.ts\<close>, \<^verbatim>\<open>codec.ts\<close> and \<^verbatim>\<open>uri.ts\<close>, and the constants and small
  types of \<^verbatim>\<open>server.ts\<close>. A value that comes from outside is an \<open>sval\<close>. Times are rational
  milliseconds. The code relies on these parts of other packages, which are fields of the
  configuration: the spelling of relay URLs (\<open>normalizeURL\<close>), the query parser of the platform,
  which public keys are points of the curve, the MAC over a serialised state, the check of an
  event's signature, NIP-44 and the JSON printer.
\<close>

subsection \<open>Values\<close>

datatype sval =
  S_undefined | S_null | S_bool bool | S_number rat | S_nonfinite | S_string string
| S_array "sval list" | S_object "(string, sval) obj"

fun is_objectlike :: "sval \<Rightarrow> bool" where
  "is_objectlike (S_array _) \<longleftrightarrow> True"
| "is_objectlike (S_object _) \<longleftrightarrow> True"
| "is_objectlike _ \<longleftrightarrow> False"

text \<open>Reading a property that no builtin object has.\<close>

fun sprop :: "string \<Rightarrow> sval \<Rightarrow> sval" where
  "sprop k (S_object props) = (case map_of props k of None \<Rightarrow> S_undefined | Some v \<Rightarrow> v)"
| "sprop k _ = S_undefined"

fun the_string :: "sval \<Rightarrow> string option" where
  "the_string (S_string s) = Some s"
| "the_string _ = None"

fun the_array :: "sval \<Rightarrow> sval list option" where
  "the_array (S_array xs) = Some xs"
| "the_array _ = None"

subsection \<open>Errors\<close>

text \<open>A \<open>BunkerError\<close> is text for the remote client; anything else is not.\<close>

datatype bunker_failure = Visible string | Hidden string

subsection \<open>Configuration\<close>

record BunkerRequest =
  br_request_id :: string
  br_client :: string
  br_method :: string
  br_params :: "string list"

record wire_event =
  we_id :: string
  we_pubkey :: string
  we_kind :: int
  we_tags :: "string list list"
  we_created_at :: int
  we_content :: string

record bunker =
  bk_pubkey :: string
  bk_on_curve :: "string \<Rightarrow> bool"
  bk_norm :: "string \<Rightarrow> string option"
  bk_query :: "string \<Rightarrow> (string \<times> string) list"
  bk_mac :: "sval \<Rightarrow> string option"
  bk_stringify :: "sval \<Rightarrow> string"
  bk_verify :: "wire_event \<Rightarrow> bool"
  bk_decrypt :: "string \<Rightarrow> string \<Rightarrow> sval option"
  bk_mapError :: "bunker_failure \<Rightarrow> BunkerRequest \<Rightarrow> string option"
  bk_requireSecret :: bool
  bk_secretTtlMs :: rat
  bk_maxSecrets :: nat
  bk_maxClients :: nat
  bk_maxRelaysPerClient :: nat
  bk_maxClockSkewSec :: int
  bk_seenCapacity :: nat
  bk_strangerCapacity :: nat
  bk_watched :: bool

definition defaultMapError :: "bunker_failure \<Rightarrow> BunkerRequest \<Rightarrow> string option" where
  "defaultMapError err request =
     (case err of
        Visible m \<Rightarrow> if m \<noteq> [] then Some m else Some ''request rejected''
      | Hidden _ \<Rightarrow> Some ''request rejected'')"

definition SERVER_OWNER :: string where "SERVER_OWNER = ''server''"

definition STATE_VERSION :: rat where "STATE_VERSION = 2"

text \<open>The limits a host that names none gets.\<close>

definition DEFAULTS :: "bunker \<Rightarrow> bunker" where
  "DEFAULTS cf =
     cf\<lparr>bk_mapError := defaultMapError, bk_requireSecret := True, bk_secretTtlMs := 15 * 60000, bk_maxSecrets := 256,
        bk_maxClients := 64, bk_maxRelaysPerClient := 8, bk_maxClockSkewSec := 300, bk_seenCapacity := 256,
        bk_strangerCapacity := 256\<rparr>"

subsection \<open>Recent ids\<close>

text \<open>The insertion-ordered set of \<^verbatim>\<open>server.ts\<close>: the answer says whether the key was known.\<close>

definition addIfNew :: "nat \<Rightarrow> string \<Rightarrow> string list \<Rightarrow> bool \<times> string list" where
  "addIfNew capacity key known =
     (if key \<in> set known then (True, known)
      else let grown = known @ [key] in (False, if capacity < length grown then tl grown else grown))"

subsection \<open>Requests\<close>

definition usable_id :: "sval \<Rightarrow> string option" where
  "usable_id v = (case v of S_string s \<Rightarrow> if s = [] \<or> 256 < length s then None else Some s | _ \<Rightarrow> None)"

definition param_text :: "bunker \<Rightarrow> sval \<Rightarrow> string" where
  "param_text cf p =
     (case p of
        S_string s \<Rightarrow> s
      | S_undefined \<Rightarrow> bk_stringify cf S_null
      | _ \<Rightarrow> bk_stringify cf p)"

definition parseRequest :: "bunker \<Rightarrow> string \<Rightarrow> sval \<Rightarrow> BunkerRequest option" where
  "parseRequest cf client message =
     (if \<not> is_objectlike message then None
      else case (usable_id (sprop ''id'' message), sprop ''method'' message) of
        (Some ident, S_string m) \<Rightarrow>
          if m = [] then None
          else Some \<lparr>br_request_id = ident, br_client = client, br_method = m,
                     br_params = (case sprop ''params'' message of S_array ps \<Rightarrow> map (param_text cf) ps | _ \<Rightarrow> [])\<rparr>
      | _ \<Rightarrow> None)"

definition extractId :: "sval \<Rightarrow> string option" where
  "extractId message = (if is_objectlike message then usable_id (sprop ''id'' message) else None)"

subsection \<open>Relays and pairing links\<close>

fun normalize_onto :: "bunker \<Rightarrow> string list \<Rightarrow> string list \<Rightarrow> string list option" where
  "normalize_onto cf out [] = Some out"
| "normalize_onto cf out (raw # rest) =
     (case bk_norm cf raw of
        None \<Rightarrow> None
      | Some url \<Rightarrow> normalize_onto cf (if url \<in> set out then out else out @ [url]) rest)"

definition normalizeRelays :: "bunker \<Rightarrow> string list \<Rightarrow> string list option" where
  "normalizeRelays cf urls = normalize_onto cf [] urls"

record NostrConnectUri =
  nc_client :: string
  nc_relays :: "string list"
  nc_secret :: string
  nc_perms :: "string list"
  nc_name :: "string option"
  nc_url :: "string option"
  nc_image :: "string option"

text \<open>The expression \<open>NOSTRCONNECT\<close>: its two groups.\<close>

definition nostrconnect_parts :: "string \<Rightarrow> (string \<times> string) option" where
  "nostrconnect_parts s =
     (if \<not> starts_with ''nostrconnect://'' s then None
      else let rest = drop (length ''nostrconnect://'') s; key = take 64 rest; after = drop 64 rest;
               tail = (case after of c # cs \<Rightarrow> if c = CHR ''?'' then cs else after | [] \<Rightarrow> [])
           in if length key = 64 \<and> list_all is_hex key \<and> (\<forall>c \<in> set tail. c \<noteq> CHR 0x0A \<and> c \<noteq> CHR 0x0D)
              then Some (key, tail) else None)"

definition query_first :: "string \<Rightarrow> (string \<times> string) list \<Rightarrow> string option" where
  "query_first k qs = map_of qs k"

definition query_all :: "string \<Rightarrow> (string \<times> string) list \<Rightarrow> string list" where
  "query_all k qs = map snd (filter (\<lambda>(k', _). k' = k) qs)"

definition query_optional :: "string \<Rightarrow> (string \<times> string) list \<Rightarrow> string option" where
  "query_optional k qs =
     (case query_first k qs of
        None \<Rightarrow> None
      | Some v \<Rightarrow> if js_trim v = [] then None else Some (js_trim v))"

definition parseNostrConnectUri :: "bunker \<Rightarrow> string \<Rightarrow> nat option \<Rightarrow> string + NostrConnectUri" where
  "parseNostrConnectUri cf uri maxRelays =
     (case nostrconnect_parts (js_trim uri) of
        None \<Rightarrow> Inl ''nostrconnect URI: expected nostrconnect://<client-pubkey>?relay=...&secret=...''
      | Some (key, query) \<Rightarrow>
          let qs = bk_query cf query
          in case normalize_onto cf [] (filter (\<lambda>u. u \<noteq> []) (map js_trim (query_all ''relay'' qs))) of
               None \<Rightarrow> Inl ''nostrconnect URI: invalid relay URL''
             | Some relays \<Rightarrow>
                 if relays = [] then Inl ''nostrconnect URI: at least one relay is required''
                 else if (case maxRelays of None \<Rightarrow> False | Some n \<Rightarrow> n < length relays)
                 then Inl ''nostrconnect URI: too many relays''
                 else let secret = (case query_first ''secret'' qs of None \<Rightarrow> [] | Some v \<Rightarrow> js_trim v)
                      in if secret = [] then Inl ''nostrconnect URI: secret is required''
                         else Inr \<lparr>nc_client = to_lower key, nc_relays = relays, nc_secret = secret,
                                nc_perms = filter (\<lambda>p. p \<noteq> []) (map js_trim (split_on CHR '','' (case query_first ''perms'' qs of None \<Rightarrow> [] | Some v \<Rightarrow> v))),
                                nc_name = query_optional ''name'' qs, nc_url = query_optional ''url'' qs,
                                nc_image = query_optional ''image'' qs\<rparr>)"

definition createBunkerUri_parts :: "bunker \<Rightarrow> string \<Rightarrow> string list \<Rightarrow> string \<Rightarrow> string + string \<times> (string \<times> string) list" where
  "createBunkerUri_parts cf pubkey relays secret =
     (if \<not> (length pubkey = 64 \<and> list_all is_hex pubkey) then Inl ''bunker URI: pubkey must be 64 hex chars''
      else if relays = [] then Inl ''bunker URI: at least one relay is required''
      else case normalizeRelays cf relays of
             None \<Rightarrow> Inl ''Invalid URL''
           | Some urls \<Rightarrow> Inr (to_lower pubkey, map (\<lambda>u. (''relay'', u)) urls @ (if secret = [] then [] else [(''secret'', secret)])))"

subsection \<open>Records\<close>

datatype secret_origin = FromBunker | FromNostrConnect

record SecretState =
  ss_relays :: "string list"
  ss_client :: "string option"
  ss_confirmed :: bool
  ss_pending :: int
  ss_origin :: secret_origin
  ss_expiresAt :: "rat option"

record ClientState =
  cl_connectedAt :: rat
  cl_secret :: "string option"
  cl_relays :: "string list"
  cl_seen :: "string list"

end
