(* ===== verification/Bunker_Server.thy ===== *)
theory Bunker_Server
  imports Bunker_Wire
begin

section \<open>The remote signer server: pairing and requests\<close>

text \<open>
  \<^verbatim>\<open>packages/identity/src/bunker/server.ts\<close>. The server is a record; what its methods hold across an
  \<open>await\<close> is a flight, and every stretch of code between two awaits is one step, so the steps of
  several requests interleave as they do in the event loop. A secret names a record by its
  address, because the code compares records by identity after it has waited. What is sent, asked
  and reported is a log. Sockets, reconnection and the cache of conversation keys are left out; a
  relay is listened on while its list of owners is not empty. The callbacks of the host do not
  call back.
\<close>

subsection \<open>Fields\<close>

datatype flight_kind = Connecting | Scanning | Serving | Admitted | Pairing | Leaving

record flight =
  fl_kind :: flight_kind
  fl_request :: BunkerRequest
  fl_secret :: string
  fl_record :: "nat option"
  fl_relays :: "string list"
  fl_slot :: bool
  fl_wasConnected :: bool
  fl_source :: string

text \<open>What the handler was given beside a request; it may keep it after it has answered.\<close>

record BunkerRequestContext =
  cx_client :: string
  cx_request_id :: string
  cx_relays :: "string list"
  cx_authUrlSent :: bool

text \<open>A state as it is exported, before it is signed.\<close>

record BunkerSecretRecord =
  sr_secret :: string
  sr_origin :: secret_origin
  sr_relays :: "string list"
  sr_client :: "string option"
  sr_confirmed :: bool
  sr_expiresAt :: "rat option"

record BunkerClientRecord =
  cr_client :: string
  cr_relays :: "string list"
  cr_secret :: "string option"
  cr_connectedAt :: rat

record unsigned_state =
  us_generation :: int
  us_secrets :: "BunkerSecretRecord list"
  us_clients :: "BunkerClientRecord list"

datatype bunker_effect =
  Asked BunkerRequest "string list"
| Answered string string "string + string" "string list"
| AuthUrlSent string string string "string list"
| Snapshot unsigned_state
| GenerationChanged int
| ScanEnded string "bunker_failure option"

record server =
  sv_clients :: "(string, ClientState) obj"
  sv_secrets :: "(string, nat) obj"
  sv_records :: "SecretState list"
  sv_strangers :: "(string, string list) obj"
  sv_pendingApprovals :: int
  sv_pendingAdmissions :: "(string, int) obj"
  sv_generation :: int
  sv_explicit :: bool
  sv_nextSweepAt :: "rat option"
  sv_muted :: bool
  sv_relays :: "string list"
  sv_owners :: "(string, string list) obj"
  sv_started :: bool
  sv_stopped :: bool
  sv_flights :: "(nat, flight) obj"
  sv_nextFlight :: nat
  sv_contexts :: "(nat, BunkerRequestContext) obj"
  sv_log :: "bunker_effect list"

definition record_of :: "server \<Rightarrow> nat \<Rightarrow> SecretState" where
  "record_of s a = sv_records s ! a"

definition put_record :: "nat \<Rightarrow> SecretState \<Rightarrow> server \<Rightarrow> server" where
  "put_record a r s = s\<lparr>sv_records := (sv_records s)[a := r]\<rparr>"

definition logs :: "bunker_effect \<Rightarrow> server \<Rightarrow> server" where
  "logs e s = s\<lparr>sv_log := e # sv_log s\<rparr>"

definition secret_record :: "server \<Rightarrow> string \<Rightarrow> SecretState option" where
  "secret_record s secret = map_option (record_of s) (map_of (sv_secrets s) secret)"

text \<open>The constructor; \<open>generation\<close> is whatever the host read from its keychain.\<close>

definition host_generation :: "sval \<Rightarrow> string + int" where
  "host_generation g =
     (case g of
        S_undefined \<Rightarrow> Inr 0
      | S_number q \<Rightarrow> if of_int \<lfloor>q\<rfloor> = q \<and> 0 \<le> q then Inr \<lfloor>q\<rfloor> else Inl ''generation must be a non-negative integer''
      | _ \<Rightarrow> Inl ''generation must be a non-negative integer'')"

definition BunkerServer :: "bunker \<Rightarrow> string list \<Rightarrow> sval \<Rightarrow> string + server" where
  "BunkerServer cf relays generation =
     (case host_generation generation of
        Inl e \<Rightarrow> Inl e
      | Inr g \<Rightarrow>
          if relays = [] then Inl ''BunkerServer needs at least one relay''
          else case normalizeRelays cf relays of
                 None \<Rightarrow> Inl ''Invalid URL''
               | Some urls \<Rightarrow>
                   Inr \<lparr>sv_clients = [], sv_secrets = [], sv_records = [], sv_strangers = [], sv_pendingApprovals = 0,
                        sv_pendingAdmissions = [], sv_generation = g, sv_explicit = (generation \<noteq> S_undefined),
                        sv_nextSweepAt = None, sv_muted = False, sv_relays = urls, sv_owners = [], sv_started = False,
                        sv_stopped = False, sv_flights = [], sv_nextFlight = 0, sv_contexts = [], sv_log = []\<rparr>)"

subsection \<open>Snapshots and expiry\<close>

definition secret_export :: "server \<Rightarrow> string \<times> nat \<Rightarrow> BunkerSecretRecord" where
  "secret_export s entry =
     (case entry of (secret, a) \<Rightarrow>
        let r = record_of s a
        in \<lparr>sr_secret = secret, sr_origin = ss_origin r, sr_relays = ss_relays r, sr_client = ss_client r,
            sr_confirmed = ss_confirmed r, sr_expiresAt = ss_expiresAt r\<rparr>)"

definition client_export :: "string \<times> ClientState \<Rightarrow> BunkerClientRecord" where
  "client_export entry =
     (case entry of (client, c) \<Rightarrow>
        \<lparr>cr_client = client, cr_relays = cl_relays c, cr_secret = cl_secret c, cr_connectedAt = cl_connectedAt c\<rparr>)"

definition exported :: "server \<Rightarrow> unsigned_state" where
  "exported s =
     \<lparr>us_generation = sv_generation s, us_secrets = map (secret_export s) (sv_secrets s),
      us_clients = map client_export (sv_clients s)\<rparr>"

definition before :: "rat \<Rightarrow> rat option \<Rightarrow> bool" where
  "before t limit \<longleftrightarrow> (case limit of None \<Rightarrow> True | Some n \<Rightarrow> t < n)"

fun sweep_over ::
  "rat \<Rightarrow> server \<Rightarrow> (string, nat) obj \<Rightarrow> rat option \<Rightarrow> (string, nat) obj \<times> rat option" where
  "sweep_over now s [] soonest = ([], soonest)"
| "sweep_over now s ((secret, a) # entries) soonest =
     (let r = record_of s a
      in case ss_expiresAt r of
           None \<Rightarrow> (case sweep_over now s entries soonest of (kept, n) \<Rightarrow> ((secret, a) # kept, n))
         | Some t \<Rightarrow>
             if ss_confirmed r then (case sweep_over now s entries soonest of (kept, n) \<Rightarrow> ((secret, a) # kept, n))
             else if ss_pending r = 0 \<and> t \<le> now then sweep_over now s entries soonest
             else (case sweep_over now s entries
                          (if before t soonest then Some (if ss_pending r = 0 then t else max t (now + 1000)) else soonest) of
                     (kept, n) \<Rightarrow> ((secret, a) # kept, n)))"

definition swept :: "rat \<Rightarrow> server \<Rightarrow> server" where
  "swept now s =
     (if before now (sv_nextSweepAt s) then s
      else (case sweep_over now s (sv_secrets s) None of
              (kept, n) \<Rightarrow> s\<lparr>sv_secrets := kept, sv_nextSweepAt := n\<rparr>))"

definition snapshot :: "bunker \<Rightarrow> server \<Rightarrow> server" where
  "snapshot cf s = (if bk_watched cf \<and> \<not> sv_muted s then logs (Snapshot (exported s)) s else s)"

text \<open>The sweep tells the host when it dropped something; telling the host sweeps first.\<close>

definition sweepSecrets :: "bunker \<Rightarrow> rat \<Rightarrow> server \<Rightarrow> server" where
  "sweepSecrets cf now s = (let s1 = swept now s in if sv_secrets s1 = sv_secrets s then s1 else snapshot cf s1)"

definition emit :: "bunker \<Rightarrow> rat \<Rightarrow> server \<Rightarrow> server" where
  "emit cf now s = (if bk_watched cf \<and> \<not> sv_muted s then snapshot cf (sweepSecrets cf now s) else s)"

definition exportState :: "bunker \<Rightarrow> rat \<Rightarrow> server \<Rightarrow> unsigned_state \<times> server" where
  "exportState cf now s = (let s1 = sweepSecrets cf now s in (exported s1, s1))"

definition scheduleSweep :: "rat \<Rightarrow> server \<Rightarrow> server" where
  "scheduleSweep t s = (if before t (sv_nextSweepAt s) then s\<lparr>sv_nextSweepAt := Some t\<rparr> else s)"

definition liveSecret :: "bunker \<Rightarrow> rat \<Rightarrow> string \<Rightarrow> server \<Rightarrow> nat option \<times> server" where
  "liveSecret cf now secret s =
     (case map_of (sv_secrets s) secret of
        None \<Rightarrow> (None, s)
      | Some a \<Rightarrow>
          let r = record_of s a
          in if \<not> ss_confirmed r \<and> ss_pending r = 0
                \<and> (case ss_expiresAt r of None \<Rightarrow> False | Some t \<Rightarrow> t \<le> now)
             then (None, emit cf now (s\<lparr>sv_secrets := odel secret (sv_secrets s)\<rparr>))
             else (Some a, s))"

subsection \<open>Relays and their owners\<close>

definition claim :: "string \<Rightarrow> string \<Rightarrow> server \<Rightarrow> server" where
  "claim owner url s =
     (let owners = (case map_of (sv_owners s) url of None \<Rightarrow> [] | Some os \<Rightarrow> os)
      in s\<lparr>sv_owners := oset url (if owner \<in> set owners then owners else owners @ [owner]) (sv_owners s)\<rparr>)"

definition release :: "string \<Rightarrow> string \<Rightarrow> server \<Rightarrow> server" where
  "release owner url s =
     (case map_of (sv_owners s) url of
        None \<Rightarrow> s
      | Some owners \<Rightarrow>
          let left = filter (\<lambda>o'. o' \<noteq> owner) owners
          in s\<lparr>sv_owners := (if left = [] then odel url (sv_owners s) else oset url left (sv_owners s))\<rparr>)"

definition addRelay :: "bunker \<Rightarrow> string \<Rightarrow> server \<Rightarrow> (string + unit) \<times> server" where
  "addRelay cf raw s =
     (case bk_norm cf raw of
        None \<Rightarrow> (Inl ''Invalid URL'', s)
      | Some url \<Rightarrow>
          (Inr (), claim SERVER_OWNER url (s\<lparr>sv_relays := (if url \<in> set (sv_relays s) then sv_relays s else sv_relays s @ [url])\<rparr>)))"

definition start :: "server \<Rightarrow> (string + unit) \<times> server" where
  "start s =
     (if sv_started s then (Inr (), s)
      else if sv_stopped s then (Inl ''BunkerServer cannot be restarted after stop()'', s)
      else (Inr (), fold (claim SERVER_OWNER) (sv_relays s) (s\<lparr>sv_started := True\<rparr>)))"

definition stop :: "server \<Rightarrow> server" where
  "stop s = (if sv_stopped s then s else s\<lparr>sv_stopped := True, sv_owners := []\<rparr>)"

definition relaysFor :: "string \<Rightarrow> server \<Rightarrow> string list" where
  "relaysFor client s = (case map_of (sv_clients s) client of None \<Rightarrow> [] | Some c \<Rightarrow> cl_relays c)"

definition isConnected :: "string \<Rightarrow> server \<Rightarrow> bool" where
  "isConnected client s \<longleftrightarrow> map_of (sv_clients s) client \<noteq> None"

subsection \<open>Approvals in flight\<close>

text \<open>Whether the request took an admission slot.\<close>

definition beginApproval :: "string \<Rightarrow> server \<Rightarrow> bool \<times> server" where
  "beginApproval client s =
     (let s1 = s\<lparr>sv_pendingApprovals := sv_pendingApprovals s + 1\<rparr>
      in if isConnected client s then (False, s1)
         else (True, s1\<lparr>sv_pendingAdmissions := oset client
                 ((case map_of (sv_pendingAdmissions s) client of None \<Rightarrow> 0 | Some n \<Rightarrow> n) + 1) (sv_pendingAdmissions s)\<rparr>))"

definition endApproval :: "string \<Rightarrow> bool \<Rightarrow> server \<Rightarrow> server" where
  "endApproval client tookSlot s =
     (let s1 = s\<lparr>sv_pendingApprovals := sv_pendingApprovals s - 1\<rparr>;
          left = (case map_of (sv_pendingAdmissions s) client of None \<Rightarrow> 1 | Some n \<Rightarrow> n) - 1
      in if \<not> tookSlot then s1
         else if left \<le> 0 then s1\<lparr>sv_pendingAdmissions := odel client (sv_pendingAdmissions s)\<rparr>
         else s1\<lparr>sv_pendingAdmissions := oset client left (sv_pendingAdmissions s)\<rparr>)"

definition overClientCeiling :: "bunker \<Rightarrow> string \<Rightarrow> server \<Rightarrow> bool" where
  "overClientCeiling cf client s \<longleftrightarrow>
     \<not> (isConnected client s \<or> map_of (sv_pendingAdmissions s) client \<noteq> None)
     \<and> bk_maxClients cf \<le> length (sv_clients s) + length (sv_pendingAdmissions s)"

definition roomFor :: "bunker \<Rightarrow> string \<Rightarrow> server \<Rightarrow> bool" where
  "roomFor cf client s \<longleftrightarrow> isConnected client s \<or> length (sv_clients s) < bk_maxClients cf"

definition add_pending :: "int \<Rightarrow> SecretState \<Rightarrow> SecretState" where
  "add_pending n r = r\<lparr>ss_pending := ss_pending r + n\<rparr>"

definition bind_secret ::
  "bunker \<Rightarrow> rat \<Rightarrow> string \<Rightarrow> string \<Rightarrow> string list option \<Rightarrow> string \<Rightarrow> server \<Rightarrow> (bunker_failure + nat) \<times> server" where
  "bind_secret cf now secret client relays refusal s =
     (case map_of (sv_secrets s) secret of
        Some a \<Rightarrow>
          let r = record_of s a
          in if (case ss_client r of None \<Rightarrow> False | Some c \<Rightarrow> c \<noteq> client) then (Inl (Visible refusal), s)
             else (Inr a, emit cf now (put_record a (add_pending 1 (r\<lparr>ss_client := Some client\<rparr>)) s))
      | None \<Rightarrow>
          (case relays of
             None \<Rightarrow> (Inl (Visible ''invalid secret''), s)
           | Some urls \<Rightarrow>
               let a = length (sv_records s);
                   r = \<lparr>ss_relays = urls, ss_client = Some client, ss_confirmed = False, ss_pending = 1,
                        ss_origin = FromNostrConnect, ss_expiresAt = None\<rparr>
               in (Inr a, emit cf now (s\<lparr>sv_secrets := oset secret a (sv_secrets s), sv_records := sv_records s @ [r]\<rparr>))))"

definition unbind_secret :: "bunker \<Rightarrow> rat \<Rightarrow> nat \<Rightarrow> string \<Rightarrow> server \<Rightarrow> server" where
  "unbind_secret cf now a secret s =
     (let r = add_pending (- 1) (record_of s a); s1 = put_record a r s
      in if ss_pending r \<le> 0 \<and> \<not> ss_confirmed r
         then let s2 = put_record a (r\<lparr>ss_pending := 0, ss_client := None\<rparr>) s
              in emit cf now
                   (if ss_origin r = FromNostrConnect \<and> map_of (sv_secrets s) secret = Some a
                    then s2\<lparr>sv_secrets := odel secret (sv_secrets s2)\<rparr> else s2)
         else s1)"

text \<open>
  Admission. An answer that names a point off the curve makes the derivation of the conversation
  key throw, after the dedup window of the stranger is gone.
\<close>

definition admit ::
  "bunker \<Rightarrow> rat \<Rightarrow> string \<Rightarrow> string option \<Rightarrow> string list \<Rightarrow> rat \<Rightarrow> bool \<Rightarrow> server \<Rightarrow> (bunker_failure + unit) \<times> server" where
  "admit cf now client secret relays connectedAt keyed s =
     (case normalizeRelays cf relays of
        None \<Rightarrow> (Inl (Hidden ''Invalid URL''), s)
      | Some relaySet \<Rightarrow>
          let previous = map_of (sv_clients s) client;
              known = (case previous of
                 Some c \<Rightarrow> cl_seen c
               | None \<Rightarrow> (case map_of (sv_strangers s) client of None \<Rightarrow> [] | Some w \<Rightarrow> w));
              s1 = s\<lparr>sv_strangers := odel client (sv_strangers s)\<rparr>
          in if previous = None \<and> \<not> keyed \<and> \<not> bk_on_curve cf client then (Inl (Hidden ''bad point''), s1)
             else let s2 = s1\<lparr>sv_clients := oset client
                         \<lparr>cl_connectedAt = connectedAt, cl_secret = secret, cl_relays = relaySet, cl_seen = known\<rparr> (sv_clients s)\<rparr>;
                      s3 = (case previous of
                         None \<Rightarrow> s2
                       | Some c \<Rightarrow> fold (release client) (filter (\<lambda>url. url \<notin> set relaySet) (cl_relays c)) s2);
                      s4 = emit cf now s3
                  in (Inr (), fold (claim client) relaySet s4))"

definition disconnectClient :: "bunker \<Rightarrow> rat \<Rightarrow> string \<Rightarrow> server \<Rightarrow> server" where
  "disconnectClient cf now client s =
     (case map_of (sv_clients s) client of
        None \<Rightarrow> s
      | Some c \<Rightarrow> emit cf now (fold (release client) (cl_relays c) (s\<lparr>sv_clients := odel client (sv_clients s)\<rparr>)))"

definition revokeSecret :: "bunker \<Rightarrow> rat \<Rightarrow> string \<Rightarrow> server \<Rightarrow> bool \<times> server" where
  "revokeSecret cf now secret s =
     (case map_of (sv_secrets s) secret of
        None \<Rightarrow> (False, s)
      | Some a \<Rightarrow>
          let r = record_of s a;
              s1 = s\<lparr>sv_secrets := odel secret (sv_secrets s), sv_generation := sv_generation s + 1\<rparr>;
              bound = (case ss_client r of None \<Rightarrow> False
                 | Some c \<Rightarrow> (case map_of (sv_clients s) c of None \<Rightarrow> False | Some cl \<Rightarrow> cl_secret cl = Some secret));
              s2 = (case ss_client r of
                 Some c \<Rightarrow> if bound then disconnectClient cf now c s1 else emit cf now s1
               | None \<Rightarrow> emit cf now s1)
          in (True, logs (GenerationChanged (sv_generation s2)) s2))"

fun addRelays :: "bunker \<Rightarrow> string list \<Rightarrow> server \<Rightarrow> (string + unit) \<times> server" where
  "addRelays cf [] s = (Inr (), s)"
| "addRelays cf (url # urls) s =
     (case addRelay cf url s of (Inl e, s1) \<Rightarrow> (Inl e, s1) | (Inr _, s1) \<Rightarrow> addRelays cf urls s1)"

text \<open>Issuing a pairing secret: the given one, or the fresh one a random generator made.\<close>

definition createBunkerUri ::
  "bunker \<Rightarrow> rat \<Rightarrow> string list option \<Rightarrow> string \<Rightarrow> rat option \<Rightarrow> server \<Rightarrow> (string + string) \<times> server" where
  "createBunkerUri cf now relays secret ttlMs s0 =
     (let s = sweepSecrets cf now s0
      in case normalizeRelays cf (case relays of None \<Rightarrow> sv_relays s | Some rs \<Rightarrow> if rs = [] then sv_relays s else rs) of
           None \<Rightarrow> (Inl ''Invalid URL'', s)
         | Some urls \<Rightarrow>
             (case addRelays cf urls s of
                (Inl e, s1) \<Rightarrow> (Inl e, s1)
              | (Inr _, s1) \<Rightarrow>
                  let ttl = (case ttlMs of None \<Rightarrow> bk_secretTtlMs cf | Some t \<Rightarrow> t)
                  in (case map_of (sv_secrets s1) secret of
                        Some a \<Rightarrow>
                          let r = record_of s1 a
                          in (Inr secret, emit cf now (if ss_client r = None then put_record a (r\<lparr>ss_relays := urls\<rparr>) s1 else s1))
                      | None \<Rightarrow>
                          if bk_maxSecrets cf \<le> length (sv_secrets s1) then (Inl ''too many secrets'', s1)
                          else let expiry = (if 0 < ttl then Some (now + ttl) else None);
                                   r = \<lparr>ss_relays = urls, ss_client = None, ss_confirmed = False, ss_pending = 0,
                                        ss_origin = FromBunker, ss_expiresAt = expiry\<rparr>;
                                   s2 = (case expiry of None \<Rightarrow> s1 | Some t \<Rightarrow> scheduleSweep t s1)
                               in (Inr secret, emit cf now (s2\<lparr>sv_secrets := oset secret (length (sv_records s2)) (sv_secrets s2),
                                     sv_records := sv_records s2 @ [r]\<rparr>)))))"

subsection \<open>Requests\<close>

definition wireError :: "bunker \<Rightarrow> bunker_failure \<Rightarrow> BunkerRequest \<Rightarrow> string" where
  "wireError cf err request =
     (case bk_mapError cf err request of
        None \<Rightarrow> ''request rejected''
      | Some text \<Rightarrow> if text = [] then ''request rejected'' else text)"

definition send :: "string \<Rightarrow> string \<Rightarrow> string + string \<Rightarrow> string list \<Rightarrow> server \<Rightarrow> server" where
  "send client ident outcome relays s = (if sv_stopped s then s else logs (Answered client ident outcome relays) s)"

definition fly :: "flight \<Rightarrow> server \<Rightarrow> server" where
  "fly f s = s\<lparr>sv_flights := oset (sv_nextFlight s) f (sv_flights s), sv_nextFlight := Suc (sv_nextFlight s)\<rparr>"

definition land :: "nat \<Rightarrow> server \<Rightarrow> server" where
  "land token s = s\<lparr>sv_flights := odel token (sv_flights s)\<rparr>"

definition goneMeanwhile :: "flight \<Rightarrow> server \<Rightarrow> bool" where
  "goneMeanwhile f s \<longleftrightarrow>
     fl_wasConnected f \<and> \<not> isConnected (br_client (fl_request f)) s \<and> br_method (fl_request f) \<noteq> ''connect''"

text \<open>The end of \<open>dispatch\<close>: an error, or a result.\<close>

definition respond :: "bunker \<Rightarrow> flight \<Rightarrow> bunker_failure + string \<Rightarrow> server \<Rightarrow> server" where
  "respond cf f outcome s =
     (if goneMeanwhile f s then s
      else let client = br_client (fl_request f);
               relays = (case map_of (sv_clients s) client of None \<Rightarrow> [fl_source f] | Some c \<Rightarrow> cl_relays c);
               answer = (case outcome of Inl err \<Rightarrow> Inl (wireError cf err (fl_request f)) | Inr result \<Rightarrow> Inr result);
               s1 = send client (br_request_id (fl_request f)) answer relays s
           in (case outcome of
                 Inl _ \<Rightarrow> s1
               | Inr _ \<Rightarrow> if br_method (fl_request f) = ''logout'' then fly (f\<lparr>fl_kind := Leaving\<rparr>) s1 else s1))"

text \<open>The handler is called with the request; the flight waits for it.\<close>

definition contextFor :: "flight \<Rightarrow> BunkerRequestContext" where
  "contextFor f =
     \<lparr>cx_client = br_client (fl_request f), cx_request_id = br_request_id (fl_request f), cx_relays = fl_relays f,
      cx_authUrlSent = False\<rparr>"

definition runHandler :: "flight \<Rightarrow> server \<Rightarrow> server" where
  "runHandler f s =
     fly f (logs (Asked (fl_request f) (fl_relays f))
       (s\<lparr>sv_contexts := oset (sv_nextFlight s) (contextFor f) (sv_contexts s)\<rparr>))"

definition connect :: "bunker \<Rightarrow> rat \<Rightarrow> flight \<Rightarrow> server \<Rightarrow> server" where
  "connect cf now f s =
     (let request = fl_request f; client = br_client request;
          secret = (if 1 < length (br_params request) then br_params request ! 1 else []);
          (live, s1) = (if secret = [] then (None, s) else liveSecret cf now secret s)
      in if bk_requireSecret cf \<and> live = None then respond cf f (Inl (Visible ''invalid secret'')) s1
         else if overClientCeiling cf client s1 then respond cf f (Inl (Visible ''too many clients'')) s1
         else case (if live = None then (Inr None, s1)
                    else (case bind_secret cf now secret client None ''secret already used by another client'' s1 of
                            (Inl e, s2) \<Rightarrow> (Inl e, s2) | (Inr a, s2) \<Rightarrow> (Inr (Some a), s2))) of
                (Inl e, s2) \<Rightarrow> respond cf f (Inl e) s2
              | (Inr bound, s2) \<Rightarrow>
                  let relays = (case bound of None \<Rightarrow> [fl_source f] | Some a \<Rightarrow> ss_relays (record_of s2 a));
                      (slot, s3) = beginApproval client s2
                  in runHandler (f\<lparr>fl_kind := Connecting, fl_secret := secret, fl_record := bound, fl_relays := relays,
                       fl_slot := slot\<rparr>) s3)"

definition confirm :: "nat \<Rightarrow> string list option \<Rightarrow> server \<Rightarrow> server" where
  "confirm a relays s =
     (let r = record_of s a
      in put_record a ((add_pending (- 1) r)\<lparr>ss_confirmed := True, ss_expiresAt := None,
           ss_relays := (case relays of None \<Rightarrow> ss_relays r | Some rs \<Rightarrow> rs)\<rparr>) s)"

definition drop_pending :: "nat \<Rightarrow> server \<Rightarrow> server" where
  "drop_pending a s = put_record a (add_pending (- 1) (record_of s a)) s"

definition unbind_opt :: "bunker \<Rightarrow> rat \<Rightarrow> nat option \<Rightarrow> string \<Rightarrow> server \<Rightarrow> server" where
  "unbind_opt cf now bound secret s = (case bound of None \<Rightarrow> s | Some a \<Rightarrow> unbind_secret cf now a secret s)"

definition revoked :: "nat option \<Rightarrow> string \<Rightarrow> server \<Rightarrow> bool" where
  "revoked bound secret s \<longleftrightarrow> (case bound of None \<Rightarrow> False | Some a \<Rightarrow> map_of (sv_secrets s) secret \<noteq> Some a)"

text \<open>The handler has answered a \<open>connect\<close>.\<close>

definition connected :: "bunker \<Rightarrow> rat \<Rightarrow> flight \<Rightarrow> bunker_failure + string \<Rightarrow> server \<Rightarrow> server" where
  "connected cf now f outcome s =
     (let client = br_client (fl_request f); secret = fl_secret f; bound = fl_record f;
          s1 = endApproval client (fl_slot f) s
      in case outcome of
           Inl e \<Rightarrow> respond cf f (Inl e) (unbind_opt cf now bound secret s1)
         | Inr _ \<Rightarrow>
             if revoked bound secret s1
             then respond cf f (Inl (Visible ''secret revoked'')) (drop_pending (the bound) s1)
             else if \<not> roomFor cf client s1
             then respond cf f (Inl (Visible ''too many clients'')) (unbind_opt cf now bound secret s1)
             else let s2 = (case bound of None \<Rightarrow> s1 | Some a \<Rightarrow> confirm a None s1)
                  in (case admit cf now client (if secret = [] then None else Some secret) (fl_relays f) now False s2 of
                        (Inl e, s3) \<Rightarrow> respond cf f (Inl e) s3
                      | (Inr _, s3) \<Rightarrow> fly (f\<lparr>fl_kind := Admitted\<rparr>) s3))"

definition metadata :: "NostrConnectUri \<Rightarrow> sval" where
  "metadata parsed =
     (let entry = \<lambda>k v. (case v of None \<Rightarrow> [] | Some text \<Rightarrow> [(k, S_string text)])
      in S_object (entry ''name'' (nc_name parsed) @ entry ''url'' (nc_url parsed) @ entry ''image'' (nc_image parsed)))"

text \<open>Accepting a link a client made, up to the handler and after it.\<close>

definition acceptNostrConnect :: "bunker \<Rightarrow> rat \<Rightarrow> string \<Rightarrow> string \<Rightarrow> server \<Rightarrow> (bunker_failure + unit) \<times> server" where
  "acceptNostrConnect cf now uri ident s =
     (case parseNostrConnectUri cf uri (Some (bk_maxRelaysPerClient cf)) of
        Inl m \<Rightarrow> (Inl (Hidden m), s)
      | Inr parsed \<Rightarrow>
          let client = nc_client parsed; secret = nc_secret parsed; s1 = snd (liveSecret cf now secret s)
          in if overClientCeiling cf client s1 then (Inl (Hidden ''too many clients''), s1)
             else if map_of (sv_secrets s1) secret = None \<and> bk_maxSecrets cf \<le> length (sv_secrets s1)
             then (Inl (Hidden ''too many secrets''), s1)
             else case bind_secret cf now secret client (Some (nc_relays parsed)) ''secret already in use'' s1 of
                    (Inl e, s2) \<Rightarrow> (Inl e, s2)
                  | (Inr a, s2) \<Rightarrow>
                      let request = \<lparr>br_request_id = ident, br_client = client, br_method = ''connect'',
                            br_params = [bk_pubkey cf, secret, join_with '','' (nc_perms parsed), bk_stringify cf (metadata parsed)]\<rparr>;
                          (slot, s3) = beginApproval client s2
                      in (Inr (), runHandler \<lparr>fl_kind = Scanning, fl_request = request, fl_secret = secret, fl_record = Some a,
                            fl_relays = nc_relays parsed, fl_slot = slot, fl_wasConnected = False, fl_source = []\<rparr> s3))"

definition scan_ended :: "flight \<Rightarrow> bunker_failure option \<Rightarrow> server \<Rightarrow> server" where
  "scan_ended f e s = logs (ScanEnded (br_request_id (fl_request f)) e) s"

definition scanned :: "bunker \<Rightarrow> rat \<Rightarrow> flight \<Rightarrow> bunker_failure + string \<Rightarrow> server \<Rightarrow> server" where
  "scanned cf now f outcome s =
     (let client = br_client (fl_request f); secret = fl_secret f; bound = fl_record f;
          s1 = endApproval client (fl_slot f) s
      in case outcome of
           Inl e \<Rightarrow> scan_ended f (Some e) (unbind_opt cf now bound secret s1)
         | Inr _ \<Rightarrow>
             if revoked bound secret s1 then scan_ended f (Some (Visible ''secret revoked'')) (drop_pending (the bound) s1)
             else if \<not> roomFor cf client s1
             then scan_ended f (Some (Hidden ''too many clients'')) (unbind_opt cf now bound secret s1)
             else (case admit cf now client (Some secret) (fl_relays f) now False (confirm (the bound) (Some (fl_relays f)) s1) of
                     (Inl e, s3) \<Rightarrow> scan_ended f (Some e) s3
                   | (Inr _, s3) \<Rightarrow> fly (f\<lparr>fl_kind := Pairing\<rparr>) s3))"

text \<open>The address a user has to open: at most one for a request, whenever the handler asks for it.\<close>

definition sendAuthUrl :: "nat \<Rightarrow> string \<Rightarrow> server \<Rightarrow> (string + unit) \<times> server" where
  "sendAuthUrl token url s =
     (case map_of (sv_contexts s) token of
        None \<Rightarrow> (Inr (), s)
      | Some cx \<Rightarrow>
          if cx_authUrlSent cx then (Inl ''auth_url already sent for this request'', s)
          else let s1 = s\<lparr>sv_contexts := oset token (cx\<lparr>cx_authUrlSent := True\<rparr>) (sv_contexts s)\<rparr>
               in (Inr (), if sv_stopped s then s1
                   else logs (AuthUrlSent (cx_client cx) (cx_request_id cx) url (cx_relays cx)) s1))"

definition dispatch :: "bunker \<Rightarrow> rat \<Rightarrow> BunkerRequest \<Rightarrow> string \<Rightarrow> server \<Rightarrow> server" where
  "dispatch cf now request source s =
     (let client = br_client request; wasConnected = isConnected client s;
          f = \<lparr>fl_kind = Serving, fl_request = request, fl_secret = [], fl_record = None, fl_relays = [source], fl_slot = False,
               fl_wasConnected = wasConnected, fl_source = source\<rparr>
      in if br_method request = ''ping'' then respond cf f (Inr ''pong'') s
         else if br_method request = ''connect'' then connect cf now f s
         else if \<not> wasConnected then respond cf f (Inl (Visible ''unauthorized: connect first'')) s
         else if br_method request = ''switch_relays''
         then respond cf f (Inr (bk_stringify cf (S_array (map S_string (relaysFor client s))))) s
         else runHandler (f\<lparr>fl_relays := relaysFor client s\<rparr>) s)"

text \<open>Windows of recent ids: one for each client, and a bounded number for strangers.\<close>

definition seen :: "bunker \<Rightarrow> string \<Rightarrow> string \<Rightarrow> server \<Rightarrow> bool \<times> server" where
  "seen cf pubkey key s =
     (case map_of (sv_clients s) pubkey of
        Some c \<Rightarrow>
          (case addIfNew (bk_seenCapacity cf) key (cl_seen c) of
             (known, w) \<Rightarrow> (known, s\<lparr>sv_clients := oset pubkey (c\<lparr>cl_seen := w\<rparr>) (sv_clients s)\<rparr>))
      | None \<Rightarrow>
          let windows = (case map_of (sv_strangers s) pubkey of
                Some _ \<Rightarrow> sv_strangers s
              | None \<Rightarrow> let grown = oset pubkey [] (sv_strangers s)
                        in if bk_strangerCapacity cf < length grown then tl grown else grown);
              w = (case map_of (sv_strangers s) pubkey of Some w \<Rightarrow> w | None \<Rightarrow> [])
          in (case addIfNew (bk_seenCapacity cf) key w of
                (known, w') \<Rightarrow>
                  (known, s\<lparr>sv_strangers := (if map_of windows pubkey = None then windows else oset pubkey w' windows)\<rparr>)))"

text \<open>An event from a relay.\<close>

definition nostr_connect_kind :: int where "nostr_connect_kind = 24133"

definition onEvent :: "bunker \<Rightarrow> rat \<Rightarrow> wire_event \<Rightarrow> string \<Rightarrow> server \<Rightarrow> server" where
  "onEvent cf now event source s =
     (let client = we_pubkey event
      in if sv_stopped s then s
         else if we_kind event \<noteq> nostr_connect_kind then s
         else if \<not> list_ex (\<lambda>t. 1 < length t \<and> t ! 0 = ''p'' \<and> t ! 1 = bk_pubkey cf) (we_tags event) then s
         else if \<not> bk_verify cf event then s
         else if bk_maxClockSkewSec cf < \<bar>\<lfloor>now / 1000\<rfloor> - we_created_at event\<bar> then s
         else (case seen cf client (''e:'' @ we_id event) s of
                 (True, s1) \<Rightarrow> s1
               | (False, s1) \<Rightarrow>
                   (case bk_decrypt cf client (we_content event) of
                      None \<Rightarrow> s1
                    | Some message \<Rightarrow>
                        (case parseRequest cf client message of
                           None \<Rightarrow>
                             (case extractId message of
                                None \<Rightarrow> s1
                              | Some ident \<Rightarrow> send client ident (Inl ''invalid request'') [source] s1)
                         | Some request \<Rightarrow>
                             (case seen cf client (''r:'' @ br_request_id request) s1 of
                                (True, s2) \<Rightarrow> s2
                              | (False, s2) \<Rightarrow> dispatch cf now request source s2)))))"

subsection \<open>Going on after a wait\<close>

definition settle_flight :: "bunker \<Rightarrow> rat \<Rightarrow> nat \<Rightarrow> bunker_failure + string \<Rightarrow> server \<Rightarrow> server" where
  "settle_flight cf now token outcome s =
     (case map_of (sv_flights s) token of
        None \<Rightarrow> s
      | Some f \<Rightarrow>
          (case fl_kind f of
             Connecting \<Rightarrow> connected cf now f outcome (land token s)
           | Scanning \<Rightarrow> scanned cf now f outcome (land token s)
           | Serving \<Rightarrow> respond cf f outcome (land token s)
           | _ \<Rightarrow> s))"

definition proceed :: "bunker \<Rightarrow> rat \<Rightarrow> nat \<Rightarrow> server \<Rightarrow> server" where
  "proceed cf now token s =
     (case map_of (sv_flights s) token of
        None \<Rightarrow> s
      | Some f \<Rightarrow>
          (case fl_kind f of
             Admitted \<Rightarrow> respond cf f (Inr ''ack'') (land token s)
           | Pairing \<Rightarrow>
               scan_ended f None
                 (send (br_client (fl_request f)) (br_request_id (fl_request f)) (Inr (fl_secret f)) (fl_relays f) (land token s))
           | Leaving \<Rightarrow> disconnectClient cf now (br_client (fl_request f)) (land token s)
           | _ \<Rightarrow> s))"

end
