(* ===== verification/Bunker_State.thy ===== *)
theory Bunker_State
  imports Bunker_Server
begin

section \<open>The remote signer server: its state on disk\<close>

text \<open>
  \<^verbatim>\<open>packages/identity/src/bunker/state.ts\<close>, and \<open>exportState\<close>, \<open>restore\<close> and \<open>#validateState\<close> of
  \<^verbatim>\<open>server.ts\<close>. What is restored is any value; the MAC over the JSON text of the canonical form is a
  parameter, which may fail on a value JSON cannot print.
\<close>

subsection \<open>The canonical form and its MAC\<close>

definition optional_field :: "string \<Rightarrow> sval \<Rightarrow> (string, sval) obj" where
  "optional_field k v = (if v = S_undefined then [] else [(k, v)])"

definition canonical_secret :: "sval \<Rightarrow> sval" where
  "canonical_secret r =
     S_object ([(''secret'', sprop ''secret'' r), (''origin'', sprop ''origin'' r), (''relays'', sprop ''relays'' r)]
       @ optional_field ''clientPubkey'' (sprop ''clientPubkey'' r) @ [(''confirmed'', sprop ''confirmed'' r)]
       @ optional_field ''expiresAt'' (sprop ''expiresAt'' r))"

definition canonical_client :: "sval \<Rightarrow> sval" where
  "canonical_client c =
     S_object ([(''clientPubkey'', sprop ''clientPubkey'' c), (''relays'', sprop ''relays'' c)]
       @ optional_field ''secret'' (sprop ''secret'' c) @ [(''connectedAt'', sprop ''connectedAt'' c)])"

definition array_items :: "sval \<Rightarrow> sval list" where
  "array_items v = (case v of S_array xs \<Rightarrow> xs | _ \<Rightarrow> [])"

definition canonicalState :: "sval \<Rightarrow> sval" where
  "canonicalState state =
     S_object [(''version'', sprop ''version'' state), (''connectionPubkey'', sprop ''connectionPubkey'' state),
       (''generation'', sprop ''generation'' state),
       (''secrets'', S_array (map canonical_secret (array_items (sprop ''secrets'' state)))),
       (''clients'', S_array (map canonical_client (array_items (sprop ''clients'' state))))]"

definition stateMac :: "bunker \<Rightarrow> sval \<Rightarrow> string option" where
  "stateMac cf state = bk_mac cf (canonicalState state)"

definition verifyBunkerState :: "bunker \<Rightarrow> sval \<Rightarrow> bool" where
  "verifyBunkerState cf state =
     (case sprop ''mac'' state of
        S_string mac \<Rightarrow> length mac = 64 \<and> stateMac cf state = Some mac
      | _ \<Rightarrow> False)"

subsection \<open>An exported state as a value\<close>

definition option_field :: "string \<Rightarrow> ('a \<Rightarrow> sval) \<Rightarrow> 'a option \<Rightarrow> (string, sval) obj" where
  "option_field k f v = (case v of None \<Rightarrow> [] | Some x \<Rightarrow> [(k, f x)])"

definition origin_text :: "secret_origin \<Rightarrow> string" where
  "origin_text o' = (case o' of FromBunker \<Rightarrow> ''bunker'' | FromNostrConnect \<Rightarrow> ''nostrconnect'')"

definition secret_js :: "BunkerSecretRecord \<Rightarrow> sval" where
  "secret_js r =
     S_object ([(''secret'', S_string (sr_secret r)), (''origin'', S_string (origin_text (sr_origin r))),
        (''relays'', S_array (map S_string (sr_relays r))), (''confirmed'', S_bool (sr_confirmed r))]
       @ option_field ''clientPubkey'' S_string (sr_client r) @ option_field ''expiresAt'' S_number (sr_expiresAt r))"

definition client_js :: "BunkerClientRecord \<Rightarrow> sval" where
  "client_js c =
     S_object ([(''clientPubkey'', S_string (cr_client c)), (''relays'', S_array (map S_string (cr_relays c))),
        (''connectedAt'', S_number (cr_connectedAt c))] @ option_field ''secret'' S_string (cr_secret c))"

definition unsigned_js :: "bunker \<Rightarrow> unsigned_state \<Rightarrow> (string, sval) obj" where
  "unsigned_js cf u =
     [(''version'', S_number STATE_VERSION), (''connectionPubkey'', S_string (bk_pubkey cf)),
      (''generation'', S_number (of_int (us_generation u))), (''secrets'', S_array (map secret_js (us_secrets u))),
      (''clients'', S_array (map client_js (us_clients u)))]"

definition signBunkerState :: "bunker \<Rightarrow> unsigned_state \<Rightarrow> sval option" where
  "signBunkerState cf u =
     map_option (\<lambda>mac. S_object (unsigned_js cf u @ [(''mac'', S_string mac)])) (stateMac cf (S_object (unsigned_js cf u)))"

subsection \<open>Validation\<close>

definition is_hex64_any :: "string \<Rightarrow> bool" where
  "is_hex64_any s \<longleftrightarrow> length s = 64 \<and> list_all is_hex s"

definition restored_relays :: "bunker \<Rightarrow> sval \<Rightarrow> string + string list" where
  "restored_relays cf raw =
     (case raw of
        S_array xs \<Rightarrow>
          if xs = [] \<or> list_ex (\<lambda>x. the_string x = None) xs then Inl ''needs at least one relay''
          else (case normalizeRelays cf (map (\<lambda>x. the (the_string x)) xs) of
                  None \<Rightarrow> Inl ''has an invalid relay URL''
                | Some relays \<Rightarrow> if bk_maxRelaysPerClient cf < length relays then Inl ''has too many relays'' else Inr relays)
      | _ \<Rightarrow> Inl ''needs at least one relay'')"

definition restored_pubkey :: "sval \<Rightarrow> string + string option" where
  "restored_pubkey v =
     (case v of
        S_undefined \<Rightarrow> Inr None
      | S_string s \<Rightarrow> if is_hex64_any s then Inr (Some s) else Inl ''secret clientPubkey must be 64 hex characters''
      | _ \<Rightarrow> Inl ''secret clientPubkey must be 64 hex characters'')"

definition restored_expiry :: "sval \<Rightarrow> string + rat option" where
  "restored_expiry v =
     (case v of
        S_undefined \<Rightarrow> Inr None
      | S_number q \<Rightarrow> Inr (Some q)
      | _ \<Rightarrow> Inl ''secret expiresAt must be a finite number'')"

text \<open>One secret; \<open>None\<close> when it has lapsed and is dropped.\<close>

definition restored_secret :: "bunker \<Rightarrow> rat \<Rightarrow> string list \<Rightarrow> sval \<Rightarrow> string + (string \<times> SecretState) option" where
  "restored_secret cf now taken r =
     bindE (requireE (is_objectlike r) ''secret record is not an object'') (\<lambda>_.
     bindE (case sprop ''secret'' r of
               S_string s \<Rightarrow> if s = [] \<or> 256 < length s then Inl ''secret must be a string of 1 to 256 characters'' else Inr s
             | _ \<Rightarrow> Inl ''secret must be a string of 1 to 256 characters'') (\<lambda>secret.
     bindE (requireE (secret \<notin> set taken) ''duplicate secret'') (\<lambda>_.
     bindE (if sprop ''origin'' r = S_string ''bunker'' then Inr FromBunker
             else if sprop ''origin'' r = S_string ''nostrconnect'' then Inr FromNostrConnect
             else Inl ''secret origin must be bunker or nostrconnect'') (\<lambda>origin.
     bindE (case sprop ''confirmed'' r of S_bool b \<Rightarrow> Inr b | _ \<Rightarrow> Inl ''secret confirmed must be a boolean'') (\<lambda>confirmed.
     bindE (restored_pubkey (sprop ''clientPubkey'' r)) (\<lambda>client.
     bindE (requireE (confirmed \<longrightarrow> client \<noteq> None) ''a confirmed secret needs a clientPubkey'') (\<lambda>_.
     bindE (restored_expiry (sprop ''expiresAt'' r)) (\<lambda>expiresAt.
     bindE (restored_relays cf (sprop ''relays'' r)) (\<lambda>relays.
     bindE (requireE (case client of None \<Rightarrow> True | Some c \<Rightarrow> bk_on_curve cf (to_lower c)) ''pubkey is not on the curve'') (\<lambda>_.
     if \<not> confirmed \<and> (case expiresAt of None \<Rightarrow> False | Some t \<Rightarrow> t \<le> now) then Inr None
     else Inr (Some (secret, \<lparr>ss_relays = relays, ss_client = map_option to_lower client, ss_confirmed = confirmed,
            ss_pending = 0, ss_origin = origin,
            ss_expiresAt = (if \<not> confirmed \<and> expiresAt = None \<and> 0 < bk_secretTtlMs cf then Some (now + bk_secretTtlMs cf)
                            else expiresAt)\<rparr>))))))))))))"

fun restored_secrets ::
  "bunker \<Rightarrow> rat \<Rightarrow> (string, SecretState) obj \<Rightarrow> sval list \<Rightarrow> string + (string, SecretState) obj" where
  "restored_secrets cf now known [] = Inr known"
| "restored_secrets cf now known (r # rs) =
     bindE (restored_secret cf now (okeys known) r) (\<lambda>x.
       case x of
         None \<Rightarrow> restored_secrets cf now known rs
       | Some (secret, record) \<Rightarrow> restored_secrets cf now (oset secret record known) rs)"

definition same_relays :: "string list \<Rightarrow> string list \<Rightarrow> bool" where
  "same_relays a b \<longleftrightarrow> length a = length b \<and> set a \<subseteq> set b"

record planned_client =
  pc_client :: string
  pc_secret :: "string option"
  pc_relays :: "string list"
  pc_connectedAt :: rat

definition restored_client ::
  "bunker \<Rightarrow> (string, SecretState) obj \<Rightarrow> string list \<Rightarrow> sval \<Rightarrow> string + planned_client" where
  "restored_client cf secrets taken c =
     bindE (requireE (is_objectlike c) ''client record is not an object'') (\<lambda>_.
     bindE (case sprop ''clientPubkey'' c of
               S_string s \<Rightarrow> if is_hex64_any s then Inr (to_lower s) else Inl ''client clientPubkey must be 64 hex characters''
             | _ \<Rightarrow> Inl ''client clientPubkey must be 64 hex characters'') (\<lambda>client.
     bindE (requireE (client \<notin> set taken) ''duplicate client'') (\<lambda>_.
     bindE (case sprop ''connectedAt'' c of S_number q \<Rightarrow> Inr q | _ \<Rightarrow> Inl ''client connectedAt must be a finite number'') (\<lambda>connectedAt.
     bindE (restored_relays cf (sprop ''relays'' c)) (\<lambda>relays.
     bindE (case sprop ''secret'' c of
               S_undefined \<Rightarrow> if bk_requireSecret cf then Inl ''a client needs the secret it paired with'' else Inr None
             | S_string secret \<Rightarrow>
                 (case map_of secrets secret of
                    None \<Rightarrow> Inl ''a client secret must be in the state, bound to that client and confirmed''
                  | Some r \<Rightarrow>
                      if ss_client r \<noteq> Some client \<or> \<not> ss_confirmed r
                      then Inl ''a client secret must be in the state, bound to that client and confirmed''
                      else if \<not> same_relays (ss_relays r) relays then Inl ''client relays differ from its secret relays''
                      else Inr (Some secret))
             | _ \<Rightarrow> Inl ''client secret must be a string'') (\<lambda>secret.
     bindE (requireE (bk_on_curve cf client) ''pubkey is not on the curve'') (\<lambda>_.
     Inr \<lparr>pc_client = client, pc_secret = secret, pc_relays = relays, pc_connectedAt = connectedAt\<rparr>)))))))"

fun restored_clients ::
  "bunker \<Rightarrow> (string, SecretState) obj \<Rightarrow> planned_client list \<Rightarrow> sval list \<Rightarrow> string + planned_client list" where
  "restored_clients cf secrets known [] = Inr known"
| "restored_clients cf secrets known (c # cs) =
     bindE (restored_client cf secrets (map pc_client known) c) (\<lambda>p.
       restored_clients cf secrets (known @ [p]) cs)"

definition validateState ::
  "bunker \<Rightarrow> rat \<Rightarrow> sval \<Rightarrow> string + (string, SecretState) obj \<times> planned_client list" where
  "validateState cf now state =
     (case (sprop ''secrets'' state, sprop ''clients'' state) of
        (S_array rs, S_array cs) \<Rightarrow>
          bindE (restored_secrets cf now [] rs) (\<lambda>secrets.
          bindE (requireE (length secrets \<le> bk_maxSecrets cf) ''too many secrets'') (\<lambda>_.
          bindE (restored_clients cf secrets [] cs) (\<lambda>clients.
          bindE (requireE (length clients \<le> bk_maxClients cf) ''too many clients'') (\<lambda>_.
          Inr (secrets, clients)))))
      | _ \<Rightarrow> Inl ''secrets and clients must be arrays'')"

subsection \<open>Restoring\<close>

text \<open>The generation a state speaks for, when its version and its MAC allow it to speak.\<close>

definition stored_generation :: "bunker \<Rightarrow> bool \<Rightarrow> sval \<Rightarrow> server \<Rightarrow> string + rat" where
  "stored_generation cf allowUnsigned state s =
     (if sprop ''version'' state = S_undefined \<or> sprop ''version'' state = S_number 1
      then if \<not> allowUnsigned then Inl ''state is unsigned (pre-2 format)''
           else if \<not> sv_explicit s then Inl ''allowUnsigned requires an explicit generation: 0 from the host''
           else Inr 0
      else if sprop ''version'' state = S_number 2
      then if sprop ''mac'' state = S_undefined then Inl ''a version 2 state must be signed''
           else if \<not> verifyBunkerState cf state then Inl ''state authentication failed''
           else (case sprop ''generation'' state of
                   S_number q \<Rightarrow>
                     if of_int \<lfloor>q\<rfloor> = q \<and> 0 \<le> q then Inr q else Inl ''state generation must be a non-negative integer''
                 | _ \<Rightarrow> Inl ''state generation must be a non-negative integer'')
      else Inl ''unsupported state version'')"

text \<open>The secrets to store: memory keeps the binding it has.\<close>

fun setSecrets :: "server \<Rightarrow> (string, SecretState) obj \<Rightarrow> string + (string, SecretState) obj" where
  "setSecrets s [] = Inr []"
| "setSecrets s ((secret, incoming) # rest) =
     (case Option.bind (secret_record s secret) ss_client of
        Some c \<Rightarrow>
          if ss_client incoming \<noteq> None \<and> ss_client incoming \<noteq> Some c
          then Inl ''secret is bound to a different client in memory''
          else setSecrets s rest
      | None \<Rightarrow> bindE (setSecrets s rest) (\<lambda>others. Inr ((secret, incoming) # others)))"

definition set_secret :: "string \<times> SecretState \<Rightarrow> server \<Rightarrow> server" where
  "set_secret entry s =
     (case entry of (secret, r) \<Rightarrow>
        let s1 = s\<lparr>sv_secrets := oset secret (length (sv_records s)) (sv_secrets s), sv_records := sv_records s @ [r]\<rparr>
        in case ss_expiresAt r of None \<Rightarrow> s1 | Some t \<Rightarrow> if ss_confirmed r then s1 else scheduleSweep t s1)"

fun admit_all :: "bunker \<Rightarrow> rat \<Rightarrow> planned_client list \<Rightarrow> server \<Rightarrow> bunker_failure option \<times> server" where
  "admit_all cf now [] s = (None, s)"
| "admit_all cf now (c # cs) s =
     (case admit cf now (pc_client c) (pc_secret c) (pc_relays c) (pc_connectedAt c) True s of
        (first, s1) \<Rightarrow>
          (case admit_all cf now cs s1 of
             (others, s2) \<Rightarrow> ((case first of Inl e \<Rightarrow> Some e | Inr _ \<Rightarrow> others), s2)))"

text \<open>Everything that is decided before the first mutation.\<close>

definition restore_plan ::
  "bunker \<Rightarrow> rat \<Rightarrow> bool \<Rightarrow> sval \<Rightarrow> server \<Rightarrow> string + rat \<times> (string, SecretState) obj \<times> planned_client list" where
  "restore_plan cf now allowUnsigned state s =
     bindE (requireE (is_objectlike state) ''state is not an object'') (\<lambda>_.
     bindE (stored_generation cf allowUnsigned state s) (\<lambda>generation.
     bindE (requireE (sprop ''connectionPubkey'' state = S_string (bk_pubkey cf)) ''state belongs to a different connection key'') (\<lambda>_.
     bindE (requireE (of_int (sv_generation s) \<le> generation) ''state generation is behind that of the host'') (\<lambda>_.
     bindE (requireE (sv_pendingApprovals s \<le> 0) ''approvals pending'') (\<lambda>_.
     bindE (validateState cf now state) (\<lambda>plan.
     bindE (setSecrets s (fst plan)) (\<lambda>secrets.
     let admitted = filter (\<lambda>c. \<not> isConnected (pc_client c) s) (snd plan);
         unknown = filter (\<lambda>entry. map_of (sv_secrets s) (fst entry) = None) secrets
     in bindE (requireE (length (sv_secrets s) + length unknown \<le> bk_maxSecrets cf) ''too many secrets'') (\<lambda>_.
        bindE (requireE (length (sv_clients s) + length (sv_pendingAdmissions s) + length admitted \<le> bk_maxClients cf)
                 ''too many clients'') (\<lambda>_.
        Inr (generation, secrets, admitted))))))))))"

definition setGeneration :: "int \<Rightarrow> server \<Rightarrow> server" where
  "setGeneration g s = (if g = sv_generation s then s else logs (GenerationChanged g) (s\<lparr>sv_generation := g\<rparr>))"

definition restore :: "bunker \<Rightarrow> rat \<Rightarrow> bool \<Rightarrow> sval \<Rightarrow> server \<Rightarrow> (bunker_failure + unit) \<times> server" where
  "restore cf now allowUnsigned state s =
     (case restore_plan cf now allowUnsigned state s of
        Inl refusal \<Rightarrow> (Inl (Hidden refusal), s)
      | Inr (generation, secrets, clients) \<Rightarrow>
          let s1 = fold set_secret secrets (s\<lparr>sv_muted := True\<rparr>);
              (failed, s2) = admit_all cf now clients s1;
              s3 = s2\<lparr>sv_muted := False\<rparr>;
              s4 = (if of_int (sv_generation s3) < generation then setGeneration \<lfloor>generation\<rfloor> s3 else s3)
          in (case failed of None \<Rightarrow> Inr () | Some e \<Rightarrow> Inl e, emit cf now s4))"

end
