(* ===== verification/Bunker_Steps.thy ===== *)
theory Bunker_Steps
  imports Bunker_State
begin

section \<open>The remote signer server: what can happen to it\<close>

text \<open>
  The calls of the host, the events of the relays and the answers of the handler as operations, and
  the states a server goes through. \<open>Settle\<close> is the answer of the handler, or its time limit;
  \<open>Proceed\<close> is the end of a wait for a relay. Any operation may come at any moment.
\<close>

datatype bunker_op =
  Deliver wire_event string
| Settle nat "bunker_failure + string"
| Proceed nat
| AuthUrl nat string
| Mint "string list option" string "rat option"
| Scan string string
| Revoke string
| Disconnect string
| Export
| Restore bool sval
| Listen string
| Start
| Stop

definition act :: "bunker \<Rightarrow> rat \<Rightarrow> bunker_op \<Rightarrow> server \<Rightarrow> server" where
  "act cf now op s =
     (case op of
        Deliver event source \<Rightarrow> onEvent cf now event source s
      | Settle token outcome \<Rightarrow> settle_flight cf now token outcome s
      | Proceed token \<Rightarrow> proceed cf now token s
      | AuthUrl token url \<Rightarrow> snd (sendAuthUrl token url s)
      | Mint relays secret ttl \<Rightarrow> snd (createBunkerUri cf now relays secret ttl s)
      | Scan uri ident \<Rightarrow> snd (acceptNostrConnect cf now uri ident s)
      | Revoke secret \<Rightarrow> snd (revokeSecret cf now secret s)
      | Disconnect client \<Rightarrow> disconnectClient cf now client s
      | Export \<Rightarrow> snd (exportState cf now s)
      | Restore allowUnsigned state \<Rightarrow> snd (restore cf now allowUnsigned state s)
      | Listen url \<Rightarrow> snd (addRelay cf url s)
      | Start \<Rightarrow> snd (start s)
      | Stop \<Rightarrow> stop s)"

definition acts :: "bunker \<Rightarrow> (rat \<times> bunker_op) list \<Rightarrow> server \<Rightarrow> server" where
  "acts cf ops s = fold (\<lambda>(now, op). act cf now op) ops s"

inductive bunker_runs :: "bunker \<Rightarrow> server \<Rightarrow> bool" for cf where
  built: "BunkerServer cf relays generation = Inr s \<Longrightarrow> bunker_runs cf s"
| acted: "bunker_runs cf s \<Longrightarrow> bunker_runs cf (act cf now op s)"

lemma running_acts: "bunker_runs cf s \<Longrightarrow> bunker_runs cf (acts cf ops s)"
  by (induction ops arbitrary: s) (auto simp: acts_def intro: bunker_runs.acted)

end
