(* ===== verification/Bunker_Demo.thy ===== *)
theory Bunker_Demo
  imports Bunker_Steps
begin

section \<open>The remote signer server: a run\<close>

text \<open>A host issues a secret, a client pairs with it, asks for a signature, and the secret is revoked.\<close>

definition demo_message :: "string \<Rightarrow> sval" where
  "demo_message text =
     S_object ([(''id'', S_string text),
        (''method'', S_string (if text = ''m1'' \<or> text = ''m3'' then ''connect'' else ''sign_event''))]
       @ (if text = ''m1'' then [(''params'', S_array [S_string ''srv'', S_string ''pw''])]
          else if text = ''m3'' then [(''params'', S_array [S_string ''srv'', S_string ''no''])] else []))"

definition demo_bunker :: bunker where
  "demo_bunker =
     DEFAULTS \<lparr>bk_pubkey = ''srv'', bk_on_curve = \<lambda>_. True, bk_norm = Some, bk_query = \<lambda>_. [],
       bk_mac = \<lambda>_. Some (replicate 64 CHR ''0''), bk_stringify = \<lambda>_. ''{}'', bk_verify = \<lambda>_. True,
       bk_decrypt = \<lambda>_ text. Some (demo_message text), bk_mapError = \<lambda>_ _. None, bk_requireSecret = False,
       bk_secretTtlMs = 0, bk_maxSecrets = 0, bk_maxClients = 0, bk_maxRelaysPerClient = 0, bk_maxClockSkewSec = 0,
       bk_seenCapacity = 0, bk_strangerCapacity = 0, bk_watched = True\<rparr>"

definition demo_event :: "string \<Rightarrow> string \<Rightarrow> string \<Rightarrow> wire_event" where
  "demo_event ident author text =
     \<lparr>we_id = ident, we_pubkey = author, we_kind = 24133, we_tags = [[''p'', ''srv'']], we_created_at = 0, we_content = text\<rparr>"

definition demo_built :: server where
  "demo_built =
     (case BunkerServer demo_bunker [''wss://r''] (S_number 0) of
        Inr s \<Rightarrow> s
      | Inl _ \<Rightarrow> \<lparr>sv_clients = [], sv_secrets = [], sv_records = [], sv_strangers = [], sv_pendingApprovals = 0,
           sv_pendingAdmissions = [], sv_generation = 0, sv_explicit = False, sv_nextSweepAt = None, sv_muted = False,
           sv_relays = [], sv_owners = [], sv_started = False, sv_stopped = False, sv_flights = [], sv_nextFlight = 0,
           sv_contexts = [], sv_log = []\<rparr>)"

definition alice :: string where "alice = replicate 64 CHR ''a''"

definition demo_minted :: server where
  "demo_minted = acts demo_bunker [(0, Mint None ''pw'' None)] demo_built"

definition demo_asked :: server where
  "demo_asked = acts demo_bunker [(1000, Deliver (demo_event ''e1'' alice ''m1'') ''wss://r'')] demo_minted"

definition demo_paired :: server where
  "demo_paired = acts demo_bunker [(2000, Settle 0 (Inr ''yes'')), (2000, Proceed 1)] demo_asked"

definition demo_state :: sval where
  "demo_state = the (signBunkerState demo_bunker (exported demo_paired))"

lemma demo_constructor: "BunkerServer demo_bunker [''wss://r''] (S_number 0) = Inr demo_built"
  by code_simp

lemma demo_running:
  "bunker_runs demo_bunker demo_minted" "bunker_runs demo_bunker demo_asked" "bunker_runs demo_bunker demo_paired"
  unfolding demo_minted_def demo_asked_def demo_paired_def
  by (intro running_acts bunker_runs.built [OF demo_constructor])+

end
