(* ===== verification/Bunker_Frame.thy ===== *)
theory Bunker_Frame
  imports Bunker_Demo
begin

section \<open>The remote signer server: what an operation leaves alone\<close>

text \<open>
  The fields each helper changes, and the relation \<open>evolves\<close> between two states of a server: records
  are only added, a record confirmed for a client stays so, a secret of such a record is dropped
  only when it is revoked, a name is never given an old record, the generation never falls, and
  flights are only added or ended.
\<close>

text \<open>
  The shapes of the code, choices and pairs of an answer and a state, for a predicate on servers
  that is fixed while an operation is taken apart.
\<close>

locale server_shapes =
  fixes P :: "server \<Rightarrow> bool"
begin

lemma shapes:
  "(b \<Longrightarrow> P t) \<Longrightarrow> (\<not> b \<Longrightarrow> P u) \<Longrightarrow> P (if b then t else u)"
  "(\<And>a v. P v \<Longrightarrow> P (f a v)) \<Longrightarrow> P (snd p) \<Longrightarrow> P (case p of (a, v) \<Rightarrow> f a v)"
  "(\<And>a. P (l a)) \<Longrightarrow> (\<And>a. P (r a)) \<Longrightarrow> P (case x of Inl a \<Rightarrow> l a | Inr a \<Rightarrow> r a)"
  "P n \<Longrightarrow> (\<And>a. P (o' a)) \<Longrightarrow> P (case y of None \<Rightarrow> n | Some a \<Rightarrow> o' a)"
  "P v \<Longrightarrow> P (snd (z, v))"
  "(b \<Longrightarrow> P (snd p')) \<Longrightarrow> (\<not> b \<Longrightarrow> P (snd q')) \<Longrightarrow> P (snd (if b then p' else q'))"
  "(\<And>a v. P v \<Longrightarrow> P (snd (h a v))) \<Longrightarrow> P (snd p) \<Longrightarrow> P (snd (case p of (a, v) \<Rightarrow> h a v))"
  "(\<And>a. P (snd (l' a))) \<Longrightarrow> (\<And>a. P (snd (r' a))) \<Longrightarrow> P (snd (case x of Inl a \<Rightarrow> l' a | Inr a \<Rightarrow> r' a))"
  "P (snd n') \<Longrightarrow> (\<And>a. P (snd (s' a))) \<Longrightarrow> P (snd (case y of None \<Rightarrow> n' | Some a \<Rightarrow> s' a))"
  by (cases p; auto split: sum.split option.split)+

lemma known_or_new:
  fixes k :: "bool \<times> server"
  assumes "\<And>u. P u \<Longrightarrow> P (g u)" "\<And>u. P u \<Longrightarrow> P (h u)" "P (snd k)"
  shows "P (case k of (True, u) \<Rightarrow> g u | (False, u) \<Rightarrow> h u)"
  using assms by (cases k) (auto split: bool.split)

end

named_theorems sv_fields

lemma put_record_fields [sv_fields]:
  "sv_clients (put_record a r s) = sv_clients s" "sv_secrets (put_record a r s) = sv_secrets s"
  "length (sv_records (put_record a r s)) = length (sv_records s)"
  "sv_strangers (put_record a r s) = sv_strangers s" "sv_pendingAdmissions (put_record a r s) = sv_pendingAdmissions s"
  "sv_pendingApprovals (put_record a r s) = sv_pendingApprovals s"
  "sv_generation (put_record a r s) = sv_generation s" "sv_flights (put_record a r s) = sv_flights s"
  "sv_nextFlight (put_record a r s) = sv_nextFlight s" "sv_log (put_record a r s) = sv_log s"
  "sv_stopped (put_record a r s) = sv_stopped s" "sv_muted (put_record a r s) = sv_muted s"
  "sv_explicit (put_record a r s) = sv_explicit s"
  by (simp_all add: put_record_def)

lemma record_of_put_record:
  "b < length (sv_records s) \<Longrightarrow> record_of (put_record a r s) b = (if a = b then r else record_of s b)"
  by (auto simp: put_record_def record_of_def nth_list_update)

lemma logs_fields [sv_fields]:
  "sv_clients (logs e s) = sv_clients s" "sv_secrets (logs e s) = sv_secrets s" "sv_records (logs e s) = sv_records s"
  "sv_strangers (logs e s) = sv_strangers s" "sv_pendingAdmissions (logs e s) = sv_pendingAdmissions s"
  "sv_pendingApprovals (logs e s) = sv_pendingApprovals s"
  "sv_generation (logs e s) = sv_generation s" "sv_flights (logs e s) = sv_flights s"
  "sv_nextFlight (logs e s) = sv_nextFlight s" "sv_log (logs e s) = e # sv_log s" "sv_stopped (logs e s) = sv_stopped s"
  "sv_muted (logs e s) = sv_muted s" "sv_explicit (logs e s) = sv_explicit s" "sv_nextSweepAt (logs e s) = sv_nextSweepAt s"
  by (simp_all add: logs_def)

lemma swept_fields [sv_fields]:
  "sv_clients (swept now s) = sv_clients s" "sv_records (swept now s) = sv_records s"
  "sv_strangers (swept now s) = sv_strangers s" "sv_pendingAdmissions (swept now s) = sv_pendingAdmissions s"
  "sv_pendingApprovals (swept now s) = sv_pendingApprovals s"
  "sv_generation (swept now s) = sv_generation s" "sv_flights (swept now s) = sv_flights s"
  "sv_nextFlight (swept now s) = sv_nextFlight s" "sv_log (swept now s) = sv_log s" "sv_stopped (swept now s) = sv_stopped s"
  "sv_muted (swept now s) = sv_muted s" "sv_explicit (swept now s) = sv_explicit s"
  by (simp_all add: swept_def split: prod.splits)

lemma snapshot_fields [sv_fields]:
  "sv_clients (snapshot cf s) = sv_clients s" "sv_secrets (snapshot cf s) = sv_secrets s"
  "sv_records (snapshot cf s) = sv_records s"
  "sv_strangers (snapshot cf s) = sv_strangers s" "sv_pendingAdmissions (snapshot cf s) = sv_pendingAdmissions s"
  "sv_pendingApprovals (snapshot cf s) = sv_pendingApprovals s"
  "sv_generation (snapshot cf s) = sv_generation s" "sv_flights (snapshot cf s) = sv_flights s"
  "sv_nextFlight (snapshot cf s) = sv_nextFlight s" "sv_stopped (snapshot cf s) = sv_stopped s"
  "sv_muted (snapshot cf s) = sv_muted s" "sv_explicit (snapshot cf s) = sv_explicit s"
  by (simp_all add: snapshot_def sv_fields)

lemma emit_fields [sv_fields]:
  "sv_clients (emit cf now s) = sv_clients s" "sv_records (emit cf now s) = sv_records s"
  "sv_strangers (emit cf now s) = sv_strangers s" "sv_pendingAdmissions (emit cf now s) = sv_pendingAdmissions s"
  "sv_pendingApprovals (emit cf now s) = sv_pendingApprovals s"
  "sv_generation (emit cf now s) = sv_generation s" "sv_flights (emit cf now s) = sv_flights s"
  "sv_nextFlight (emit cf now s) = sv_nextFlight s" "sv_stopped (emit cf now s) = sv_stopped s"
  "sv_muted (emit cf now s) = sv_muted s" "sv_explicit (emit cf now s) = sv_explicit s"
  by (simp_all add: emit_def sweepSecrets_def sv_fields Let_def)

lemma sweep_fields [sv_fields]:
  "sv_clients (sweepSecrets cf now s) = sv_clients s" "sv_records (sweepSecrets cf now s) = sv_records s"
  "sv_pendingAdmissions (sweepSecrets cf now s) = sv_pendingAdmissions s" "sv_pendingApprovals (sweepSecrets cf now s) = sv_pendingApprovals s"
  "sv_generation (sweepSecrets cf now s) = sv_generation s" "sv_flights (sweepSecrets cf now s) = sv_flights s"
  "sv_nextFlight (sweepSecrets cf now s) = sv_nextFlight s" "sv_strangers (sweepSecrets cf now s) = sv_strangers s"
  "sv_stopped (sweepSecrets cf now s) = sv_stopped s"
  by (simp_all add: sweepSecrets_def sv_fields Let_def)

lemma emit_secrets: "sv_secrets (emit cf now s) = (if bk_watched cf \<and> \<not> sv_muted s then sv_secrets (swept now s) else sv_secrets s)"
  by (simp add: emit_def sweepSecrets_def sv_fields Let_def)

lemma sweep_secrets: "sv_secrets (sweepSecrets cf now s) = sv_secrets (swept now s)"
  by (simp add: sweepSecrets_def sv_fields Let_def)

lemma record_of_emit [sv_fields]: "record_of (emit cf now s) a = record_of s a"
  by (simp add: record_of_def sv_fields)

lemma record_of_sweep [sv_fields]: "record_of (sweepSecrets cf now s) a = record_of s a"
  by (simp add: record_of_def sv_fields)

lemma record_of_logs [sv_fields]: "record_of (logs e s) a = record_of s a"
  by (simp add: record_of_def sv_fields)

subsection \<open>Relays touch nothing but their owners\<close>

lemma claim_fields [sv_fields]:
  "sv_clients (claim c u s) = sv_clients s" "sv_secrets (claim c u s) = sv_secrets s" "sv_records (claim c u s) = sv_records s"
  "sv_strangers (claim c u s) = sv_strangers s" "sv_pendingAdmissions (claim c u s) = sv_pendingAdmissions s"
  "sv_pendingApprovals (claim c u s) = sv_pendingApprovals s"
  "sv_generation (claim c u s) = sv_generation s" "sv_flights (claim c u s) = sv_flights s"
  "sv_nextFlight (claim c u s) = sv_nextFlight s" "sv_log (claim c u s) = sv_log s" "sv_stopped (claim c u s) = sv_stopped s"
  "sv_muted (claim c u s) = sv_muted s" "sv_nextSweepAt (claim c u s) = sv_nextSweepAt s"
  by (simp_all add: claim_def Let_def)

lemma release_fields [sv_fields]:
  "sv_clients (release c u s) = sv_clients s" "sv_secrets (release c u s) = sv_secrets s" "sv_records (release c u s) = sv_records s"
  "sv_strangers (release c u s) = sv_strangers s" "sv_pendingAdmissions (release c u s) = sv_pendingAdmissions s"
  "sv_pendingApprovals (release c u s) = sv_pendingApprovals s"
  "sv_generation (release c u s) = sv_generation s" "sv_flights (release c u s) = sv_flights s"
  "sv_nextFlight (release c u s) = sv_nextFlight s" "sv_log (release c u s) = sv_log s" "sv_stopped (release c u s) = sv_stopped s"
  "sv_muted (release c u s) = sv_muted s" "sv_nextSweepAt (release c u s) = sv_nextSweepAt s"
  by (simp_all add: release_def Let_def split: option.split)

lemma fold_claim_fields [sv_fields]:
  "sv_clients (fold (claim c) us s) = sv_clients s" "sv_secrets (fold (claim c) us s) = sv_secrets s"
  "sv_records (fold (claim c) us s) = sv_records s" "sv_strangers (fold (claim c) us s) = sv_strangers s"
  "sv_pendingAdmissions (fold (claim c) us s) = sv_pendingAdmissions s"
  "sv_pendingApprovals (fold (claim c) us s) = sv_pendingApprovals s"
  "sv_generation (fold (claim c) us s) = sv_generation s" "sv_flights (fold (claim c) us s) = sv_flights s"
  "sv_nextFlight (fold (claim c) us s) = sv_nextFlight s" "sv_log (fold (claim c) us s) = sv_log s"
  "sv_stopped (fold (claim c) us s) = sv_stopped s" "sv_muted (fold (claim c) us s) = sv_muted s"
  "sv_nextSweepAt (fold (claim c) us s) = sv_nextSweepAt s"
  by (induction us arbitrary: s) (simp_all add: sv_fields)

lemma fold_release_fields [sv_fields]:
  "sv_clients (fold (release c) us s) = sv_clients s" "sv_secrets (fold (release c) us s) = sv_secrets s"
  "sv_records (fold (release c) us s) = sv_records s" "sv_strangers (fold (release c) us s) = sv_strangers s"
  "sv_pendingAdmissions (fold (release c) us s) = sv_pendingAdmissions s"
  "sv_pendingApprovals (fold (release c) us s) = sv_pendingApprovals s"
  "sv_generation (fold (release c) us s) = sv_generation s" "sv_flights (fold (release c) us s) = sv_flights s"
  "sv_nextFlight (fold (release c) us s) = sv_nextFlight s" "sv_log (fold (release c) us s) = sv_log s"
  "sv_stopped (fold (release c) us s) = sv_stopped s" "sv_muted (fold (release c) us s) = sv_muted s"
  "sv_nextSweepAt (fold (release c) us s) = sv_nextSweepAt s"
  by (induction us arbitrary: s) (simp_all add: sv_fields)

subsection \<open>Expiry drops unclaimed secrets only\<close>

definition lapsed :: "rat \<Rightarrow> SecretState \<Rightarrow> bool" where
  "lapsed now r \<longleftrightarrow>
     \<not> ss_confirmed r \<and> ss_pending r = 0 \<and> (case ss_expiresAt r of None \<Rightarrow> False | Some t \<Rightarrow> t \<le> now)"

lemma sweep_over_filter:
  "fst (sweep_over now s entries soonest) = filter (\<lambda>(x, a). \<not> lapsed now (record_of s a)) entries"
proof (induction entries arbitrary: soonest)
  case (Cons e entries)
  have keep: "fst (case p of (k, n) \<Rightarrow> (y # k, n)) = y # fst p" for p :: "(string \<times> nat) list \<times> rat option" and y
    by (cases p) simp
  obtain x a where "e = (x, a)" by fastforce
  then show ?case
    using Cons by (cases "ss_expiresAt (record_of s a)") (simp_all add: Let_def keep, simp_all add: lapsed_def)
qed simp

lemma swept_filter:
  "sv_secrets (swept now s) =
     (if before now (sv_nextSweepAt s) then sv_secrets s
      else filter (\<lambda>(x, a). \<not> lapsed now (record_of s a)) (sv_secrets s))"
  using sweep_over_filter [of now s "sv_secrets s" None]
  by (cases "sweep_over now s (sv_secrets s) None") (simp add: swept_def)

lemma map_of_filter_wf:
  "wf_obj es \<Longrightarrow> map_of (filter P es) x = Some a \<longleftrightarrow> map_of es x = Some a \<and> P (x, a)"
  by (auto simp: wf_obj_def map_of_eq_Some_iff distinct_map_filter)

lemma swept_secrets:
  assumes "wf_obj (sv_secrets s)"
  shows "wf_obj (sv_secrets (swept now s))" "length (sv_secrets (swept now s)) \<le> length (sv_secrets s)"
    and "map_of (sv_secrets (swept now s)) x = Some a \<Longrightarrow> map_of (sv_secrets s) x = Some a"
    and "map_of (sv_secrets s) x = Some a \<Longrightarrow> ss_confirmed (record_of s a) \<or> 0 < ss_pending (record_of s a) \<Longrightarrow>
      map_of (sv_secrets (swept now s)) x = Some a"
  using assms by (auto simp: swept_filter map_of_filter_wf wf_obj_filter lapsed_def split: if_splits)

subsection \<open>How a server evolves\<close>

definition sound :: "server \<Rightarrow> bool" where
  "sound s \<longleftrightarrow> wf_obj (sv_secrets s) \<and> (\<forall>x a. map_of (sv_secrets s) x = Some a \<longrightarrow> a < length (sv_records s))
     \<and> (\<forall>token f. map_of (sv_flights s) token = Some f \<longrightarrow> token < sv_nextFlight s)"

definition keeps_record :: "SecretState \<Rightarrow> SecretState \<Rightarrow> bool" where
  "keeps_record r r' \<longleftrightarrow> (\<forall>c. ss_confirmed r \<and> ss_client r = Some c \<longrightarrow> ss_confirmed r' \<and> ss_client r' = Some c)"

definition evolves :: "string set \<Rightarrow> server \<Rightarrow> server \<Rightarrow> bool" where
  "evolves R s s' \<longleftrightarrow>
     (sound s \<longrightarrow>
       sound s' \<and> length (sv_records s) \<le> length (sv_records s')
       \<and> (\<forall>a < length (sv_records s). keeps_record (record_of s a) (record_of s' a))
       \<and> (\<forall>x a. map_of (sv_secrets s') x = Some a \<longrightarrow> map_of (sv_secrets s) x = Some a \<or> length (sv_records s) \<le> a)
       \<and> (\<forall>x a c. x \<notin> R \<and> map_of (sv_secrets s) x = Some a \<and> ss_confirmed (record_of s a) \<and> ss_client (record_of s a) = Some c
            \<longrightarrow> map_of (sv_secrets s') x = Some a)
       \<and> sv_generation s \<le> sv_generation s' \<and> sv_nextFlight s \<le> sv_nextFlight s'
       \<and> (\<forall>t f. t < sv_nextFlight s \<and> map_of (sv_flights s') t = Some f \<longrightarrow> map_of (sv_flights s) t = Some f))"

named_theorems evolving

lemma keeps_record_refl [simp]: "keeps_record r r"
  by (simp add: keeps_record_def)

interpretation evolves: server_shapes "evolves R s" for R s .

lemma evolves_refl [evolving]: "evolves R s s"
  by (simp add: evolves_def)

lemma evolves_trans:
  assumes a: "evolves R s s1" and b: "evolves R s1 s2"
  shows "evolves R s s2"
  unfolding evolves_def
proof (intro impI conjI allI; (elim conjE)?)
  assume s: "sound s"
  note A = a [unfolded evolves_def, rule_format, OF s]
  then have s1: "sound s1" by blast
  note B = b [unfolded evolves_def, rule_format, OF s1]
  show "sound s2" using B by blast
  show "length (sv_records s) \<le> length (sv_records s2)" "sv_generation s \<le> sv_generation s2"
    "sv_nextFlight s \<le> sv_nextFlight s2" using A B by linarith+
  show "keeps_record (record_of s i) (record_of s2 i)" if "i < length (sv_records s)" for i
  proof -
    have "i < length (sv_records s1)" using A that by linarith
    then show ?thesis using A B that unfolding keeps_record_def by blast
  qed
  show "map_of (sv_secrets s) x = Some i \<or> length (sv_records s) \<le> i" if "map_of (sv_secrets s2) x = Some i" for x i
    using A B that by (meson le_trans)
  show "map_of (sv_secrets s2) x = Some i"
    if "x \<notin> R" "map_of (sv_secrets s) x = Some i" "ss_confirmed (record_of s i)" "ss_client (record_of s i) = Some c" for x i c
  proof -
    have "i < length (sv_records s)" using s that by (auto simp: sound_def)
    then have "ss_confirmed (record_of s1 i)" "ss_client (record_of s1 i) = Some c"
      using A that unfolding keeps_record_def by blast+
    then show ?thesis using A B that by blast
  qed
  show "map_of (sv_flights s) t = Some f" if "t < sv_nextFlight s" "map_of (sv_flights s2) t = Some f" for t f
  proof -
    have "t < sv_nextFlight s1" using A that by linarith
    then show ?thesis using A B that by blast
  qed
qed

subsection \<open>Single changes\<close>

lemma evolves_same:
  assumes "sv_secrets t = sv_secrets s" "sv_records t = sv_records s" "sv_generation s \<le> sv_generation t"
    "sv_flights t = sv_flights s" "sv_nextFlight t = sv_nextFlight s"
  shows "evolves R s t"
  using assms by (simp add: evolves_def sound_def record_of_def)

lemma evolves_then:
  "evolves R s t \<Longrightarrow> evolves R t u \<Longrightarrow> evolves R s u"
  by (rule evolves_trans)

lemma evolves_logs [evolving]: "evolves R s t \<Longrightarrow> evolves R s (logs e t)"
  by (erule evolves_then, rule evolves_same) (simp_all add: sv_fields)

lemma evolves_fewer:
  assumes "wf_obj (sv_secrets s) \<Longrightarrow> wf_obj (sv_secrets t)"
    and "\<And>x a. wf_obj (sv_secrets s) \<Longrightarrow> map_of (sv_secrets t) x = Some a \<Longrightarrow> map_of (sv_secrets s) x = Some a"
    and "\<And>x a. wf_obj (sv_secrets s) \<Longrightarrow> map_of (sv_secrets s) x = Some a \<Longrightarrow> ss_confirmed (record_of s a) \<Longrightarrow>
      map_of (sv_secrets t) x = Some a"
    and "sv_records t = sv_records s" "sv_generation t = sv_generation s" "sv_flights t = sv_flights s"
      "sv_nextFlight t = sv_nextFlight s"
  shows "evolves R s t"
  unfolding evolves_def
proof (intro impI conjI allI; (elim conjE)?)
  assume s: "sound s"
  then have wf: "wf_obj (sv_secrets s)" by (simp add: sound_def)
  show "sound t" using s assms(1,2,4,6,7) by (auto simp: sound_def)
  show "map_of (sv_secrets s) x = Some a \<or> length (sv_records s) \<le> a" if "map_of (sv_secrets t) x = Some a" for x a
    using assms(2) [OF wf that] by simp
  show "map_of (sv_secrets t) x = Some a" if "map_of (sv_secrets s) x = Some a" "ss_confirmed (record_of s a)" for x a
    using assms(3) [OF wf that] .
qed (use assms in \<open>simp_all add: record_of_def\<close>)

lemma evolves_swept: "evolves R s (swept now s)"
  by (rule evolves_fewer [OF swept_secrets(1) swept_secrets(3) swept_secrets(4)]) (simp_all only: sv_fields simp_thms)

lemma evolves_secrets_only:
  assumes "evolves R s t" "sv_secrets u = sv_secrets t" "sv_records u = sv_records t" "sv_generation u = sv_generation t"
    "sv_flights u = sv_flights t" "sv_nextFlight u = sv_nextFlight t"
  shows "evolves R s u"
  by (rule evolves_then [OF assms(1)], rule evolves_same) (simp_all add: assms)

lemma evolves_sweep [evolving]:
  assumes "evolves R s t" shows "evolves R s (sweepSecrets cf now t)"
proof -
  have "evolves R t (sweepSecrets cf now t)"
    by (rule evolves_secrets_only [OF evolves_swept [of R t now]]) (simp_all only: sv_fields sweep_secrets)
  with assms show ?thesis by (rule evolves_then)
qed

lemma evolves_emit [evolving]:
  assumes "evolves R s t" shows "evolves R s (emit cf now t)"
proof -
  have "evolves R t (emit cf now t)"
  proof (cases "bk_watched cf \<and> \<not> sv_muted t")
    case True
    then show ?thesis
      by (intro evolves_secrets_only [OF evolves_swept [of R t now]]) (simp_all only: sv_fields emit_secrets if_True simp_thms)
  next
    case False
    then show ?thesis
      by (intro evolves_same) (simp_all only: sv_fields emit_secrets if_False order_refl)
  qed
  with assms show ?thesis by (rule evolves_then)
qed

lemma evolves_put_record [evolving]:
  assumes "evolves R s t" "keeps_record (record_of t a) r"
  shows "evolves R s (put_record a r t)"
  by (rule evolves_then [OF assms(1)])
    (use assms(2) in \<open>auto simp: evolves_def sound_def sv_fields record_of_put_record\<close>)

lemma evolves_drop:
  assumes "evolves R s t"
    and "x \<in> R \<or> (\<forall>r c. secret_record t x = Some r \<longrightarrow> \<not> (ss_confirmed r \<and> ss_client r = Some c))"
    and "sv_secrets u = odel x (sv_secrets t)" "sv_records u = sv_records t" "sv_generation t \<le> sv_generation u"
    "sv_flights u = sv_flights t" "sv_nextFlight u = sv_nextFlight t"
  shows "evolves R s u"
  by (rule evolves_then [OF assms(1)])
    (use assms(2-) in \<open>auto simp: evolves_def sound_def record_of_def secret_record_def split: if_splits\<close>)

lemma evolves_add:
  assumes "evolves R s t"
    and "\<And>r c. secret_record t x = Some r \<Longrightarrow> \<not> (ss_confirmed r \<and> ss_client r = Some c)"
    and "sv_secrets u = oset x (length (sv_records t)) (sv_secrets t)" "sv_records u = sv_records t @ [r]"
    "sv_generation u = sv_generation t" "sv_flights u = sv_flights t" "sv_nextFlight u = sv_nextFlight t"
  shows "evolves R s u"
  by (rule evolves_then [OF assms(1)])
    (use assms(2-) in \<open>auto simp: evolves_def sound_def record_of_def secret_record_def nth_append less_Suc_eq split: if_splits\<close>)

lemma evolves_fly [evolving]: "evolves R s t \<Longrightarrow> evolves R s (fly f t)"
  by (erule evolves_then) (auto simp: evolves_def fly_def sound_def record_of_def split: if_splits)

lemma evolves_land [evolving]: "evolves R s t \<Longrightarrow> evolves R s (land token t)"
  by (erule evolves_then) (auto simp: evolves_def land_def sound_def record_of_def split: if_splits)

lemma evolves_released [evolving]: "evolves R s t \<Longrightarrow> evolves R s (fold (release c) us t)"
  by (erule evolves_then, rule evolves_same) (simp_all add: sv_fields)

lemma evolves_claimed [evolving]: "evolves R s t \<Longrightarrow> evolves R s (fold (claim c) us t)"
  by (erule evolves_then, rule evolves_same) (simp_all add: sv_fields)

end
