(* ===== verification/Bunker_Evolves.thy ===== *)
theory Bunker_Evolves
  imports Bunker_Frame
begin

section \<open>The remote signer server: every operation evolves the state\<close>

text \<open>One lemma for each method of the server, up to \<open>act\<close> and sequences of operations.\<close>

lemma evolves_irrelevant [evolving]:
  "evolves R s t \<Longrightarrow> evolves R s (t\<lparr>sv_clients := cs\<rparr>)"
  "evolves R s t \<Longrightarrow> evolves R s (t\<lparr>sv_strangers := ws\<rparr>)"
  "evolves R s t \<Longrightarrow> evolves R s (t\<lparr>sv_pendingApprovals := n\<rparr>)"
  "evolves R s t \<Longrightarrow> evolves R s (t\<lparr>sv_pendingAdmissions := ps\<rparr>)"
  "evolves R s t \<Longrightarrow> evolves R s (t\<lparr>sv_nextSweepAt := tm\<rparr>)"
  "evolves R s t \<Longrightarrow> evolves R s (t\<lparr>sv_muted := b\<rparr>)"
  "evolves R s t \<Longrightarrow> evolves R s (t\<lparr>sv_contexts := cx\<rparr>)"
  "evolves R s t \<Longrightarrow> evolves R s (t\<lparr>sv_relays := rs\<rparr>)"
  "evolves R s t \<Longrightarrow> evolves R s (t\<lparr>sv_started := b\<rparr>)"
  "evolves R s t \<Longrightarrow> evolves R s (t\<lparr>sv_stopped := b\<rparr>)"
  "evolves R s t \<Longrightarrow> evolves R s (t\<lparr>sv_owners := os\<rparr>)"
  by (erule evolves_secrets_only; simp)+

lemma evolves_claim [evolving]: "evolves R s t \<Longrightarrow> evolves R s (claim c u t)"
  by (erule evolves_secrets_only) (simp_all add: sv_fields)

lemma evolves_send [evolving]: "evolves R s t \<Longrightarrow> evolves R s (send c i r us t)"
  by (simp add: send_def evolving)

lemma evolves_runHandler [evolving]: "evolves R s t \<Longrightarrow> evolves R s (runHandler f t)"
  by (simp add: runHandler_def evolving)

lemma evolves_respond [evolving]: "evolves R s t \<Longrightarrow> evolves R s (respond cf f r t)"
  by (auto simp: respond_def Let_def split: sum.split intro!: evolving)

lemma evolves_beginApproval [evolving]: "evolves R s t \<Longrightarrow> evolves R s (snd (beginApproval c t))"
  by (auto simp: beginApproval_def Let_def intro!: evolving)

lemma evolves_endApproval [evolving]: "evolves R s t \<Longrightarrow> evolves R s (endApproval c b t)"
  by (auto simp: endApproval_def Let_def intro!: evolving)

lemma evolves_scheduleSweep [evolving]: "evolves R s t \<Longrightarrow> evolves R s (scheduleSweep tm t)"
  by (simp add: scheduleSweep_def evolving)

lemma evolves_liveSecret [evolving]: "evolves R s t \<Longrightarrow> evolves R s (snd (liveSecret cf now x t))"
  by (auto simp: liveSecret_def Let_def secret_record_def split: option.split
      intro!: evolves_emit evolves_drop [where x = x and t = t])

lemma evolves_disconnectClient [evolving]: "evolves R s t \<Longrightarrow> evolves R s (disconnectClient cf now c t)"
  by (auto simp: disconnectClient_def split: option.split intro!: evolving)

lemma evolves_admit [evolving]: "evolves R s t \<Longrightarrow> evolves R s (snd (admit cf now c x us tm k t))"
  by (auto simp: admit_def Let_def split: option.split intro!: evolving)

lemma evolves_revokeSecret [evolving]:
  assumes "evolves R s t" "x \<in> R"
  shows "evolves R s (snd (revokeSecret cf now x t))"
proof (cases "map_of (sv_secrets t) x")
  case (Some a)
  let ?u = "t\<lparr>sv_secrets := odel x (sv_secrets t), sv_generation := sv_generation t + 1\<rparr>"
  have "evolves R s ?u"
    by (rule evolves_drop [OF assms(1), of x]) (use assms(2) in simp_all)
  then have "evolves R s (logs (GenerationChanged g) (disconnectClient cf now c ?u))"
    "evolves R s (logs (GenerationChanged g) (emit cf now ?u))" for g c
    by (intro evolving; assumption)+
  then show ?thesis
    using Some by (cases "ss_client (record_of t a)") (simp_all add: revokeSecret_def Let_def)
qed (simp add: revokeSecret_def assms)

lemma evolves_addRelay [evolving]: "evolves R s t \<Longrightarrow> evolves R s (snd (addRelay cf u t))"
  by (auto simp: addRelay_def split: option.split intro!: evolving)

lemma evolves_addRelays [evolving]: "evolves R s t \<Longrightarrow> evolves R s (snd (addRelays cf us t))"
proof (induction us arbitrary: t)
  case (Cons u us)
  have "evolves R s (snd (addRelay cf u t))" by (intro evolves_addRelay Cons.prems)
  then show ?case using Cons.IH by (auto split: prod.split sum.split)
qed simp

lemma keeps_unconfirmed: "\<not> ss_confirmed r \<Longrightarrow> keeps_record r r'" "ss_client r = None \<Longrightarrow> keeps_record r r'"
  by (simp_all add: keeps_record_def)

lemma evolves_createBunkerUri [evolving]:
  assumes "evolves R s t" shows "evolves R s (snd (createBunkerUri cf now rs x ttl t))"
proof -
  let ?t = "sweepSecrets cf now t"
  let ?raw = "case rs of None \<Rightarrow> sv_relays ?t | Some rs \<Rightarrow> if rs = [] then sv_relays ?t else rs"
  have t: "evolves R s ?t" by (intro evolving assms)
  show ?thesis
  proof (cases "normalizeRelays cf ?raw")
    case None
    then show ?thesis using t by (simp add: createBunkerUri_def Let_def)
  next
    case (Some urls)
    obtain r u where u: "addRelays cf urls ?t = (r, u)" by fastforce
    with evolves_addRelays [OF t, of cf urls] have eu: "evolves R s u" by simp
    let ?ttl = "case ttl of None \<Rightarrow> bk_secretTtlMs cf | Some t \<Rightarrow> t"
    let ?e = "if 0 < ?ttl then Some (now + ?ttl) else None"
    let ?v = "case ?e of None \<Rightarrow> u | Some t \<Rightarrow> scheduleSweep t u"
    have ev: "evolves R s ?v" using eu by (simp add: evolving split: option.split)
    have same: "sv_secrets ?v = sv_secrets u" "sv_records ?v = sv_records u"
      by (simp_all add: scheduleSweep_def split: option.split)
    have bound: "evolves R s (emit cf now (put_record a (record_of u a\<lparr>ss_relays := urls\<rparr>) u))" for a
      by (intro evolving eu) (simp add: keeps_record_def)
    have fresh: "evolves R s (emit cf now (?v\<lparr>sv_secrets := oset x (length (sv_records ?v)) (sv_secrets ?v),
        sv_records := sv_records ?v @ [r]\<rparr>))" if "map_of (sv_secrets u) x = None" for r
      by (intro evolves_emit evolves_add [OF ev, of x]) (use that in \<open>simp_all add: secret_record_def same\<close>)
    show ?thesis
    proof (cases r)
      case (Inl e)
      then show ?thesis using Some u eu by (simp add: createBunkerUri_def Let_def)
    next
      case (Inr w)
      then show ?thesis
        using Some u eu bound fresh evolves_emit [OF eu]
        by (cases "map_of (sv_secrets u) x") (simp_all add: createBunkerUri_def Let_def)
    qed
  qed
qed

lemma evolves_bind_secret [evolving]:
  assumes "evolves R s t" shows "evolves R s (snd (bind_secret cf now x c us m t))"
proof (cases "map_of (sv_secrets t) x")
  case None
  have "evolves R s (emit cf now (t\<lparr>sv_secrets := oset x (length (sv_records t)) (sv_secrets t), sv_records := sv_records t @ [r]\<rparr>))" for r
    by (intro evolves_emit evolves_add [OF assms, of x]) (use None in \<open>simp_all add: secret_record_def\<close>)
  with None assms show ?thesis
    by (simp add: bind_secret_def Let_def split: option.split)
next
  case (Some a)
  have "evolves R s (emit cf now (put_record a (add_pending 1 (record_of t a\<lparr>ss_client := Some c\<rparr>)) t))"
    if "\<not> (case ss_client (record_of t a) of None \<Rightarrow> False | Some d \<Rightarrow> d \<noteq> c)"
    by (intro evolving assms) (use that in \<open>auto simp: keeps_record_def add_pending_def\<close>)
  with Some assms show ?thesis by (simp add: bind_secret_def Let_def)
qed

lemma evolves_unbind_secret [evolving]:
  assumes "evolves R s t" shows "evolves R s (unbind_secret cf now a x t)"
proof -
  have kept: "evolves R s (put_record a (add_pending (- 1) (record_of t a)) t)"
    by (intro evolving assms) (simp add: keeps_record_def add_pending_def)
  let ?r = "add_pending (- 1) (record_of t a)\<lparr>ss_pending := 0, ss_client := None\<rparr>"
  let ?u = "put_record a ?r t"
  show ?thesis
  proof (cases "ss_confirmed (record_of t a)")
    case True
    with kept show ?thesis by (simp add: unbind_secret_def Let_def add_pending_def)
  next
    case False
    have u: "evolves R s ?u"
      by (intro evolving assms) (use False in \<open>simp add: keeps_record_def\<close>)
    have d: "evolves R t (?u\<lparr>sv_secrets := odel x (sv_secrets ?u)\<rparr>)" if "map_of (sv_secrets t) x = Some a"
      unfolding evolves_def
      by (use that False in \<open>auto simp: sound_def sv_fields record_of_put_record keeps_record_def record_of_def put_record_def
          nth_list_update split: if_splits\<close>)
    from u evolves_then [OF assms d] kept show ?thesis
      by (auto simp: unbind_secret_def Let_def intro!: evolves_emit)
  qed
qed

lemma evolves_unbind_opt [evolving]: "evolves R s t \<Longrightarrow> evolves R s (unbind_opt cf now b x t)"
  by (auto simp: unbind_opt_def split: option.split intro: evolving)

lemma evolves_drop_pending [evolving]: "evolves R s t \<Longrightarrow> evolves R s (drop_pending a t)"
  unfolding drop_pending_def by (intro evolving) (simp_all add: keeps_record_def add_pending_def)

lemma evolves_confirm [evolving]: "evolves R s t \<Longrightarrow> evolves R s (confirm a us t)"
  unfolding confirm_def Let_def by (intro evolving) (simp_all add: keeps_record_def add_pending_def)

lemma evolves_connect [evolving]:
  assumes "evolves R s t" shows "evolves R s (connect cf now f t)"
  unfolding connect_def Let_def by (intro evolves.shapes evolving; (rule assms | assumption)?)

lemma evolves_connected [evolving]:
  assumes "evolves R s t" shows "evolves R s (connected cf now f r t)"
  unfolding connected_def Let_def by (intro evolves.shapes evolving; (rule assms | assumption)?)

lemma evolves_acceptNostrConnect [evolving]:
  assumes "evolves R s t" shows "evolves R s (snd (acceptNostrConnect cf now uri i t))"
  unfolding acceptNostrConnect_def Let_def by (intro evolves.shapes evolving; (rule assms | assumption)?)

lemma evolves_scan_ended [evolving]: "evolves R s t \<Longrightarrow> evolves R s (scan_ended f e t)"
  by (simp add: scan_ended_def evolving)

lemma evolves_scanned [evolving]:
  assumes "evolves R s t" shows "evolves R s (scanned cf now f r t)"
  unfolding scanned_def Let_def by (intro evolves.shapes evolving; (rule assms | assumption)?)

lemma evolves_sendAuthUrl [evolving]:
  assumes "evolves R s t" shows "evolves R s (snd (sendAuthUrl n u t))"
  unfolding sendAuthUrl_def Let_def by (intro evolves.shapes evolving; (rule assms | assumption)?)

lemma evolves_dispatch [evolving]:
  assumes "evolves R s t" shows "evolves R s (dispatch cf now q src t)"
  unfolding dispatch_def Let_def by (intro evolves.shapes evolving; (rule assms | assumption)?)

lemma evolves_seen [evolving]:
  assumes "evolves R s t" shows "evolves R s (snd (seen cf p k t))"
  unfolding seen_def Let_def
  by (cases "map_of (sv_clients t) p") (auto split: prod.split intro!: evolves_irrelevant assms)

lemma evolves_onEvent [evolving]:
  assumes "evolves R s t" shows "evolves R s (onEvent cf now e src t)"
  unfolding onEvent_def Let_def by (intro evolves.known_or_new evolves.shapes evolving; (rule assms | assumption)?)

lemma evolves_settle [evolving]:
  assumes "evolves R s t" shows "evolves R s (settle_flight cf now token r t)"
  unfolding settle_flight_def
  by (cases "map_of (sv_flights t) token") (auto split: flight_kind.split intro!: evolving assms)

lemma evolves_proceed [evolving]:
  assumes "evolves R s t" shows "evolves R s (proceed cf now token t)"
  unfolding proceed_def
  by (cases "map_of (sv_flights t) token") (auto split: flight_kind.split intro!: evolving assms)

subsection \<open>Restoring\<close>

text \<open>Names that no confirmed and bound record answers for may be given a new record.\<close>

definition unheld :: "server \<Rightarrow> string \<Rightarrow> bool" where
  "unheld s x \<longleftrightarrow> (\<forall>r c. secret_record s x = Some r \<longrightarrow> \<not> (ss_confirmed r \<and> ss_client r = Some c))"

lemma set_secret_fields [sv_fields]:
  "sv_clients (set_secret e s) = sv_clients s" "sv_generation (set_secret e s) = sv_generation s"
  "sv_flights (set_secret e s) = sv_flights s" "sv_nextFlight (set_secret e s) = sv_nextFlight s"
  "sv_secrets (set_secret e s) = oset (fst e) (length (sv_records s)) (sv_secrets s)"
  "sv_records (set_secret e s) = sv_records s @ [snd e]" "sv_muted (set_secret e s) = sv_muted s"
  "sv_pendingAdmissions (set_secret e s) = sv_pendingAdmissions s"
  by (simp_all add: set_secret_def scheduleSweep_def Let_def split: prod.split option.split)

lemma unheld_set_secret: "sound s \<Longrightarrow> unheld s y \<Longrightarrow> y \<noteq> fst e \<Longrightarrow> unheld (set_secret e s) y"
  by (auto simp: unheld_def secret_record_def record_of_def sv_fields nth_append sound_def)

lemma evolves_set_secrets:
  assumes "evolves R s t" "distinct (okeys es)" "\<And>x. x \<in> set (okeys es) \<Longrightarrow> unheld t x"
  shows "evolves R s (fold set_secret es t)"
proof (cases "sound s")
  case True
  from assms show ?thesis
  proof (induction es arbitrary: t)
    case (Cons e es)
    have t: "sound t" using Cons.prems(1) True by (simp add: evolves_def)
    have "evolves R s (set_secret e t)"
      using Cons.prems(3) [of "fst e"] unfolding unheld_def
      by (intro evolves_add [OF Cons.prems(1), of "fst e"]) (simp_all add: sv_fields)
    then show ?case
      using Cons.prems(2,3) by (auto intro!: Cons.IH unheld_set_secret [OF t])
  qed simp
qed (simp add: evolves_def)

lemma setSecrets_kept:
  "setSecrets s es = Inr l \<Longrightarrow>
    set l \<subseteq> set es \<and> (distinct (okeys es) \<longrightarrow> distinct (okeys l)) \<and>
    (\<forall>x \<in> set (okeys l). Option.bind (secret_record s x) ss_client = None)"
proof (induction s es arbitrary: l rule: setSecrets.induct)
  case (2 s x incoming rest)
  show ?case
  proof (cases "Option.bind (secret_record s x) ss_client")
    case None
    with "2.prems" obtain m where m: "setSecrets s rest = Inr m" "l = (x, incoming) # m" by auto
    have "fst ` set m \<subseteq> fst ` set rest" using "2.IH"(1) [OF None m(1)] by auto
    then show ?thesis using "2.IH"(1) [OF None m(1)] m None by auto
  next
    case (Some c)
    with "2.prems" have "setSecrets s rest = Inr l" by (auto split: if_splits)
    with "2.IH"(2) [OF Some] "2.prems" Some show ?thesis by (auto split: if_splits)
  qed
qed simp

lemma restored_secrets_distinct:
  "restored_secrets cf now known rs = Inr out \<Longrightarrow> wf_obj known \<Longrightarrow> wf_obj out"
  by (induction cf now known rs rule: restored_secrets.induct) (auto split: option.splits)

lemma validateState_distinct: "validateState cf now v = Inr plan \<Longrightarrow> distinct (okeys (fst plan))"
  using restored_secrets_distinct [of cf now "[]"]
  by (auto simp: validateState_def wf_obj_def split: sval.splits)

lemma restore_planD:
  assumes "restore_plan cf now b v s = Inr (g, es, cs)"
  shows "of_int (sv_generation s) \<le> g" "sv_pendingApprovals s \<le> 0" "distinct (okeys es)" "\<And>x. x \<in> set (okeys es) \<Longrightarrow> unheld s x"
    and "stored_generation cf b v s = Inr g"
    and "length (sv_secrets s) + length (filter (\<lambda>entry. map_of (sv_secrets s) (fst entry) = None) es) \<le> bk_maxSecrets cf"
    and "length (sv_clients s) + length (sv_pendingAdmissions s) + length cs \<le> bk_maxClients cf"
proof -
  from assms obtain plan where plan: "validateState cf now v = Inr plan" "setSecrets s (fst plan) = Inr es"
    "of_int (sv_generation s) \<le> g" "sv_pendingApprovals s \<le> 0" "stored_generation cf b v s = Inr g"
    "length (sv_secrets s) + length (filter (\<lambda>entry. map_of (sv_secrets s) (fst entry) = None) es) \<le> bk_maxSecrets cf"
    "length (sv_clients s) + length (sv_pendingAdmissions s) + length cs \<le> bk_maxClients cf"
    by (auto simp: restore_plan_def Let_def)
  then show "of_int (sv_generation s) \<le> g" "sv_pendingApprovals s \<le> 0" "stored_generation cf b v s = Inr g"
    "length (sv_secrets s) + length (filter (\<lambda>entry. map_of (sv_secrets s) (fst entry) = None) es) \<le> bk_maxSecrets cf"
    "length (sv_clients s) + length (sv_pendingAdmissions s) + length cs \<le> bk_maxClients cf"
    by simp_all
  show "distinct (okeys es)" using setSecrets_kept [OF plan(2)] validateState_distinct [OF plan(1)] by simp
  show "unheld s x" if "x \<in> set (okeys es)" for x
  proof -
    have "Option.bind (secret_record s x) ss_client = None" using setSecrets_kept [OF plan(2)] that by blast
    then show ?thesis unfolding unheld_def by auto
  qed
qed

lemma evolves_admit_all [evolving]: "evolves R s t \<Longrightarrow> evolves R s (snd (admit_all cf now cs t))"
proof (induction cs arbitrary: t)
  case (Cons c cs)
  let ?p = "admit cf now (pc_client c) (pc_secret c) (pc_relays c) (pc_connectedAt c) True t"
  have "evolves R s (snd ?p)" by (intro evolving Cons.prems)
  then have "evolves R s (snd (admit_all cf now cs (snd ?p)))" by (rule Cons.IH)
  then show ?case by (simp add: case_prod_beta)
qed simp

lemma evolves_setGeneration [evolving]:
  assumes "evolves R s t" "sv_generation t \<le> g" shows "evolves R s (setGeneration g t)"
proof -
  have "evolves R t (t\<lparr>sv_generation := g\<rparr>)" using assms(2) by (intro evolves_same) simp_all
  then have "evolves R s (t\<lparr>sv_generation := g\<rparr>)" using assms(1) evolves_then by blast
  then show ?thesis using assms(1) by (simp add: setGeneration_def evolving)
qed

lemma evolves_restore [evolving]:
  assumes "evolves R s t" shows "evolves R s (snd (restore cf now b v t))"
proof (cases "restore_plan cf now b v t")
  case (Inl e)
  with assms show ?thesis by (simp add: restore_def)
next
  case (Inr plan)
  obtain g es cs where p: "plan = (g, es, cs)" by (cases plan) auto
  note plan = restore_planD [OF Inr [unfolded p]]
  let ?u = "t\<lparr>sv_muted := True\<rparr>"
  have u: "evolves R s ?u" by (intro evolving assms)
  have un: "unheld ?u x" if "x \<in> set (okeys es)" for x
    using plan(4) [OF that] by (simp add: unheld_def secret_record_def record_of_def)
  have "evolves R s (fold set_secret es ?u)"
    by (rule evolves_set_secrets [OF u plan(3) un])
  then have "evolves R s (snd (admit_all cf now cs (fold set_secret es ?u)))" by (rule evolves_admit_all)
  then have w: "evolves R s ((snd (admit_all cf now cs (fold set_secret es ?u)))\<lparr>sv_muted := False\<rparr>)" (is "evolves R s ?w")
    by (rule evolves_irrelevant)
  have "evolves R s (if of_int (sv_generation ?w) < g then setGeneration \<lfloor>g\<rfloor> ?w else ?w)"
    by (cases "of_int (sv_generation ?w) < g") (simp_all only: if_True if_False w, intro evolves_setGeneration w, linarith)
  from evolves_emit [OF this, of cf now] show ?thesis
    by (simp add: restore_def Inr p Let_def case_prod_beta split: if_splits)
qed

subsection \<open>All of them\<close>

definition revokes :: "bunker_op \<Rightarrow> string set" where
  "revokes op = (case op of Revoke x \<Rightarrow> {x} | _ \<Rightarrow> {})"

lemma evolves_start [evolving]: "evolves R s t \<Longrightarrow> evolves R s (snd (start t))"
  by (simp add: start_def evolving)

lemma evolves_stop [evolving]: "evolves R s t \<Longrightarrow> evolves R s (stop t)"
proof -
  assume "evolves R s t"
  then have "evolves R s (t\<lparr>sv_stopped := True, sv_owners := []\<rparr>)" by (intro evolving)
  with \<open>evolves R s t\<close> show ?thesis by (simp add: stop_def)
qed

lemma evolves_act [evolving]:
  assumes "evolves R s t" "revokes op \<subseteq> R" shows "evolves R s (act cf now op t)"
  using assms by (cases op) (auto simp: act_def exportState_def Let_def revokes_def intro: evolving)

lemma evolves_acts:
  "evolves R s t \<Longrightarrow> (\<Union>(now, op) \<in> set ops. revokes op) \<subseteq> R \<Longrightarrow> evolves R s (acts cf ops t)"
  by (induction ops arbitrary: t) (auto simp: acts_def intro!: evolving)

lemma sound_built: "BunkerServer cf relays generation = Inr s \<Longrightarrow> sound s"
  by (auto simp: BunkerServer_def sound_def split: sum.splits if_splits option.splits)

lemma running_sound: "bunker_runs cf s \<Longrightarrow> sound s"
proof (induction rule: bunker_runs.induct)
  case (acted s now op)
  then show ?case using evolves_act [OF evolves_refl, of op "revokes op" s cf now] by (simp add: evolves_def)
qed (rule sound_built)

end
