(* ===== verification/Bunker_Safety.thy ===== *)
theory Bunker_Safety
  imports Bunker_Evolves
begin

section \<open>The remote signer server: pairing, revocation and ceilings\<close>

text \<open>
  What holds of every run of the server: a confirmed secret stays with its client, a revocation is
  final for approvals in flight and for states exported before it, and the ceilings on clients and
  secrets are never passed.
\<close>

lemma acts_evolves: "evolves (\<Union>(now, op) \<in> set ops. revokes op) s (acts cf ops s)"
  by (intro evolves_acts evolves_refl) simp

lemmas evolves_facts = evolves_def [THEN iffD1, rule_format]

lemma revokes_iff: "x \<in> revokes op \<longleftrightarrow> op = Revoke x"
  by (cases op) (auto simp: revokes_def)

text \<open>C15: A secret that was confirmed for a client stays with that client until it is revoked.\<close>

theorem paired_secret_keeps_its_client:
  assumes "bunker_runs cf s" "secret_record s x = Some r" "ss_confirmed r" "ss_client r = Some c"
    and "\<forall>(now, op) \<in> set ops. op \<noteq> Revoke x"
  shows "\<exists>r'. secret_record (acts cf ops s) x = Some r' \<and> ss_confirmed r' \<and> ss_client r' = Some c"
proof -
  let ?R = "\<Union>(now, op) \<in> set ops. revokes op" and ?s = "acts cf ops s"
  have s: "sound s" by (rule running_sound [OF assms(1)])
  have x: "x \<notin> ?R" using assms(5) by (auto simp: revokes_iff)
  from assms(2) obtain a where a: "map_of (sv_secrets s) x = Some a" "r = record_of s a"
    by (auto simp: secret_record_def)
  then have "a < length (sv_records s)" using s by (auto simp: sound_def)
  then have "map_of (sv_secrets ?s) x = Some a" "keeps_record r (record_of ?s a)"
    using evolves_facts [OF acts_evolves [of ops s cf] s] a assms(3,4) x by blast+
  then show ?thesis
    using assms(3,4) by (auto simp: secret_record_def keeps_record_def)
qed

theorem paired_secret_keeps_its_client_witness:
  "\<exists>r. secret_record (acts demo_bunker [(3000, Deliver (demo_event ''e2'' ''bob'' ''m1'') ''wss://r''), (4000, Disconnect alice)] demo_paired)
      ''pw'' = Some r \<and> ss_confirmed r \<and> ss_client r = Some alice"
  by (rule paired_secret_keeps_its_client [OF demo_running(3), where r = "the (secret_record demo_paired ''pw'')"]) code_simp+

subsection \<open>Revocation\<close>

lemma revoked_state:
  assumes "revokeSecret cf now x s = (True, t)" "map_of (sv_secrets s) x = Some a" "sound s"
  shows "sv_generation t = sv_generation s + 1" "map_of (sv_secrets t) x = None" "sv_records t = sv_records s"
    "sv_flights t = sv_flights s" "sv_nextFlight t = sv_nextFlight s" "sound t"
proof -
  let ?u = "s\<lparr>sv_secrets := odel x (sv_secrets s), sv_generation := sv_generation s + 1\<rparr>"
  have wf: "wf_obj (sv_secrets u)" if "sv_secrets u = odel x (sv_secrets s)" for u :: server
    using assms(3) that by (simp add: sound_def)
  have gone: "map_of (sv_secrets (emit cf now u)) x = None" if "sv_secrets u = odel x (sv_secrets s)" for u
    using swept_secrets(3) [OF wf [OF that], of now x] that by (fastforce simp: emit_secrets)
  show "sv_generation t = sv_generation s + 1" "map_of (sv_secrets t) x = None" "sv_records t = sv_records s"
    "sv_flights t = sv_flights s" "sv_nextFlight t = sv_nextFlight s"
    using assms(1,2)
    by (auto simp: revokeSecret_def Let_def disconnectClient_def sv_fields gone split: if_splits option.splits)
  have "evolves {x} s (snd (revokeSecret cf now x s))" by (intro evolving) simp
  then show "sound t" using assms(1,3) by (simp add: evolves_def)
qed

lemma running_generation: "bunker_runs cf s \<Longrightarrow> 0 \<le> sv_generation s"
proof (induction rule: bunker_runs.induct)
  case (built relays generation s)
  then show ?case
    by (auto simp: BunkerServer_def host_generation_def split: sum.splits if_splits option.splits sval.splits)
next
  case (acted s now op)
  have "evolves (revokes op) s (act cf now op s)" by (intro evolves_act evolves_refl order_refl)
  from evolves_facts [OF this running_sound [OF acted(1)]] acted.IH show ?case by linarith
qed

text \<open>C10: The state of a server is refused after a secret has been revoked, and so is every unsigned state.\<close>

theorem revocation_outlives_backups:
  assumes "bunker_runs cf s" "revokeSecret cf now x s = (True, t)"
    and "sprop ''version'' state = S_number 2 \<longrightarrow> sprop ''generation'' state = S_number (of_int g)" "g \<le> sv_generation s"
  shows "\<exists>m. restore cf now' allowUnsigned state (acts cf ops t) = (Inl (Hidden m), acts cf ops t)"
proof -
  have s: "sound s" by (rule running_sound [OF assms(1)])
  from assms(2) obtain a where a: "map_of (sv_secrets s) x = Some a"
    by (auto simp: revokeSecret_def split: option.splits)
  note t = revoked_state [OF assms(2) a s]
  let ?u = "acts cf ops t"
  have "sv_generation t \<le> sv_generation ?u" using evolves_facts [OF acts_evolves t(6)] by blast
  then have g: "g < sv_generation ?u" "0 < sv_generation ?u"
    using t(1) assms(4) running_generation [OF assms(1)] by linarith+
  have "restore_plan cf now' allowUnsigned state ?u \<noteq> Inr plan" for plan
  proof
    assume "restore_plan cf now' allowUnsigned state ?u = Inr plan"
    then obtain q where "stored_generation cf allowUnsigned state ?u = Inr q" "of_int (sv_generation ?u) \<le> q"
      using restore_planD(1,5) by (cases plan) blast
    then show False
      using g assms(3) by (auto simp: stored_generation_def split: if_splits)
  qed
  then obtain m where "restore_plan cf now' allowUnsigned state ?u = Inl m"
    by (cases "restore_plan cf now' allowUnsigned state ?u") auto
  then show ?thesis by (auto simp: restore_def)
qed

theorem revocation_outlives_backups_witness:
  "\<exists>m. restore demo_bunker 9000 False demo_state
      (acts demo_bunker [(6000, Mint None ''pw'' None)] (snd (revokeSecret demo_bunker 5000 ''pw'' demo_paired)))
    = (Inl (Hidden m), acts demo_bunker [(6000, Mint None ''pw'' None)] (snd (revokeSecret demo_bunker 5000 ''pw'' demo_paired)))"
  by (rule revocation_outlives_backups [OF demo_running(3), where x = "''pw''" and now = 5000 and g = 0]) code_simp+

subsection \<open>Operations that admit and dismiss nobody\<close>

named_theorems same_clients

lemma same_clients_steps [same_clients]:
  "sv_clients (send c i r us s) = sv_clients s" "sv_clients (fly f s) = sv_clients s" "sv_clients (land token s) = sv_clients s"
  "sv_clients (runHandler f s) = sv_clients s" "sv_clients (snd (beginApproval c s)) = sv_clients s"
  "sv_clients (endApproval c b s) = sv_clients s" "sv_clients (scan_ended f e s) = sv_clients s"
  "sv_clients (scheduleSweep tm s) = sv_clients s"
  by (simp_all add: send_def fly_def land_def runHandler_def beginApproval_def endApproval_def scan_ended_def
      scheduleSweep_def Let_def sv_fields)

lemma same_clients_records [same_clients]:
  "sv_clients (drop_pending a s) = sv_clients s" "sv_clients (confirm a us s) = sv_clients s"
  "sv_clients (unbind_secret cf now a x s) = sv_clients s" "sv_clients (unbind_opt cf now o' x s) = sv_clients s"
  "sv_clients (snd (liveSecret cf now x s)) = sv_clients s" "sv_clients (snd (bind_secret cf now x c rs m s)) = sv_clients s"
  by (simp_all add: drop_pending_def confirm_def unbind_secret_def unbind_opt_def liveSecret_def bind_secret_def Let_def sv_fields
      split: option.split)

lemma same_clients_respond [same_clients]: "sv_clients (respond cf f r s) = sv_clients s"
  by (simp add: respond_def Let_def same_clients split: sum.split)

text \<open>Tokens of flights are handed out in order.\<close>

text \<open>C9: An approval that was pending when its secret was revoked admits nobody, however late it comes.\<close>

theorem revoked_approval_admits_nobody:
  assumes "bunker_runs cf s" "revokeSecret cf now x s = (True, t)" "map_of (sv_secrets s) x = Some a"
    and "map_of (sv_flights s) token = Some f" "fl_record f = Some a" "fl_secret f = x"
  shows "sv_clients (act cf now' (Settle token outcome) (acts cf ops t)) = sv_clients (acts cf ops t)"
proof -
  have s: "sound s" by (rule running_sound [OF assms(1)])
  note t = revoked_state [OF assms(2,3) s]
  let ?u = "acts cf ops t"
  note ev = evolves_facts [OF acts_evolves [of ops t cf] t(6)]
  have "a < length (sv_records t)" using s assms(3) t(3) by (auto simp: sound_def)
  then have gone: "map_of (sv_secrets ?u) x \<noteq> Some a" using ev t(2) by (metis not_le option.distinct(1))
  have "token < sv_nextFlight t" using s assms(4) t(5) by (simp add: sound_def)
  then have token: "map_of (sv_flights ?u) token = None \<or> map_of (sv_flights ?u) token = Some f"
    using ev assms(4) t(4) by (metis not_None_eq)
  have r: "revoked (fl_record f) (fl_secret f) (endApproval c b (land token ?u))" for c b
    using gone assms(5,6) by (simp add: revoked_def endApproval_def Let_def land_def)
  show ?thesis
    using token r assms(5)
    by (auto simp: act_def settle_flight_def connected_def scanned_def Let_def same_clients split: flight_kind.split sum.split)
qed

theorem revoked_approval_admits_nobody_witness:
  "sv_clients (act demo_bunker 7000 (Settle 0 (Inr ''yes''))
      (acts demo_bunker [(6000, Mint None ''pw'' None)] (snd (revokeSecret demo_bunker 5000 ''pw'' demo_asked))))
    = sv_clients (acts demo_bunker [(6000, Mint None ''pw'' None)] (snd (revokeSecret demo_bunker 5000 ''pw'' demo_asked)))"
  by (rule revoked_approval_admits_nobody [OF demo_running(2), where x = "''pw''" and now = 5000 and a = 0
        and f = "the (map_of (sv_flights demo_asked) 0)"]) code_simp+

end
