(* ===== verification/Bunker_Bounds.thy ===== *)
theory Bunker_Bounds
  imports Bunker_Safety
begin

section \<open>The remote signer server: its ceilings\<close>

text \<open>
  \<open>maxClients\<close> and \<open>maxSecrets\<close> hold in every state: who is admitted after an approval is counted
  again, a restore is counted as a whole before anything is applied.
\<close>

lemma length_oset: "length (oset k v es) = (if map_of es k = None then Suc (length es) else length es)"
  by (induction es) auto

definition capped :: "bunker \<Rightarrow> server \<Rightarrow> bool" where
  "capped cf s \<longleftrightarrow> length (sv_clients s) \<le> bk_maxClients cf \<and> length (sv_secrets s) \<le> bk_maxSecrets cf"

interpretation capped: server_shapes "capped cf" for cf .

named_theorems capping

lemma capped_fewer:
  "capped cf s \<Longrightarrow> length (sv_clients t) \<le> length (sv_clients s) \<Longrightarrow> length (sv_secrets t) \<le> length (sv_secrets s) \<Longrightarrow> capped cf t"
  by (simp add: capped_def)

lemma length_swept: "length (sv_secrets (swept now s)) \<le> length (sv_secrets s)"
  by (simp add: swept_filter)

lemma length_emit: "length (sv_secrets (emit cf now s)) \<le> length (sv_secrets s)"
  by (simp add: emit_secrets length_swept)

lemma capped_emit [capping]: "capped cf s \<Longrightarrow> capped cf (emit cf' now s)"
  by (erule capped_fewer) (simp_all add: sv_fields length_emit)

lemma capped_sweep [capping]: "capped cf s \<Longrightarrow> capped cf (sweepSecrets cf' now s)"
  by (erule capped_fewer) (simp_all add: sv_fields sweep_secrets length_swept)

lemma capped_steps [capping]:
  "capped cf s \<Longrightarrow> capped cf (put_record a r s)" "capped cf s \<Longrightarrow> capped cf (logs e s)"
  "capped cf s \<Longrightarrow> capped cf (send c i o2 us s)" "capped cf s \<Longrightarrow> capped cf (fly f s)"
  "capped cf s \<Longrightarrow> capped cf (land token s)" "capped cf s \<Longrightarrow> capped cf (claim w u s)"
  "capped cf s \<Longrightarrow> capped cf (fold (claim w) us s)" "capped cf s \<Longrightarrow> capped cf (fold (release w) us s)"
  "capped cf s \<Longrightarrow> capped cf (scheduleSweep tm s)" "capped cf s \<Longrightarrow> capped cf (snd (beginApproval c s))"
  "capped cf s \<Longrightarrow> capped cf (endApproval c b s)" "capped cf s \<Longrightarrow> capped cf (runHandler f s)"
  "capped cf s \<Longrightarrow> capped cf (scan_ended f e2 s)" "capped cf s \<Longrightarrow> capped cf (drop_pending a s)"
  "capped cf s \<Longrightarrow> capped cf (confirm a rs s)" "capped cf s \<Longrightarrow> capped cf (setGeneration g s)"
  by (simp_all add: capped_def sv_fields send_def fly_def land_def scheduleSweep_def beginApproval_def endApproval_def Let_def
      runHandler_def scan_ended_def drop_pending_def confirm_def setGeneration_def)

lemma capped_updates [capping]:
  "capped cf s \<Longrightarrow> capped cf (s\<lparr>sv_strangers := ws\<rparr>)" "capped cf s \<Longrightarrow> capped cf (s\<lparr>sv_muted := b\<rparr>)"
  "capped cf s \<Longrightarrow> capped cf (s\<lparr>sv_contexts := cx\<rparr>)" "capped cf s \<Longrightarrow> capped cf (s\<lparr>sv_relays := rs\<rparr>)"
  "capped cf s \<Longrightarrow> capped cf (s\<lparr>sv_started := b\<rparr>)" "capped cf s \<Longrightarrow> capped cf (s\<lparr>sv_stopped := b\<rparr>)"
  "capped cf s \<Longrightarrow> capped cf (s\<lparr>sv_owners := os\<rparr>)" "capped cf s \<Longrightarrow> capped cf (s\<lparr>sv_generation := g\<rparr>)"
  "capped cf s \<Longrightarrow> capped cf (s\<lparr>sv_secrets := odel x (sv_secrets s)\<rparr>)"
  "capped cf s \<Longrightarrow> capped cf (s\<lparr>sv_clients := odel c (sv_clients s)\<rparr>)"
  using length_delete_le [of x "sv_secrets s"] length_delete_le [of c "sv_clients s"] by (simp_all add: capped_def)

lemma capped_respond [capping]: "capped cf s \<Longrightarrow> capped cf (respond cf' f r s)"
  by (auto simp: respond_def Let_def split: sum.split intro!: capping)

lemma capped_liveSecret [capping]: "capped cf s \<Longrightarrow> capped cf (snd (liveSecret cf' now x s))"
  unfolding liveSecret_def Let_def by (intro capped.shapes capping; assumption?)

lemma capped_disconnect [capping]: "capped cf s \<Longrightarrow> capped cf (disconnectClient cf' now c s)"
  unfolding disconnectClient_def by (intro capped.shapes capping; assumption?)

lemma capped_revoke [capping]:
  assumes "capped cf s" shows "capped cf (snd (revokeSecret cf' now x s))"
proof -
  have "capped cf (s\<lparr>sv_secrets := odel x (sv_secrets s), sv_generation := g\<rparr>)" for g
    by (intro capping assms)
  with assms show ?thesis
    unfolding revokeSecret_def Let_def by (intro capped.shapes capping; assumption?)
qed

lemma capped_addRelay [capping]: "capped cf s \<Longrightarrow> capped cf (snd (addRelay cf' u s))"
  unfolding addRelay_def by (intro capped.shapes capping; assumption?)

lemma capped_addRelays [capping]: "capped cf s \<Longrightarrow> capped cf (snd (addRelays cf' us s))"
proof (induction us arbitrary: s)
  case (Cons u us)
  have "capped cf (snd (addRelay cf' u s))" by (intro capping Cons.prems)
  then show ?case using Cons.IH by (auto split: prod.split sum.split)
qed simp

lemma capped_add:
  assumes "capped cf s" "length (sv_secrets s) < bk_maxSecrets cf" "sv_clients t = sv_clients s"
    "sv_secrets t = oset x a (sv_secrets s)"
  shows "capped cf t"
  using assms by (simp add: capped_def length_oset)

lemma capped_bind [capping]:
  assumes "capped cf s" "rs \<noteq> None \<longrightarrow> map_of (sv_secrets s) x = None \<longrightarrow> length (sv_secrets s) < bk_maxSecrets cf"
  shows "capped cf (snd (bind_secret cf' now x c rs m s))"
proof (cases "map_of (sv_secrets s) x")
  case None
  then have "capped cf (emit cf' now (s\<lparr>sv_secrets := oset x a (sv_secrets s), sv_records := r\<rparr>))" if "rs \<noteq> None" for a r
    using that assms(2) by (intro capped_emit capped_add [OF assms(1), of _ x a]) simp_all
  with None assms(1) show ?thesis by (simp add: bind_secret_def Let_def split: option.split)
next
  case (Some a)
  with assms(1) show ?thesis by (simp add: bind_secret_def Let_def capping)
qed

lemma capped_unbind [capping]:
  assumes "capped cf s" shows "capped cf (unbind_secret cf' now a x s)"
  unfolding unbind_secret_def Let_def by (intro capped.shapes capping assms)

lemma capped_unbind_opt [capping]: "capped cf s \<Longrightarrow> capped cf (unbind_opt cf' now b x s)"
  by (auto simp: unbind_opt_def split: option.split intro: capping)

lemma capped_admit [capping]:
  assumes "capped cf s" "roomFor cf c s" shows "capped cf (snd (admit cf' now c x us tm k s))"
proof -
  have "capped cf (s\<lparr>sv_strangers := ws, sv_clients := oset c w (sv_clients s)\<rparr>)" for ws w
    using assms by (auto simp: capped_def length_oset roomFor_def isConnected_def)
  then show ?thesis
    using assms(1) unfolding admit_def Let_def
    by (cases "map_of (sv_clients s) c"; cases "normalizeRelays cf' us") (auto intro!: capping)
qed

lemma capped_seen [capping]: "capped cf s \<Longrightarrow> capped cf (snd (seen cf' p k s))"
  by (cases "map_of (sv_clients s) p") (auto simp: seen_def Let_def capped_def length_oset split: prod.split)

lemma capped_createBunkerUri [capping]:
  assumes "capped cf s" shows "capped cf (snd (createBunkerUri cf now rs x ttl s))"
proof -
  have add: "capped cf (emit cf now (u\<lparr>sv_secrets := oset x a (sv_secrets u), sv_records := r\<rparr>))"
    if "capped cf u" "length (sv_secrets u) < bk_maxSecrets cf" for u a r
    by (intro capped_emit capped_add [OF that, of _ x a]) simp_all
  have same: "sv_secrets (case e of None \<Rightarrow> u | Some t \<Rightarrow> scheduleSweep t u) = sv_secrets u" for e u
    by (simp add: scheduleSweep_def split: option.split)
  show ?thesis
    unfolding createBunkerUri_def Let_def
    by (intro capped.shapes capping add assms; (assumption | simp only: same not_le)?)
qed

lemma capped_connect [capping]:
  assumes "capped cf s" shows "capped cf (connect cf' now f s)"
  unfolding connect_def Let_def by (intro capped.shapes capping assms; (assumption | simp)?)

lemma capped_connected [capping]:
  assumes "capped cf s" shows "capped cf (connected cf now f r s)"
  unfolding connected_def Let_def
  by (intro capped.shapes capping assms; (assumption | simp add: roomFor_def isConnected_def same_clients split: option.split)?)

lemma capped_acceptNostrConnect [capping]:
  assumes "capped cf s" shows "capped cf (snd (acceptNostrConnect cf now uri i s))"
  unfolding acceptNostrConnect_def Let_def by (intro capped.shapes capping assms; (assumption | force simp: not_le)?)

lemma capped_scanned [capping]:
  assumes "capped cf s" shows "capped cf (scanned cf now f r s)"
  unfolding scanned_def Let_def
  by (intro capped.shapes capping assms; (assumption | simp add: roomFor_def isConnected_def same_clients)?)

lemma capped_dispatch [capping]: "capped cf s \<Longrightarrow> capped cf (dispatch cf' now q src s)"
  unfolding dispatch_def Let_def by (intro capped.shapes capping; assumption?)

lemma capped_onEvent [capping]:
  assumes "capped cf s" shows "capped cf (onEvent cf' now e src s)"
  unfolding onEvent_def Let_def by (intro capped.known_or_new capped.shapes capping assms; assumption?)

lemma capped_settle [capping]: "capped cf s \<Longrightarrow> capped cf (settle_flight cf now token r s)"
  unfolding settle_flight_def
  by (cases "map_of (sv_flights s) token") (auto split: flight_kind.split intro!: capping)

lemma capped_proceed [capping]: "capped cf s \<Longrightarrow> capped cf (proceed cf now token s)"
  unfolding proceed_def
  by (cases "map_of (sv_flights s) token") (auto split: flight_kind.split intro!: capping)

text \<open>What a restore adds.\<close>

lemma length_set_secrets:
  "distinct (okeys es) \<Longrightarrow>
    length (sv_secrets (fold set_secret es s)) =
      length (sv_secrets s) + length (filter (\<lambda>e. map_of (sv_secrets s) (fst e) = None) es)"
proof (induction es arbitrary: s)
  case (Cons e es)
  have "fst e \<notin> fst ` set es" using Cons.prems by simp
  then have "fst e' \<noteq> fst e" if "e' \<in> set es" for e'
    using imageI [OF that, of fst] by metis
  then have "filter (\<lambda>e'. map_of (sv_secrets (set_secret e s)) (fst e') = None) es = filter (\<lambda>e'. map_of (sv_secrets s) (fst e') = None) es"
    by (intro filter_cong) (simp_all add: sv_fields)
  with Cons show ?case by (simp add: length_oset sv_fields)
qed simp

lemma fold_set_secret_clients [same_clients]: "sv_clients (fold set_secret es s) = sv_clients s"
  by (induction es arbitrary: s) (simp_all add: sv_fields)

lemma admit_sizes:
  "length (sv_clients (snd (admit cf now c x us tm k s))) \<le> Suc (length (sv_clients s))"
  "length (sv_secrets (snd (admit cf now c x us tm k s))) \<le> length (sv_secrets s)"
proof -
  show "length (sv_clients (snd (admit cf now c x us tm k s))) \<le> Suc (length (sv_clients s))"
    by (simp add: admit_def Let_def sv_fields length_oset split: option.split)
  have "length (sv_secrets (emit cf now t)) \<le> length (sv_secrets s)" if "sv_secrets t = sv_secrets s" for t
    using length_emit [of cf now t] that by simp
  then show "length (sv_secrets (snd (admit cf now c x us tm k s))) \<le> length (sv_secrets s)"
    by (simp add: admit_def Let_def sv_fields split: option.split)
qed

lemma admit_all_sizes:
  "length (sv_clients (snd (admit_all cf now cs s))) \<le> length (sv_clients s) + length cs
    \<and> length (sv_secrets (snd (admit_all cf now cs s))) \<le> length (sv_secrets s)"
proof (induction cs arbitrary: s)
  case (Cons c cs)
  let ?t = "snd (admit cf now (pc_client c) (pc_secret c) (pc_relays c) (pc_connectedAt c) True s)"
  have "snd (admit_all cf now (c # cs) s) = snd (admit_all cf now cs ?t)" by (simp add: case_prod_beta)
  moreover have "length (sv_clients ?t) \<le> Suc (length (sv_clients s))" "length (sv_secrets ?t) \<le> length (sv_secrets s)"
    by (rule admit_sizes)+
  ultimately show ?case using Cons [of ?t] by simp
qed simp

lemma capped_restore [capping]:
  assumes "capped cf s" shows "capped cf (snd (restore cf now b v s))"
proof (cases "restore_plan cf now b v s")
  case (Inl e)
  with assms show ?thesis by (simp add: restore_def)
next
  case (Inr plan)
  obtain g es cs where p: "plan = (g, es, cs)" by (cases plan) auto
  note plan = restore_planD [OF Inr [unfolded p]]
  let ?u = "fold set_secret es (s\<lparr>sv_muted := True\<rparr>)"
  have "length (sv_secrets ?u) \<le> bk_maxSecrets cf" "sv_clients ?u = sv_clients s"
    using length_set_secrets [OF plan(3), of "s\<lparr>sv_muted := True\<rparr>"] plan(6) by (simp_all add: same_clients)
  then have w: "capped cf (snd (admit_all cf now cs ?u))"
    using admit_all_sizes [of cf now cs ?u] plan(7) by (simp add: capped_def)
  then have "capped cf (emit cf now (setGeneration g' ((snd (admit_all cf now cs ?u))\<lparr>sv_muted := False\<rparr>)))"
    "capped cf (emit cf now ((snd (admit_all cf now cs ?u))\<lparr>sv_muted := False\<rparr>))" for g'
    by (intro capping; assumption)+
  then show ?thesis
    by (simp add: restore_def Inr p Let_def case_prod_beta)
qed

lemma capped_act: "capped cf s \<Longrightarrow> capped cf (act cf now op s)"
  by (cases op)
    (auto simp: act_def exportState_def Let_def start_def stop_def sendAuthUrl_def intro!: capping capped.shapes
      split: option.split)

text \<open>C17: The ceilings hold whatever happens.\<close>

theorem server_within_ceilings:
  assumes "bunker_runs cf s"
  shows "length (sv_clients s) \<le> bk_maxClients cf \<and> length (sv_secrets s) \<le> bk_maxSecrets cf"
proof -
  from assms have "capped cf s"
  proof (induction rule: bunker_runs.induct)
    case (built relays generation s)
    then show ?case by (auto simp: BunkerServer_def capped_def split: sum.splits if_splits option.splits)
  qed (rule capped_act)
  then show ?thesis by (simp add: capped_def)
qed

theorem server_within_ceilings_witness:
  "length (sv_clients demo_paired) \<le> 64 \<and> length (sv_secrets demo_paired) \<le> 256 \<and> length (sv_clients demo_paired) = 1"
proof -
  have "bk_maxClients demo_bunker = 64 \<and> bk_maxSecrets demo_bunker = 256 \<and> length (sv_clients demo_paired) = 1" by code_simp
  then show ?thesis using server_within_ceilings [OF demo_running(3)] by simp
qed

end
