(* ===== verification/Bunker_Admission.thy ===== *)
theory Bunker_Admission
  imports Bunker_Bounds
begin

section \<open>The remote signer server: who reaches the handler\<close>

text \<open>
  The log of an operation extends the log before it, and the requests among the new entries are
  those of clients that were connected or offered a secret that is theirs to use.
\<close>

definition asks_only :: "(BunkerRequest \<Rightarrow> bool) \<Rightarrow> server \<Rightarrow> server \<Rightarrow> bool" where
  "asks_only Q s t \<longleftrightarrow> (\<exists>new. sv_log t = new @ sv_log s \<and> (\<forall>q us. Asked q us \<in> set new \<longrightarrow> Q q))"

interpretation asks: server_shapes "asks_only Q s" for Q s .

named_theorems asking

lemma asks_refl [asking]: "asks_only Q s s"
  by (simp add: asks_only_def)

lemma asks_same: "asks_only Q s t \<Longrightarrow> sv_log u = sv_log t \<Longrightarrow> asks_only Q s u"
  by (simp add: asks_only_def)

lemma asks_logs [asking]: "asks_only Q s t \<Longrightarrow> (\<And>q us. e = Asked q us \<Longrightarrow> Q q) \<Longrightarrow> asks_only Q s (logs e t)"
  unfolding asks_only_def by (elim exE conjE, rule exI [of _ "e # new" for new]) (auto simp: sv_fields)

lemma asks_snapshot [asking]: "asks_only Q s t \<Longrightarrow> asks_only Q s (snapshot cf t)"
  by (auto simp: snapshot_def intro!: asking)

lemma asks_sweep [asking]: "asks_only Q s t \<Longrightarrow> asks_only Q s (sweepSecrets cf now t)"
  unfolding sweepSecrets_def Let_def by (intro asks.shapes asking; (erule asks_same, simp add: sv_fields)?)

lemma asks_emit [asking]: "asks_only Q s t \<Longrightarrow> asks_only Q s (emit cf now t)"
  unfolding emit_def by (intro asks.shapes asking; assumption?)

lemma asks_steps [asking]:
  "asks_only Q s t \<Longrightarrow> asks_only Q s (put_record a r t)" "asks_only Q s t \<Longrightarrow> asks_only Q s (fly f t)"
  "asks_only Q s t \<Longrightarrow> asks_only Q s (land token t)" "asks_only Q s t \<Longrightarrow> asks_only Q s (claim w u t)"
  "asks_only Q s t \<Longrightarrow> asks_only Q s (fold (claim w) us t)" "asks_only Q s t \<Longrightarrow> asks_only Q s (fold (release w) us t)"
  "asks_only Q s t \<Longrightarrow> asks_only Q s (scheduleSweep tm t)" "asks_only Q s t \<Longrightarrow> asks_only Q s (snd (beginApproval c t))"
  "asks_only Q s t \<Longrightarrow> asks_only Q s (endApproval c b t)" "asks_only Q s t \<Longrightarrow> asks_only Q s (drop_pending a t)"
  "asks_only Q s t \<Longrightarrow> asks_only Q s (confirm a rs t)" "asks_only Q s t \<Longrightarrow> asks_only Q s (set_secret e t)"
  by (erule asks_same, simp add: sv_fields fly_def land_def scheduleSweep_def beginApproval_def endApproval_def Let_def
      drop_pending_def confirm_def set_secret_def split: prod.split option.split)+

lemma asks_updates [asking]:
  "asks_only Q s t \<Longrightarrow> asks_only Q s (t\<lparr>sv_strangers := ws\<rparr>)" "asks_only Q s t \<Longrightarrow> asks_only Q s (t\<lparr>sv_muted := b\<rparr>)"
  "asks_only Q s t \<Longrightarrow> asks_only Q s (t\<lparr>sv_contexts := cx\<rparr>)" "asks_only Q s t \<Longrightarrow> asks_only Q s (t\<lparr>sv_relays := rs\<rparr>)"
  "asks_only Q s t \<Longrightarrow> asks_only Q s (t\<lparr>sv_started := b\<rparr>)" "asks_only Q s t \<Longrightarrow> asks_only Q s (t\<lparr>sv_stopped := b\<rparr>)"
  "asks_only Q s t \<Longrightarrow> asks_only Q s (t\<lparr>sv_owners := os\<rparr>)" "asks_only Q s t \<Longrightarrow> asks_only Q s (t\<lparr>sv_generation := g\<rparr>)"
  "asks_only Q s t \<Longrightarrow> asks_only Q s (t\<lparr>sv_secrets := xs\<rparr>)" "asks_only Q s t \<Longrightarrow> asks_only Q s (t\<lparr>sv_clients := cs\<rparr>)"
  "asks_only Q s t \<Longrightarrow> asks_only Q s (t\<lparr>sv_records := ys\<rparr>)"
  by (erule asks_same, simp)+

lemma asks_send [asking]: "asks_only Q s t \<Longrightarrow> asks_only Q s (send c i r us t)"
  by (auto simp: send_def intro!: asking)

lemma asks_runHandler [asking]: "asks_only Q s t \<Longrightarrow> Q (fl_request f) \<Longrightarrow> asks_only Q s (runHandler f t)"
  by (auto simp: runHandler_def intro!: asking)

lemma asks_respond [asking]: "asks_only Q s t \<Longrightarrow> asks_only Q s (respond cf f r t)"
  by (auto simp: respond_def Let_def split: sum.split intro!: asking)

lemma asks_liveSecret [asking]: "asks_only Q s t \<Longrightarrow> asks_only Q s (snd (liveSecret cf now x t))"
  unfolding liveSecret_def Let_def by (intro asks.shapes asking; assumption?)

lemma asks_disconnect [asking]: "asks_only Q s t \<Longrightarrow> asks_only Q s (disconnectClient cf now c t)"
  unfolding disconnectClient_def by (intro asks.shapes asking; assumption?)

lemma asks_revoke [asking]: "asks_only Q s t \<Longrightarrow> asks_only Q s (snd (revokeSecret cf now x t))"
proof -
  assume a: "asks_only Q s t"
  have "asks_only Q s (t\<lparr>sv_secrets := xs, sv_generation := g\<rparr>)" for xs g by (intro asking a)
  then show ?thesis using a unfolding revokeSecret_def Let_def by (intro asks.shapes asking; (assumption | simp)?)
qed

lemma asks_addRelay [asking]: "asks_only Q s t \<Longrightarrow> asks_only Q s (snd (addRelay cf u t))"
  unfolding addRelay_def by (intro asks.shapes asking; assumption?)

lemma asks_addRelays [asking]: "asks_only Q s t \<Longrightarrow> asks_only Q s (snd (addRelays cf us t))"
proof (induction us arbitrary: t)
  case (Cons u us)
  have "asks_only Q s (snd (addRelay cf u t))" by (intro asking Cons.prems)
  then show ?case using Cons.IH by (auto split: prod.split sum.split)
qed simp

lemma asks_bind [asking]: "asks_only Q s t \<Longrightarrow> asks_only Q s (snd (bind_secret cf now x c rs m t))"
  unfolding bind_secret_def Let_def by (intro asks.shapes asking; assumption?)

lemma asks_unbind [asking]: "asks_only Q s t \<Longrightarrow> asks_only Q s (unbind_secret cf now a x t)"
  unfolding unbind_secret_def Let_def by (intro asks.shapes asking; assumption?)

lemma asks_unbind_opt [asking]: "asks_only Q s t \<Longrightarrow> asks_only Q s (unbind_opt cf now b x t)"
  by (auto simp: unbind_opt_def split: option.split intro: asking)

lemma asks_admit [asking]: "asks_only Q s t \<Longrightarrow> asks_only Q s (snd (admit cf now c x us tm k t))"
  unfolding admit_def Let_def by (intro asks.shapes asking; assumption?)

lemma asks_admit_all [asking]: "asks_only Q s t \<Longrightarrow> asks_only Q s (snd (admit_all cf now cs t))"
proof (induction cs arbitrary: t)
  case (Cons c cs)
  let ?p = "admit cf now (pc_client c) (pc_secret c) (pc_relays c) (pc_connectedAt c) True t"
  have "asks_only Q s (snd ?p)" by (intro asking Cons.prems)
  then show ?case using Cons.IH by (simp add: case_prod_beta)
qed simp

lemma asks_set_secrets [asking]: "asks_only Q s t \<Longrightarrow> asks_only Q s (fold set_secret es t)"
  by (induction es arbitrary: t) (simp_all add: asking)

lemma asks_setGeneration [asking]: "asks_only Q s t \<Longrightarrow> asks_only Q s (setGeneration g t)"
  unfolding setGeneration_def by (intro asks.shapes asking; (assumption | simp)?)

lemma asks_restore [asking]: "asks_only Q s t \<Longrightarrow> asks_only Q s (snd (restore cf now b v t))"
  unfolding restore_def Let_def
  by (cases "restore_plan cf now b v t") (auto simp: case_prod_beta intro!: asking)

lemma asks_createBunkerUri [asking]: "asks_only Q s t \<Longrightarrow> asks_only Q s (snd (createBunkerUri cf now rs x ttl t))"
  unfolding createBunkerUri_def Let_def by (intro asks.shapes asking; assumption?)

lemma asks_scan_ended [asking]: "asks_only Q s t \<Longrightarrow> asks_only Q s (scan_ended f e t)"
  by (auto simp: scan_ended_def intro!: asking)

lemma asks_connected [asking]: "asks_only Q s t \<Longrightarrow> asks_only Q s (connected cf now f r t)"
  unfolding connected_def Let_def by (intro asks.shapes asking; assumption?)

lemma asks_scanned [asking]: "asks_only Q s t \<Longrightarrow> asks_only Q s (scanned cf now f r t)"
  unfolding scanned_def Let_def by (intro asks.shapes asking; assumption?)

lemma asks_seen [asking]: "asks_only Q s t \<Longrightarrow> asks_only Q s (snd (seen cf p k t))"
  by (cases "map_of (sv_clients t) p") (auto simp: seen_def Let_def split: prod.split intro!: asks_updates)

lemma asks_settle [asking]: "asks_only Q s t \<Longrightarrow> asks_only Q s (settle_flight cf now token r t)"
  unfolding settle_flight_def
  by (cases "map_of (sv_flights t) token") (auto split: flight_kind.split intro!: asking)

lemma asks_proceed [asking]: "asks_only Q s t \<Longrightarrow> asks_only Q s (proceed cf now token t)"
  unfolding proceed_def
  by (cases "map_of (sv_flights t) token") (auto split: flight_kind.split intro!: asking)

subsection \<open>Requests from the network\<close>

text \<open>The secret is known, has not lapsed, and is free or already bound to the client.\<close>

definition may_pair :: "rat \<Rightarrow> server \<Rightarrow> string \<Rightarrow> string \<Rightarrow> bool" where
  "may_pair now s x c \<longleftrightarrow>
     (\<exists>r. secret_record s x = Some r \<and> \<not> lapsed now r \<and> (ss_client r = None \<or> ss_client r = Some c))"

definition entitled :: "bunker \<Rightarrow> rat \<Rightarrow> server \<Rightarrow> BunkerRequest \<Rightarrow> bool" where
  "entitled cf now s q \<longleftrightarrow>
     (if br_method q = ''connect''
      then bk_requireSecret cf \<longrightarrow> 1 < length (br_params q) \<and> may_pair now s (br_params q ! 1) (br_client q)
      else isConnected (br_client q) s)"

lemma liveSecret_some:
  "liveSecret cf now x s = (Some a, t) \<Longrightarrow> t = s \<and> map_of (sv_secrets s) x = Some a \<and> \<not> lapsed now (record_of s a)"
  by (auto simp: liveSecret_def Let_def lapsed_def split: option.splits if_splits)

lemma bind_secret_some:
  "bind_secret cf now x c rs m s = (Inr a, t) \<Longrightarrow> map_of (sv_secrets s) x = Some a \<Longrightarrow>
    ss_client (record_of s a) = None \<or> ss_client (record_of s a) = Some c"
  by (auto simp: bind_secret_def Let_def split: option.splits if_splits)

lemma asks_connect:
  assumes "asks_only Q s t" "br_method (fl_request f) = ''connect''"
    and "sv_secrets t = sv_secrets s0" "sv_records t = sv_records s0"
    and Q: "entitled cf now s0 (fl_request f) \<Longrightarrow> Q (fl_request f)"
  shows "asks_only Q s (connect cf now f t)"
proof -
  let ?q = "fl_request f"
  let ?c = "br_client ?q" and ?x = "if 1 < length (br_params ?q) then br_params ?q ! 1 else []"
  obtain live t1 where 1: "(if ?x = [] then (None, t) else liveSecret cf now ?x t) = (live, t1)" by fastforce
  have t1: "asks_only Q s t1"
    using asks_liveSecret [OF assms(1), of cf now ?x] assms(1) 1 by (auto split: if_splits)
  obtain b t2 where 2: "bind_secret cf now ?x ?c None ''secret already used by another client'' t1 = (b, t2)" by fastforce
  have t2: "asks_only Q s t2"
    using asks_bind [OF t1, of cf now ?x ?c None "''secret already used by another client''"] 2 by simp
  have entitled: "entitled cf now s0 ?q" if "bk_requireSecret cf \<longrightarrow> live \<noteq> None" "live \<noteq> None \<longrightarrow> (\<exists>a. b = Inr a)"
  proof (cases "bk_requireSecret cf")
    case True
    with that 1 obtain a a' where x: "?x \<noteq> []" and a: "live = Some a" "b = Inr a'" "liveSecret cf now ?x t = (Some a, t1)"
      by (auto split: if_splits)
    note live = liveSecret_some [OF a(3)]
    then have "a' = a" "ss_client (record_of t a) = None \<or> ss_client (record_of t a) = Some ?c"
      using bind_secret_some [of cf now ?x ?c None _ t1 a' t2 ] 2 a(2)
      by (auto simp: bind_secret_def Let_def split: if_splits)
    then have "may_pair now s0 ?x ?c"
      using live assms(3,4) by (auto simp: may_pair_def secret_record_def record_of_def)
    then show ?thesis using x assms(2) by (auto simp: entitled_def split: if_splits)
  qed (simp add: entitled_def assms(2))
  show ?thesis
  proof (cases "bk_requireSecret cf \<and> live = None \<or> live \<noteq> None \<and> (\<exists>e. b = Inl e)")
    case True
    then show ?thesis
      unfolding connect_def Let_def 1 2 prod.case
      by (elim disjE conjE exE) (auto simp: t1 t2 asks_respond)
  next
    case False
    then have "Q ?q" by (intro Q entitled; cases b) auto
    then show ?thesis
      unfolding connect_def Let_def 1 2 prod.case
      by (intro asks.shapes asking t1 t2; (assumption | simp)?)
  qed
qed

lemma seen_same:
  "sv_secrets (snd (seen cf p k s)) = sv_secrets s" "sv_records (snd (seen cf p k s)) = sv_records s"
  "isConnected c (snd (seen cf p k s)) = isConnected c s"
  by (cases "map_of (sv_clients s) p"; simp add: seen_def Let_def isConnected_def split: prod.split)+

lemma asks_dispatch:
  assumes "asks_only Q s t" "sv_secrets t = sv_secrets s0" "sv_records t = sv_records s0"
    "\<And>c. isConnected c t = isConnected c s0" and Q: "entitled cf now s0 q \<Longrightarrow> Q q"
  shows "asks_only Q s (dispatch cf now q src t)"
  unfolding dispatch_def Let_def
  by (intro asks.shapes asking asks_connect [where ?s0.0 = s0] assms(1-3); (use assms(4) Q in \<open>simp add: entitled_def\<close>)?)

lemma parseRequest_client: "parseRequest cf c m = Some q \<Longrightarrow> br_client q = c"
  by (auto simp: parseRequest_def split: if_splits option.splits sval.splits)

lemma asks_onEvent:
  assumes "asks_only Q s s" "\<And>q. br_client q = we_pubkey e \<Longrightarrow> bk_verify cf e \<Longrightarrow> entitled cf now s q \<Longrightarrow> Q q"
  shows "asks_only Q s (onEvent cf now e src s)"
proof -
  let ?c = "we_pubkey e"
  obtain k1 t1 where 1: "seen cf ?c (''e:'' @ we_id e) s = (k1, t1)" by fastforce
  have t1: "asks_only Q s t1" using asks_seen [OF assms(1), where cf = cf and p = ?c and k = "''e:'' @ we_id e"] 1 by simp
  have same1: "sv_secrets t1 = sv_secrets s" "sv_records t1 = sv_records s" "isConnected c t1 = isConnected c s" for c
    using seen_same [where cf = cf and p = ?c and k = "''e:'' @ we_id e" and s = s] 1 by simp_all
  have "asks_only Q s (case seen cf ?c (''r:'' @ br_request_id q) t1 of (True, t2) \<Rightarrow> t2 | (False, t2) \<Rightarrow> dispatch cf now q src t2)"
    if "parseRequest cf ?c m = Some q" "bk_verify cf e" for m q
  proof -
    obtain k2 t2 where 2: "seen cf ?c (''r:'' @ br_request_id q) t1 = (k2, t2)" by fastforce
    have t2: "asks_only Q s t2" using asks_seen [OF t1, where cf = cf and p = ?c and k = "''r:'' @ br_request_id q"] 2 by simp
    have "sv_secrets t2 = sv_secrets s" "sv_records t2 = sv_records s" "isConnected c t2 = isConnected c s" for c
      using seen_same [where cf = cf and p = ?c and k = "''r:'' @ br_request_id q" and s = t1] 2 same1 by simp_all
    then have "asks_only Q s (dispatch cf now q src t2)"
      using assms(2) [OF parseRequest_client [OF that(1)] that(2)] by (intro asks_dispatch t2) simp_all
    with t2 2 show ?thesis by (simp split: bool.split)
  qed
  with assms(1) t1 show ?thesis
    by (cases k1) (auto simp: onEvent_def Let_def 1 asks_send simp del: append_Cons split: option.split)
qed



end
