(* ===== verification/Bunker_Backing.thy ===== *)
theory Bunker_Backing
  imports Bunker_Admission
begin

section \<open>The remote signer server: every client is backed by its own secret\<close>

text \<open>
  The count of pending approvals of a record is the number of flights that wait on it, and while
  there is one the record is bound to the client of the flight. From this follows, for a server
  that requires secrets, that a connected client holds a confirmed secret bound to it.
\<close>

definition binding :: "flight \<Rightarrow> bool" where
  "binding f \<longleftrightarrow> fl_kind f = Connecting \<or> fl_kind f = Scanning"

definition holders :: "nat \<Rightarrow> (nat, flight) obj \<Rightarrow> nat" where
  "holders a fl = length (filter (\<lambda>(t, f). binding f \<and> fl_record f = Some a) fl)"

text \<open>With \<open>d\<close>, one approval more is counted: the one whose operation is under way.\<close>

definition firm :: "(nat \<times> string) option \<Rightarrow> server \<Rightarrow> bool" where
  "firm d s \<longleftrightarrow>
     sound s \<and> wf_obj (sv_flights s)
     \<and> (\<forall>a < length (sv_records s).
          ss_pending (record_of s a) = int (holders a (sv_flights s)) + (if map_option fst d = Some a then 1 else 0))
     \<and> (\<forall>t f. map_of (sv_flights s) t = Some f \<and> binding f \<longrightarrow>
          (\<exists>a < length (sv_records s). fl_record f = Some a \<and> ss_client (record_of s a) = Some (br_client (fl_request f))))
     \<and> (\<forall>a c. d = Some (a, c) \<longrightarrow> a < length (sv_records s) \<and> ss_client (record_of s a) = Some c)
     \<and> (\<forall>t f. map_of (sv_flights s) t = Some f \<and> binding f \<longrightarrow> fl_secret f \<noteq> [])"

lemma holders_oset_new: "map_of fl t = None \<Longrightarrow>
    holders a (oset t f fl) = holders a fl + (if binding f \<and> fl_record f = Some a then 1 else 0)"
  by (induction fl) (auto simp: holders_def split: if_splits)

lemma holders_odel: "wf_obj fl \<Longrightarrow> map_of fl t = Some f \<Longrightarrow>
    int (holders a (odel t fl)) = int (holders a fl) - (if binding f \<and> fl_record f = Some a then 1 else 0)"
proof (induction fl)
  case (Cons e fl)
  have "odel t fl = fl" if "t \<notin> fst ` set fl" using that by (simp add: delete_id)
  with Cons show ?case by (cases e) (auto simp: holders_def wf_obj_def split: if_splits)
qed simp

lemma holders_pos: "map_of fl t = Some f \<Longrightarrow> binding f \<Longrightarrow> fl_record f = Some a \<Longrightarrow> 0 < holders a fl"
  unfolding holders_def by (force dest: map_of_SomeD simp: filter_empty_conv)

lemma holders_none: "(\<And>t f. map_of fl t = Some f \<Longrightarrow> binding f \<Longrightarrow> fl_record f \<noteq> Some a) \<Longrightarrow> wf_obj fl \<Longrightarrow> holders a fl = 0"
  unfolding holders_def by (auto simp: filter_empty_conv wf_obj_def)

lemma firm_sound: "firm d s \<Longrightarrow> sound s"
  by (simp add: firm_def)

lemma firm_same:
  assumes "firm d s" "evolves R s t" "sv_flights t = sv_flights s" "sv_records t = sv_records s"
  shows "firm d t"
proof -
  have "sound t" using assms(1,2) by (simp add: firm_def evolves_def)
  with assms(1,3,4) show ?thesis unfolding firm_def record_of_def by auto
qed

lemma firm_fly:
  assumes "firm d s" "\<not> binding f" shows "firm d (fly f s)"
proof -
  have new: "map_of (sv_flights s) (sv_nextFlight s) = None"
    using assms(1) by (auto simp: firm_def sound_def)
  have "sound (fly f s)" using evolves_fly [OF evolves_refl, of UNIV s f] assms(1) by (simp add: firm_def evolves_def)
  with assms new show ?thesis
    by (auto simp: firm_def fly_def record_of_def holders_oset_new split: if_splits)
qed

lemma firm_fly_binding:
  assumes "firm (Some (a, br_client (fl_request f))) s" "binding f" "fl_record f = Some a" "fl_secret f \<noteq> []"
  shows "firm None (fly f s)"
proof -
  have new: "map_of (sv_flights s) (sv_nextFlight s) = None"
    using assms(1) by (auto simp: firm_def sound_def)
  have "sound (fly f s)" using evolves_fly [OF evolves_refl, of UNIV s f] assms(1) by (simp add: firm_def evolves_def)
  with assms new show ?thesis
    by (auto simp: firm_def fly_def record_of_def holders_oset_new split: if_splits)
qed

lemma firm_land:
  assumes "firm None s" "map_of (sv_flights s) t = Some f"
  shows "\<not> binding f \<Longrightarrow> firm None (land t s)"
    and "binding f \<Longrightarrow> \<exists>a. fl_record f = Some a \<and> firm (Some (a, br_client (fl_request f))) (land t s)"
proof -
  have so: "sound (land t s)" using evolves_land [OF evolves_refl, of UNIV s t] assms(1) by (simp add: firm_def evolves_def)
  have wf: "wf_obj (sv_flights s)" using assms(1) by (simp add: firm_def)
  note count = holders_odel [OF wf assms(2)]
  show "firm None (land t s)" if "\<not> binding f"
    using assms(1) so count that by (auto simp: firm_def land_def record_of_def split: if_splits)
  show "\<exists>a. fl_record f = Some a \<and> firm (Some (a, br_client (fl_request f))) (land t s)" if "binding f"
  proof -
    from assms that obtain a where a: "a < length (sv_records s)" "fl_record f = Some a"
      "ss_client (record_of s a) = Some (br_client (fl_request f))"
      unfolding firm_def by blast
    then have "firm (Some (a, br_client (fl_request f))) (land t s)"
      using assms(1) so count that by (auto simp: firm_def land_def record_of_def split: if_splits)
    with a show ?thesis by blast
  qed
qed

text \<open>Records: one is bound, counted down, released, or added.\<close>

lemma firm_record:
  assumes "firm d s" "ss_pending r = ss_pending (record_of s a)"
    and "\<And>c. ss_client (record_of s a) = Some c \<Longrightarrow> ss_client r = Some c" "keeps_record (record_of s a) r"
  shows "firm d (put_record a r s)"
proof -
  have so: "sound (put_record a r s)" using evolves_put_record [OF evolves_refl assms(4), of UNIV] assms(1)
    by (simp add: firm_def evolves_def)
  show ?thesis
    unfolding firm_def sv_fields
  proof (intro conjI allI impI)
    fix t f assume f: "map_of (sv_flights s) t = Some f \<and> binding f"
    with assms(1) obtain b where "b < length (sv_records s)" "fl_record f = Some b"
      "ss_client (record_of s b) = Some (br_client (fl_request f))" unfolding firm_def by blast
    with assms(3) show "\<exists>b < length (sv_records s). fl_record f = Some b
        \<and> ss_client (record_of (put_record a r s) b) = Some (br_client (fl_request f))"
      by (auto simp: record_of_put_record)
  qed (use assms so in \<open>auto simp: firm_def record_of_put_record\<close>)
qed

lemma firm_settled:
  assumes "firm (Some (a, c)) s" "ss_pending r = ss_pending (record_of s a) - 1"
    and "ss_client r = ss_client (record_of s a)" "ss_confirmed (record_of s a) \<Longrightarrow> ss_confirmed r"
  shows "firm None (put_record a r s)"
proof -
  have "keeps_record (record_of s a) r" using assms(3,4) by (auto simp: keeps_record_def)
  then have so: "sound (put_record a r s)" using evolves_put_record [OF evolves_refl, of s a r UNIV] assms(1)
    by (simp add: firm_def evolves_def)
  show ?thesis
    unfolding firm_def sv_fields
  proof (intro conjI allI impI)
    fix t f assume f: "map_of (sv_flights s) t = Some f \<and> binding f"
    with assms(1) obtain b where "b < length (sv_records s)" "fl_record f = Some b"
      "ss_client (record_of s b) = Some (br_client (fl_request f))" unfolding firm_def by blast
    with assms(3) show "\<exists>b < length (sv_records s). fl_record f = Some b
        \<and> ss_client (record_of (put_record a r s) b) = Some (br_client (fl_request f))"
      by (auto simp: record_of_put_record)
  qed (use assms so in \<open>auto simp: firm_def record_of_put_record\<close>)
qed

lemma firm_drop_pending: "firm (Some (a, c)) s \<Longrightarrow> firm None (drop_pending a s)"
  unfolding drop_pending_def by (rule firm_settled) (simp_all add: add_pending_def)

lemma firm_confirm: "firm (Some (a, c)) s \<Longrightarrow> firm None (confirm a rs s)"
  unfolding confirm_def Let_def by (rule firm_settled) (simp_all add: add_pending_def)

lemma firm_released:
  assumes "firm (Some (a, c)) s" "ss_pending (record_of s a) \<le> 1" "\<not> ss_confirmed (record_of s a)"
    and "ss_pending r = 0"
  shows "firm None (put_record a r s)"
proof -
  have "keeps_record (record_of s a) r" using assms(3) by (simp add: keeps_record_def)
  then have so: "sound (put_record a r s)" using evolves_put_record [OF evolves_refl, of s a r UNIV] assms(1)
    by (simp add: firm_def evolves_def)
  have "holders a (sv_flights s) = 0" using assms(1,2) by (auto simp: firm_def)
  then have other: "fl_record f \<noteq> Some a" if "map_of (sv_flights s) t = Some f" "binding f" for t f
    using holders_pos [OF that] by auto
  show ?thesis
    unfolding firm_def sv_fields
  proof (intro conjI allI impI)
    fix t f assume f: "map_of (sv_flights s) t = Some f \<and> binding f"
    with assms(1) obtain b where "b < length (sv_records s)" "fl_record f = Some b"
      "ss_client (record_of s b) = Some (br_client (fl_request f))" unfolding firm_def by blast
    with other f show "\<exists>b < length (sv_records s). fl_record f = Some b
        \<and> ss_client (record_of (put_record a r s) b) = Some (br_client (fl_request f))"
      by (auto simp: record_of_put_record)
  qed (use assms so \<open>holders a (sv_flights s) = 0\<close> in \<open>auto simp: firm_def record_of_put_record\<close>)
qed

lemma firm_fewer_secrets:
  "firm d s \<Longrightarrow> firm d (s\<lparr>sv_secrets := odel x (sv_secrets s)\<rparr>)"
  by (auto simp: firm_def sound_def record_of_def)

lemma firm_emit: "firm d s \<Longrightarrow> firm d (emit cf now s)"
  by (erule firm_same [OF _ evolves_emit [OF evolves_refl]]) (simp_all add: sv_fields)

lemma firm_unbind:
  assumes "firm (Some (a, c)) s" shows "firm None (unbind_secret cf now a x s)"
proof (cases "ss_pending (record_of s a) \<le> 1 \<and> \<not> ss_confirmed (record_of s a)")
  case True
  have "firm None (put_record a (add_pending (- 1) (record_of s a)\<lparr>ss_pending := 0, ss_client := None\<rparr>) s)"
    by (rule firm_released [OF assms]) (use True in auto)
  then show ?thesis
    using True by (auto simp: unbind_secret_def Let_def add_pending_def intro!: firm_emit firm_fewer_secrets)
next
  case False
  have "firm None (put_record a (add_pending (- 1) (record_of s a)) s)"
    by (rule firm_settled [OF assms]) (simp_all add: add_pending_def)
  with False show ?thesis by (auto simp: unbind_secret_def Let_def add_pending_def)
qed

lemma firm_new_record:
  assumes "firm None s" "sound t" "sv_records t = sv_records s @ [r]" "sv_flights t = sv_flights s"
  shows "ss_pending r = 0 \<Longrightarrow> firm None t"
    and "ss_pending r = 1 \<Longrightarrow> ss_client r = Some c \<Longrightarrow> firm (Some (length (sv_records s), c)) t"
proof -
  have none: "holders (length (sv_records s)) (sv_flights s) = 0"
    using assms(1) by (intro holders_none) (force simp: firm_def)+
  have flights: "\<exists>b < length (sv_records t). fl_record f = Some b \<and> ss_client (record_of t b) = Some (br_client (fl_request f))"
    if "map_of (sv_flights s) k = Some f \<and> binding f" for k f
  proof -
    from assms(1) that obtain b where "b < length (sv_records s)" "fl_record f = Some b"
      "ss_client (record_of s b) = Some (br_client (fl_request f))" unfolding firm_def by blast
    with assms(3) show ?thesis by (auto simp: record_of_def nth_append intro!: exI [of _ b])
  qed
  show "firm None t" if "ss_pending r = 0"
    unfolding firm_def assms(4)
  proof (intro conjI allI impI)
    fix k f assume "map_of (sv_flights s) k = Some f \<and> binding f"
    then show "\<exists>b < length (sv_records t). fl_record f = Some b \<and> ss_client (record_of t b) = Some (br_client (fl_request f))"
      by (rule flights)
  qed (use assms(1,2,3) that none in \<open>auto simp: firm_def record_of_def nth_append less_Suc_eq\<close>)
  show "firm (Some (length (sv_records s), c)) t" if "ss_pending r = 1" "ss_client r = Some c"
    unfolding firm_def assms(4)
  proof (intro conjI allI impI)
    fix k f assume "map_of (sv_flights s) k = Some f \<and> binding f"
    then show "\<exists>b < length (sv_records t). fl_record f = Some b \<and> ss_client (record_of t b) = Some (br_client (fl_request f))"
      by (rule flights)
  qed (use assms(1,2,3) that none in \<open>auto simp: firm_def record_of_def nth_append less_Suc_eq\<close>)
qed

subsection \<open>Operations keep the count\<close>

named_theorems idle

text \<open>Operations that touch neither records nor flights.\<close>

lemma idle_steps [idle]:
  "sv_flights (send c i r us s) = sv_flights s" "sv_records (send c i r us s) = sv_records s"
  "sv_flights (snd (beginApproval c s)) = sv_flights s" "sv_records (snd (beginApproval c s)) = sv_records s"
  "sv_flights (endApproval c b s) = sv_flights s" "sv_records (endApproval c b s) = sv_records s"
  "sv_flights (snd (liveSecret cf now x s)) = sv_flights s" "sv_records (snd (liveSecret cf now x s)) = sv_records s"
  "sv_flights (disconnectClient cf now c s) = sv_flights s" "sv_records (disconnectClient cf now c s) = sv_records s"
  "sv_flights (snd (revokeSecret cf now x s)) = sv_flights s" "sv_records (snd (revokeSecret cf now x s)) = sv_records s"
  "sv_flights (snd (admit cf now c y us tm k s)) = sv_flights s" "sv_records (snd (admit cf now c y us tm k s)) = sv_records s"
  "sv_flights (snd (addRelay cf u s)) = sv_flights s" "sv_records (snd (addRelay cf u s)) = sv_records s"
  "sv_flights (scan_ended f e s) = sv_flights s" "sv_records (scan_ended f e s) = sv_records s"
  "sv_flights (setGeneration g s) = sv_flights s" "sv_records (setGeneration g s) = sv_records s"
  "sv_flights (snd (sendAuthUrl n u s)) = sv_flights s" "sv_records (snd (sendAuthUrl n u s)) = sv_records s"
  "sv_flights (stop s) = sv_flights s" "sv_records (stop s) = sv_records s"
  "sv_flights (snd (start s)) = sv_flights s" "sv_records (snd (start s)) = sv_records s"
  by (simp_all add: send_def beginApproval_def endApproval_def liveSecret_def disconnectClient_def revokeSecret_def admit_def
      addRelay_def scan_ended_def setGeneration_def sendAuthUrl_def start_def stop_def Let_def sv_fields split: option.split)

lemma idle_seen [idle]:
  "sv_flights (snd (seen cf p k s)) = sv_flights s" "sv_records (snd (seen cf p k s)) = sv_records s"
  by (cases "map_of (sv_clients s) p"; simp add: seen_def Let_def split: prod.split)+

lemma idle_many [idle]:
  "sv_flights (snd (addRelays cf us s)) = sv_flights s \<and> sv_records (snd (addRelays cf us s)) = sv_records s"
  "sv_flights (snd (admit_all cf now cs s)) = sv_flights s \<and> sv_records (snd (admit_all cf now cs s)) = sv_records s"
proof -
  show "sv_flights (snd (addRelays cf us s)) = sv_flights s \<and> sv_records (snd (addRelays cf us s)) = sv_records s"
  proof (induction us arbitrary: s)
    case (Cons u us)
    have "sv_flights (snd (addRelay cf u s)) = sv_flights s" "sv_records (snd (addRelay cf u s)) = sv_records s"
      by (simp_all add: idle)
    then show ?case using Cons [of "snd (addRelay cf u s)"] by (auto split: prod.split sum.split)
  qed simp
  show "sv_flights (snd (admit_all cf now cs s)) = sv_flights s \<and> sv_records (snd (admit_all cf now cs s)) = sv_records s"
    by (induction cs arbitrary: s) (simp_all add: case_prod_beta idle)
qed

named_theorems firming

lemma firm_idle [firming]:
  "firm d s \<Longrightarrow> firm d (emit cf now s)" "firm d s \<Longrightarrow> firm d (send c i r us s)" "firm d s \<Longrightarrow> firm d (snd (beginApproval c s))"
  "firm d s \<Longrightarrow> firm d (endApproval c b s)" "firm d s \<Longrightarrow> firm d (snd (liveSecret cf now x s))"
  "firm d s \<Longrightarrow> firm d (disconnectClient cf now c s)" "firm d s \<Longrightarrow> firm d (snd (admit cf now c y us tm k s))"
  "firm d s \<Longrightarrow> firm d (scan_ended f e s)" "firm d s \<Longrightarrow> firm d (snd (seen cf p k' s))" "firm d s \<Longrightarrow> firm d (logs ef s)"
  "firm d s \<Longrightarrow> firm d (sweepSecrets cf now s)" "firm d s \<Longrightarrow> firm d (snd (addRelays cf us s))"
  "firm d s \<Longrightarrow> firm d (scheduleSweep tm s)"
  by (erule firm_same, (intro evolving), simp add: idle sv_fields scheduleSweep_def, simp add: idle sv_fields scheduleSweep_def)+

lemma firm_runHandler: "firm d s \<Longrightarrow> \<not> binding f \<Longrightarrow> firm d (runHandler f s)"
  and firm_runHandler_binding:
    "firm (Some (a, br_client (fl_request f))) s \<Longrightarrow> binding f \<Longrightarrow> fl_record f = Some a \<Longrightarrow> fl_secret f \<noteq> [] \<Longrightarrow>
      firm None (runHandler f s)"
proof -
  have c: "firm d (logs e (s\<lparr>sv_contexts := cx\<rparr>))" if "firm d s" for d e cx
    by (rule firm_same [OF that]) ((intro evolving), simp_all add: sv_fields)
  show "firm d s \<Longrightarrow> \<not> binding f \<Longrightarrow> firm d (runHandler f s)"
    unfolding runHandler_def by (intro firm_fly c)
  show "firm (Some (a, br_client (fl_request f))) s \<Longrightarrow> binding f \<Longrightarrow> fl_record f = Some a \<Longrightarrow> fl_secret f \<noteq> [] \<Longrightarrow>
      firm None (runHandler f s)"
    unfolding runHandler_def by (intro firm_fly_binding c)
qed

lemma firm_respond [firming]: "firm d s \<Longrightarrow> firm d (respond cf f r s)"
  by (auto simp: respond_def Let_def binding_def split: sum.split intro!: firming firm_fly)

lemma firm_bind:
  assumes "firm None s" "bind_secret cf now x c rs m s = (Inr a, t)" shows "firm (Some (a, c)) t"
proof (cases "map_of (sv_secrets s) x")
  case None
  with assms(2) obtain urls where u: "rs = Some urls" "a = length (sv_records s)"
    and t: "t = emit cf now (s\<lparr>sv_secrets := oset x (length (sv_records s)) (sv_secrets s), sv_records := sv_records s @
      [\<lparr>ss_relays = urls, ss_client = Some c, ss_confirmed = False, ss_pending = 1, ss_origin = FromNostrConnect, ss_expiresAt = None\<rparr>]\<rparr>)"
    by (auto simp: bind_secret_def Let_def split: option.splits)
  have so: "sound (s\<lparr>sv_secrets := oset x (length (sv_records s)) (sv_secrets s), sv_records := sv_records s @ [r]\<rparr>)" for r
    using evolves_add [OF evolves_refl, of s x "s\<lparr>sv_secrets := oset x (length (sv_records s)) (sv_secrets s), sv_records := sv_records s @ [r]\<rparr>" r UNIV]
      None assms(1) by (simp add: secret_record_def evolves_def firm_def)
  show ?thesis
    unfolding t u by (intro firming, rule firm_new_record(2) [OF assms(1) so], simp, simp, simp, simp)
next
  case (Some b)
  with assms(2) have ab: "b = a" "ss_client (record_of s a) = None \<or> ss_client (record_of s a) = Some c"
    and t: "t = emit cf now (put_record a (add_pending 1 (record_of s a\<lparr>ss_client := Some c\<rparr>)) s)"
    by (auto simp: bind_secret_def Let_def split: if_splits option.splits)
  let ?r = "add_pending 1 (record_of s a\<lparr>ss_client := Some c\<rparr>)"
  have "keeps_record (record_of s a) ?r" using ab(2) by (auto simp: keeps_record_def add_pending_def)
  then have so: "sound (put_record a ?r s)" using evolves_put_record [OF evolves_refl, of s a ?r UNIV] assms(1)
    by (simp add: firm_def evolves_def)
  have a: "a < length (sv_records s)" using assms(1) Some ab(1) by (auto simp: firm_def sound_def)
  have "firm (Some (a, c)) (put_record a ?r s)"
    unfolding firm_def sv_fields
  proof (intro conjI allI impI)
    fix t f assume f: "map_of (sv_flights s) t = Some f \<and> binding f"
    with assms(1) obtain b where "b < length (sv_records s)" "fl_record f = Some b"
      "ss_client (record_of s b) = Some (br_client (fl_request f))" unfolding firm_def by blast
    with ab(2) show "\<exists>b < length (sv_records s). fl_record f = Some b
        \<and> ss_client (record_of (put_record a ?r s) b) = Some (br_client (fl_request f))"
      by (auto simp: record_of_put_record add_pending_def)
  qed (use assms so a in \<open>auto simp: firm_def record_of_put_record add_pending_def\<close>)
  then show ?thesis unfolding t by (intro firming)
qed

lemma bind_refused: "bind_secret cf now x c rs m s = (Inl e, t) \<Longrightarrow> t = s"
  by (auto simp: bind_secret_def Let_def split: if_splits option.splits)

lemma firm_connect:
  assumes "firm None s" "bk_requireSecret cf" shows "firm None (connect cf now f s)"
proof -
  let ?q = "fl_request f"
  let ?c = "br_client ?q" and ?x = "if 1 < length (br_params ?q) then br_params ?q ! 1 else []"
  obtain live t1 where 1: "(if ?x = [] then (None, s) else liveSecret cf now ?x s) = (live, t1)" by fastforce
  have t1: "firm None t1"
    using firm_idle(5) [OF assms(1), of cf now ?x] assms(1) 1 by (auto split: if_splits)
  obtain b t2 where 2: "bind_secret cf now ?x ?c None ''secret already used by another client'' t1 = (b, t2)" by fastforce
  show ?thesis
  proof (cases "live = None \<or> overClientCeiling cf ?c t1")
    case True
    then show ?thesis
      using assms(2) t1 unfolding connect_def Let_def 1 2 prod.case by (auto intro: firming)
  next
    case False
    show ?thesis
    proof (cases b)
      case (Inl e)
      then have "t2 = t1" using 2 bind_refused by blast
      with Inl t1 False show ?thesis unfolding connect_def Let_def 1 2 prod.case
        by (auto intro: firming)
    next
      case (Inr a)
      have t2: "firm (Some (a, ?c)) t2" using firm_bind [OF t1] 2 Inr by blast
      have "firm None (runHandler g (snd (beginApproval ?c t2)))" if "fl_request g = ?q" "fl_record g = Some a" "binding g" "fl_secret g \<noteq> []" for g
        using that by (intro firm_runHandler_binding [where a = a] firming) (simp_all add: t2)
      moreover have "?x \<noteq> []"
      proof
        assume "?x = []"
        then have "live = None" using 1 by (simp only: refl if_True prod.inject)
        with False show False by simp
      qed
      ultimately show ?thesis
        using False Inr unfolding connect_def Let_def 1 2 prod.case
        by (auto simp: case_prod_beta binding_def)
    qed
  qed
qed

lemma firm_accept:
  assumes "firm None s" shows "firm None (snd (acceptNostrConnect cf now uri i s))"
proof (cases "parseNostrConnectUri cf uri (Some (bk_maxRelaysPerClient cf))")
  case (Inl e)
  with assms show ?thesis by (simp add: acceptNostrConnect_def)
next
  case (Inr p)
  let ?c = "nc_client p" and ?x = "nc_secret p"
  let ?t1 = "snd (liveSecret cf now ?x s)"
  have t1: "firm None ?t1" by (intro firming assms)
  obtain b t2 where 2: "bind_secret cf now ?x ?c (Some (nc_relays p)) ''secret already in use'' ?t1 = (b, t2)" by fastforce
  show ?thesis
  proof (cases b)
    case (Inl e)
    then have "t2 = ?t1" using 2 bind_refused by blast
    with Inl t1 show ?thesis unfolding acceptNostrConnect_def Inr sum.case Let_def 2 prod.case by simp
  next
    case b: (Inr a)
    have t2: "firm (Some (a, ?c)) t2" using firm_bind [OF t1] 2 b by blast
    have "firm None (runHandler g (snd (beginApproval ?c t2)))"
      if "br_client (fl_request g) = ?c" "fl_record g = Some a" "binding g" "fl_secret g \<noteq> []" for g
      using that by (intro firm_runHandler_binding [where a = a] firming) (simp_all add: t2)
    moreover have "?x \<noteq> []"
      using Inr by (auto simp: parseNostrConnectUri_def Let_def split: option.splits prod.splits if_splits)
    ultimately show ?thesis using t1 b
      unfolding acceptNostrConnect_def Inr sum.case Let_def 2 prod.case by (auto simp: case_prod_beta binding_def)
  qed
qed

lemma firm_connected:
  assumes "firm (Some (a, br_client (fl_request f))) s" "fl_record f = Some a" shows "firm None (connected cf now f r s)"
proof -
  let ?s = "endApproval (br_client (fl_request f)) (fl_slot f) s"
  have s: "firm (Some (a, br_client (fl_request f))) ?s" by (intro firming assms(1))
  have "firm None (unbind_secret cf now a x ?s)" "firm None (drop_pending a ?s)" "firm None (confirm a rs ?s)" for x rs
    by (rule firm_unbind [OF s] firm_drop_pending [OF s] firm_confirm [OF s])+
  moreover have "firm None (fly (f\<lparr>fl_kind := Admitted\<rparr>) (snd (admit cf now c y us tm k t)))" if "firm None t" for c y us tm k t
    by (intro firm_fly firming that) (simp add: binding_def)
  moreover have "firm None (snd (admit cf now c y us tm k t))" if "firm None t" for c y us tm k t by (intro firming that)
  ultimately show ?thesis
    unfolding connected_def Let_def assms(2) unbind_opt_def option.case option.sel
    by (auto simp: case_prod_beta split: sum.split intro!: firm_respond)
qed

lemma firm_scanned:
  assumes "firm (Some (a, br_client (fl_request f))) s" "fl_record f = Some a" shows "firm None (scanned cf now f r s)"
proof -
  let ?s = "endApproval (br_client (fl_request f)) (fl_slot f) s"
  have s: "firm (Some (a, br_client (fl_request f))) ?s" by (intro firming assms(1))
  have "firm None (unbind_secret cf now a x ?s)" "firm None (drop_pending a ?s)" "firm None (confirm a rs ?s)" for x rs
    by (rule firm_unbind [OF s] firm_drop_pending [OF s] firm_confirm [OF s])+
  moreover have "firm None (fly (f\<lparr>fl_kind := Pairing\<rparr>) (snd (admit cf now c y us tm k t)))" if "firm None t" for c y us tm k t
    by (intro firm_fly firming that) (simp add: binding_def)
  moreover have "firm None (snd (admit cf now c y us tm k t))" if "firm None t" for c y us tm k t by (intro firming that)
  ultimately show ?thesis
    unfolding scanned_def Let_def assms(2) unbind_opt_def option.case option.sel
    by (auto simp: case_prod_beta split: sum.split intro!: firm_idle(8))
qed

lemma firm_dispatch:
  assumes "firm None s" "bk_requireSecret cf" shows "firm None (dispatch cf now q src s)"
  unfolding dispatch_def Let_def
  using assms by (auto intro!: firm_respond firm_connect firm_runHandler simp: binding_def)

interpretation firm: server_shapes "firm d" for d .

lemma firm_onEvent:
  assumes "firm None s" "bk_requireSecret cf" shows "firm None (onEvent cf now e src s)"
  unfolding onEvent_def Let_def
  by (intro firm.known_or_new firm.shapes firming firm_dispatch assms; assumption?)

lemma firm_settle:
  assumes "firm None s" shows "firm None (settle_flight cf now token r s)"
proof (cases "map_of (sv_flights s) token")
  case (Some f)
  note land = firm_land [OF assms Some]
  show ?thesis
    using land firm_connected firm_scanned assms
    by (cases "fl_kind f") (fastforce simp: settle_flight_def Some binding_def intro: firm_respond)+
qed (simp add: settle_flight_def assms)

lemma firm_proceed:
  assumes "firm None s" shows "firm None (proceed cf now token s)"
proof (cases "map_of (sv_flights s) token")
  case (Some f)
  note land = firm_land(1) [OF assms Some]
  show ?thesis
    using land assms
    by (cases "fl_kind f") (auto simp: proceed_def Some binding_def intro!: firming)
qed (simp add: proceed_def assms)

lemma firm_addition:
  assumes "firm None s" "ss_pending r = 0" "map_of (sv_secrets s) x = None"
  shows "firm None (s\<lparr>sv_secrets := oset x (length (sv_records s)) (sv_secrets s), sv_records := sv_records s @ [r]\<rparr>)"
proof (rule firm_new_record(1) [OF assms(1), where r = r])
  let ?t = "s\<lparr>sv_secrets := oset x (length (sv_records s)) (sv_secrets s), sv_records := sv_records s @ [r]\<rparr>"
  show "sound ?t"
    using evolves_add [OF evolves_refl, of s x ?t r UNIV] assms(1,3) by (simp add: secret_record_def evolves_def firm_def)
qed (simp_all add: assms(2))

lemma firm_createBunkerUri:
  assumes "firm None s" shows "firm None (snd (createBunkerUri cf now rs x ttl s))"
proof -
  have s: "firm None (sweepSecrets cf now s)" by (intro firming assms)
  have mint: "firm None (u\<lparr>sv_secrets := oset x (length (sv_records u)) xs, sv_records := sv_records u @
      [\<lparr>ss_relays = urls, ss_client = None, ss_confirmed = False, ss_pending = 0, ss_origin = FromBunker, ss_expiresAt = e\<rparr>]\<rparr>)"
    if "firm None u" "map_of (sv_secrets u) x = None" "xs = sv_secrets u" for u urls e xs
    unfolding that(3) by (intro firm_addition that) simp
  have again: "firm None (put_record a (record_of u a\<lparr>ss_relays := urls\<rparr>) u)" if "firm None u" for u a urls
    by (intro firm_record that) (simp_all add: keeps_record_def)
  have sched: "firm None (case e of None \<Rightarrow> u | Some t \<Rightarrow> scheduleSweep t u)" if "firm None u" for e u
    using that by (auto split: option.split intro: firming)
  have same: "sv_secrets (scheduleSweep t u) = sv_secrets u" for t u
    by (simp add: scheduleSweep_def)
  let ?raw = "case rs of None \<Rightarrow> sv_relays (sweepSecrets cf now s) | Some rs \<Rightarrow> if rs = [] then sv_relays (sweepSecrets cf now s) else rs"
  show ?thesis
  proof (cases "normalizeRelays cf ?raw")
    case None
    with s show ?thesis by (simp add: createBunkerUri_def Let_def)
  next
    case (Some urls)
    obtain r u where u: "addRelays cf urls (sweepSecrets cf now s) = (r, u)" by fastforce
    have fu: "firm None u" using firm_idle(12) [OF s, of cf urls] u by simp
    show ?thesis
      unfolding createBunkerUri_def Let_def Some option.case u prod.case
      using fu
      by (cases r; cases "map_of (sv_secrets u) x")
        (auto simp: same intro!: mint again sched firming)
  qed
qed

lemma firm_set_secrets:
  assumes "firm None s" "\<And>e. e \<in> set es \<Longrightarrow> ss_pending (snd e) = 0" shows "firm None (fold set_secret es s)"
  using assms
proof (induction es arbitrary: s)
  case (Cons e es)
  have "sound (set_secret e s)"
    using Cons.prems(1) by (auto simp: firm_def sound_def sv_fields less_Suc_eq split: if_splits)
  then have "firm None (set_secret e s)"
    by (intro firm_new_record(1) [OF Cons.prems(1), where r = "snd e"]) (simp_all add: sv_fields Cons.prems(2))
  with Cons show ?case by simp
qed simp

lemma restored_pending:
  "restored_secrets cf now known rs = Inr out \<Longrightarrow> (\<And>x r. (x, r) \<in> set known \<Longrightarrow> ss_pending r = 0) \<Longrightarrow>
    (x, r) \<in> set out \<Longrightarrow> ss_pending r = 0"
proof (induction cf now known rs arbitrary: x r rule: restored_secrets.induct)
  case (2 cf now known v vs)
  from "2.prems"(1) obtain o' where o: "restored_secret cf now (okeys known) v = Inr o'"
    "(case o' of None \<Rightarrow> restored_secrets cf now known vs | Some (y, q) \<Rightarrow> restored_secrets cf now (oset y q known) vs) = Inr out"
    by auto
  show ?case
  proof (cases o')
    case None
    with o "2.IH"(1) "2.prems"(2,3) show ?thesis by simp
  next
    case (Some p)
    obtain y q where p: "p = (y, q)" by fastforce
    have q: "ss_pending q = 0" using o(1) Some p by (auto simp: restored_secret_def split: if_splits)
    have "ss_pending r' = 0" if "(x', r') \<in> set (oset y q known)" for x' r'
    proof -
      have "set (oset y q known) \<subseteq> insert (y, q) (set known)" by (induction known) auto
      with that q "2.prems"(2) show ?thesis by auto
    qed
    then show ?thesis using "2.IH"(2) o Some p "2.prems"(3) by simp
  qed
qed (metis restored_secrets.simps(1) sum.inject(2))

lemma planD:
  assumes "restore_plan cf now b v s = Inr (g, es, cs)"
  obtains secrets clients where "validateState cf now v = Inr (secrets, clients)" "setSecrets s secrets = Inr es"
    "cs = filter (\<lambda>c. \<not> isConnected (pc_client c) s) clients"
  using assms by (force simp: restore_plan_def Let_def)

lemma validate_pending: "validateState cf now v = Inr (secrets, clients) \<Longrightarrow> (x, r) \<in> set secrets \<Longrightarrow> ss_pending r = 0"
  using restored_pending [of cf now "[]" _ secrets x r] by (auto simp: validateState_def split: sval.splits)

lemma firm_restore:
  assumes "firm None s" shows "firm None (snd (restore cf now b v s))"
proof (cases "restore_plan cf now b v s")
  case (Inl e)
  with assms show ?thesis by (simp add: restore_def)
next
  case (Inr plan)
  obtain g es cs where p: "plan = (g, es, cs)" by (cases plan) auto
  obtain secrets clients where plan: "validateState cf now v = Inr (secrets, clients)" "setSecrets s secrets = Inr es"
    by (rule planD [OF Inr [unfolded p]])
  have "ss_pending (snd e) = 0" if "e \<in> set es" for e
    using setSecrets_kept [OF plan(2)] that validate_pending [OF plan(1), of "fst e" "snd e"] by (cases e) auto
  moreover have "firm None (s\<lparr>sv_muted := True\<rparr>)"
    by (rule firm_same [OF assms]) (intro evolving, simp_all)
  ultimately have u: "firm None (fold set_secret es (s\<lparr>sv_muted := True\<rparr>))" (is "firm None ?u") by (intro firm_set_secrets)
  have w: "firm None ((snd (admit_all cf now cs ?u))\<lparr>sv_muted := False\<rparr>)" (is "firm None ?w")
    by (rule firm_same [OF u]) (intro evolving, simp_all add: idle)
  have "firm None (setGeneration \<lfloor>g\<rfloor> ?w)" if "of_int (sv_generation ?w) < g"
    by (rule firm_same [OF w]) (intro evolving, use that in linarith, simp_all add: idle)
  with w show ?thesis
    by (auto simp: restore_def Inr p Let_def case_prod_beta intro!: firming)
qed

lemma firm_act:
  assumes "firm None s" "bk_requireSecret cf" shows "firm None (act cf now op s)"
proof -
  have rev: "firm None (snd (revokeSecret cf now x s))" for x
    by (rule firm_same [OF assms(1) evolves_revokeSecret [OF evolves_refl, of x "{x}"]]) (simp_all add: idle)
  have more: "firm None (snd (sendAuthUrl n u s))" "firm None (snd (start s))" "firm None (stop s)" "firm None (snd (addRelay cf u s))" for n u
    by (rule firm_same [OF assms(1)], (intro evolving), simp add: idle, simp add: idle)+
  show ?thesis
    using assms rev more
    by (cases op)
      (auto simp: act_def exportState_def Let_def intro!: firm_onEvent firm_settle firm_proceed firm_createBunkerUri firm_accept
        firm_restore firming)
qed

lemma running_firm: "bunker_runs cf s \<Longrightarrow> bk_requireSecret cf \<Longrightarrow> firm None s"
proof (induction rule: bunker_runs.induct)
  case (built relays generation s)
  then show ?case
    using sound_built [OF built(1)]
    by (auto simp: BunkerServer_def firm_def split: sum.splits if_splits option.splits)
qed (simp add: firm_act)

end
