(* ===== verification/Bunker_Pairing.thy ===== *)
theory Bunker_Pairing
  imports Bunker_Backing
begin

section \<open>The remote signer server: pairing holds across a restart\<close>

text \<open>
  A server that requires secrets, restored once after it was built, never has a client that is not
  backed by a confirmed secret bound to it. A second restore can break this: it admits a client
  whose secret memory holds unconfirmed, and revoking that secret once it has lapsed does nothing.
\<close>

definition vouches :: "server \<Rightarrow> string option \<Rightarrow> string \<Rightarrow> bool" where
  "vouches s o' c \<longleftrightarrow>
     (\<exists>x a. o' = Some x \<and> map_of (sv_secrets s) x = Some a \<and> ss_confirmed (record_of s a) \<and> ss_client (record_of s a) = Some c)"

definition backed :: "server \<Rightarrow> bool" where
  "backed s \<longleftrightarrow> (\<forall>c cl. map_of (sv_clients s) c = Some cl \<longrightarrow> vouches s (cl_secret cl) c)"

lemma vouches_kept:
  assumes "sound s" "evolves R s t" "vouches s o' c" "\<And>x. o' = Some x \<Longrightarrow> x \<notin> R" shows "vouches t o' c"
proof -
  note ev = evolves_facts [OF assms(2,1)]
  from assms(3) obtain x a where x: "o' = Some x" "map_of (sv_secrets s) x = Some a" "ss_confirmed (record_of s a)"
    "ss_client (record_of s a) = Some c" by (auto simp: vouches_def)
  then have "a < length (sv_records s)" using assms(1) by (auto simp: sound_def)
  then have "map_of (sv_secrets t) x = Some a" "keeps_record (record_of s a) (record_of t a)" using ev x assms(4) by blast+
  with x show ?thesis by (auto simp: vouches_def keeps_record_def)
qed

lemma vouches_evolves: "sound s \<Longrightarrow> evolves {} s t \<Longrightarrow> vouches s o' c \<Longrightarrow> vouches t o' c"
  by (rule vouches_kept [where R = "{}"]) auto

lemma backed_evolves:
  assumes "sound s" "evolves {} s t" "backed s"
    and "\<And>c cl. map_of (sv_clients t) c = Some cl \<Longrightarrow> \<exists>cl0. map_of (sv_clients s) c = Some cl0 \<and> cl_secret cl0 = cl_secret cl"
  shows "backed t"
  unfolding backed_def
proof (intro allI impI)
  fix c cl assume "map_of (sv_clients t) c = Some cl"
  then obtain cl0 where "map_of (sv_clients s) c = Some cl0" "cl_secret cl0 = cl_secret cl" using assms(4) by blast
  then show "vouches t (cl_secret cl) c"
    using assms(3) vouches_evolves [OF assms(1,2)] unfolding backed_def by metis
qed

lemma backed_same:
  "sound s \<Longrightarrow> evolves {} s t \<Longrightarrow> backed s \<Longrightarrow> sv_clients t = sv_clients s \<Longrightarrow> backed t"
  by (erule backed_evolves) simp_all

lemma admit_clients:
  "sv_clients (snd (admit cf now c y us tm k s)) = sv_clients s
    \<or> (\<exists>cl. cl_secret cl = y \<and> sv_clients (snd (admit cf now c y us tm k s)) = oset c cl (sv_clients s))"
proof (cases "normalizeRelays cf us")
  case (Some rs)
  let ?cl = "\<lparr>cl_connectedAt = tm, cl_secret = y, cl_relays = rs,
    cl_seen = (case map_of (sv_clients s) c of Some cl \<Rightarrow> cl_seen cl
      | None \<Rightarrow> (case map_of (sv_strangers s) c of None \<Rightarrow> [] | Some w \<Rightarrow> w))\<rparr>"
  have "sv_clients (snd (admit cf now c y us tm k s)) = sv_clients s
      \<or> sv_clients (snd (admit cf now c y us tm k s)) = oset c ?cl (sv_clients s)"
    by (cases "map_of (sv_clients s) c") (simp_all add: admit_def Let_def Some sv_fields)
  then show ?thesis by (auto intro!: exI [of _ ?cl])
qed (simp add: admit_def)

lemma backed_admit:
  assumes "sound s" "backed s" "vouches s y c" shows "backed (snd (admit cf now c y us tm k s))"
proof -
  let ?t = "snd (admit cf now c y us tm k s)"
  have ev: "evolves {} s ?t" by (intro evolving)
  from admit_clients [of cf now c y us tm k s] show ?thesis
  proof (elim disjE exE conjE)
    assume "sv_clients ?t = sv_clients s"
    then show ?thesis by (rule backed_same [OF assms(1) ev assms(2)])
  next
    fix cl assume cl: "cl_secret cl = y" "sv_clients ?t = oset c cl (sv_clients s)"
    show ?thesis
      unfolding backed_def
      using cl assms(2,3) vouches_evolves [OF assms(1) ev] by (auto simp: backed_def split: if_splits)
  qed
qed

lemma backed_admit_all:
  "sound s \<Longrightarrow> backed s \<Longrightarrow> (\<And>p. p \<in> set cs \<Longrightarrow> vouches s (pc_secret p) (pc_client p)) \<Longrightarrow> backed (snd (admit_all cf now cs s))"
proof (induction cs arbitrary: s)
  case (Cons p cs)
  let ?t = "snd (admit cf now (pc_client p) (pc_secret p) (pc_relays p) (pc_connectedAt p) True s)"
  have ev: "evolves {} s ?t" by (intro evolving)
  then have "sound ?t" using Cons.prems(1) by (simp add: evolves_def)
  moreover have "backed ?t" using Cons.prems by (intro backed_admit) simp_all
  moreover have "vouches ?t (pc_secret q) (pc_client q)" if "q \<in> set cs" for q
    using Cons.prems(3) that by (intro vouches_evolves [OF Cons.prems(1) ev]) simp
  ultimately show ?case using Cons.IH [of ?t] by (simp add: case_prod_beta)
qed simp

subsection \<open>A restore onto an empty server\<close>

lemma secret_record_set_secrets:
  "sound s \<Longrightarrow> distinct (okeys es) \<Longrightarrow>
    secret_record (fold set_secret es s) x = (case map_of es x of None \<Rightarrow> secret_record s x | Some r \<Rightarrow> Some r)"
proof (induction es arbitrary: s)
  case (Cons e es)
  have so: "sound (set_secret e s)"
    using Cons.prems(1) by (auto simp: sound_def sv_fields less_Suc_eq split: if_splits)
  have step: "secret_record (set_secret e s) x = (if x = fst e then Some (snd e) else secret_record s x)"
    using Cons.prems(1)
    by (cases "map_of (sv_secrets s) x")
      (auto simp: secret_record_def sv_fields record_of_def nth_append sound_def)
  have "map_of es (fst e) = None" using Cons.prems(2) by (simp add: map_of_eq_None_iff)
  with Cons.IH [OF so] Cons.prems(2) step show ?case
    by (cases e) (auto split: option.split)
qed simp

lemma restored_client_vouched:
  assumes "restored_client cf secrets taken v = Inr p" "bk_requireSecret cf"
  shows "\<exists>x r. pc_secret p = Some x \<and> map_of secrets x = Some r \<and> ss_confirmed r \<and> ss_client r = Some (pc_client p)"
proof -
  from assms(1) obtain client tm relays secret where
    p: "p = \<lparr>pc_client = client, pc_secret = secret, pc_relays = relays, pc_connectedAt = tm\<rparr>" and
    secret: "(case sprop ''secret'' v of
               S_undefined \<Rightarrow> if bk_requireSecret cf then Inl ''a client needs the secret it paired with'' else Inr None
             | S_string secret \<Rightarrow>
                 (case map_of secrets secret of
                    None \<Rightarrow> Inl ''a client secret must be in the state, bound to that client and confirmed''
                  | Some r \<Rightarrow>
                      if ss_client r \<noteq> Some client \<or> \<not> ss_confirmed r
                      then Inl ''a client secret must be in the state, bound to that client and confirmed''
                      else if \<not> same_relays (ss_relays r) relays then Inl ''client relays differ from its secret relays''
                      else Inr (Some secret))
             | _ \<Rightarrow> Inl ''client secret must be a string'') = Inr secret"
    by (auto simp: restored_client_def simp del: sval.case)
  show ?thesis
    using secret assms(2) by (auto simp: p split: sval.splits option.splits if_splits)
qed

lemma restored_clients_vouched:
  "restored_clients cf secrets known vs = Inr out \<Longrightarrow> bk_requireSecret cf \<Longrightarrow>
    (\<And>p. p \<in> set known \<Longrightarrow> \<exists>x r. pc_secret p = Some x \<and> map_of secrets x = Some r \<and> ss_confirmed r \<and> ss_client r = Some (pc_client p)) \<Longrightarrow>
    p \<in> set out \<Longrightarrow> \<exists>x r. pc_secret p = Some x \<and> map_of secrets x = Some r \<and> ss_confirmed r \<and> ss_client r = Some (pc_client p)"
proof (induction cf secrets known vs arbitrary: p rule: restored_clients.induct)
  case (2 cf secrets known c cs)
  from "2.prems"(1) obtain q where q: "restored_client cf secrets (map pc_client known) c = Inr q"
    "restored_clients cf secrets (known @ [q]) cs = Inr out" by auto
  show ?case
    by (rule "2.IH" [OF q(2) "2.prems"(2) _ "2.prems"(4)])
      (use "2.prems"(3) restored_client_vouched [OF q(1) "2.prems"(2)] in auto)
qed (metis restored_clients.simps(1) sum.inject(2))

lemma setSecrets_empty: "sv_secrets s = [] \<Longrightarrow> setSecrets s es = Inr es"
  by (induction es) (auto simp: secret_record_def)

lemma validate_clients_vouched:
  assumes "validateState cf now v = Inr (secrets, clients)" "bk_requireSecret cf" "p \<in> set clients"
  shows "\<exists>x r. pc_secret p = Some x \<and> map_of secrets x = Some r \<and> ss_confirmed r \<and> ss_client r = Some (pc_client p)"
  using assms restored_clients_vouched [of cf secrets "[]" _ clients p]
  by (auto simp: validateState_def split: sval.splits)

lemma backed_restore_empty:
  assumes "sound s" "sv_secrets s = []" "sv_clients s = []" "bk_requireSecret cf"
  shows "backed (snd (restore cf now b v s))"
proof (cases "restore_plan cf now b v s")
  case (Inl e)
  with assms show ?thesis by (simp add: restore_def backed_def)
next
  case (Inr plan)
  obtain g es cs where p: "plan = (g, es, cs)" by (cases plan) auto
  obtain clients where plan: "validateState cf now v = Inr (es, clients)" "set cs \<subseteq> set clients"
    using planD [OF Inr [unfolded p]] setSecrets_empty [OF assms(2)] by (metis filter_is_subset sum.inject(2))
  note facts = restore_planD [OF Inr [unfolded p]]
  let ?m = "s\<lparr>sv_muted := True\<rparr>"
  have m: "sound ?m" using assms(1) by (simp add: sound_def)
  let ?u = "fold set_secret es ?m"
  have "evolves {} ?m ?u"
    by (rule evolves_set_secrets [OF evolves_refl facts(3)]) (simp add: unheld_def secret_record_def assms(2))
  then have u: "sound ?u" using m by (simp add: evolves_def)
  have "backed ?u" by (simp add: backed_def same_clients assms(3))
  moreover have "vouches ?u (pc_secret p) (pc_client p)" if "p \<in> set cs" for p
  proof -
    from that plan obtain x r where x: "pc_secret p = Some x" "map_of es x = Some r" "ss_confirmed r" "ss_client r = Some (pc_client p)"
      using validate_clients_vouched [OF plan(1) assms(4)] by blast
    then have "secret_record ?u x = Some r" using secret_record_set_secrets [OF m facts(3)] by simp
    with x show ?thesis by (auto simp: vouches_def secret_record_def)
  qed
  ultimately have w: "backed (snd (admit_all cf now cs ?u))" (is "backed ?w") by (intro backed_admit_all [OF u])
  have "evolves {} ?u ?w" by (intro evolving)
  then have sw: "sound ?w" using u by (simp add: evolves_def)
  have 1: "evolves {} ?w (emit cf now (?w\<lparr>sv_muted := False\<rparr>))" by (intro evolving)
  have 2: "evolves {} ?w (emit cf now (setGeneration \<lfloor>g\<rfloor> (?w\<lparr>sv_muted := False\<rparr>)))" if "of_int (sv_generation ?w) < g"
    by (intro evolving) (use that in \<open>simp, linarith\<close>)
  have clients: "sv_clients (emit cf now (setGeneration h (t\<lparr>sv_muted := False\<rparr>))) = sv_clients t" for h t
    by (simp add: sv_fields setGeneration_def)
  show ?thesis
    using backed_same [OF sw 1 w] backed_same [OF sw 2 w clients]
    by (auto simp: restore_def Inr p Let_def case_prod_beta sv_fields)
qed

subsection \<open>Every operation but a restore\<close>

definition same_pairing :: "server \<Rightarrow> server \<Rightarrow> bool" where
  "same_pairing s t \<longleftrightarrow>
     (\<forall>c cl. map_of (sv_clients t) c = Some cl \<longrightarrow> (\<exists>cl0. map_of (sv_clients s) c = Some cl0 \<and> cl_secret cl0 = cl_secret cl))"

interpretation pairing: server_shapes "same_pairing s" for s .

named_theorems pairings

lemma pairing_refl [pairings]: "same_pairing s s"
  by (simp add: same_pairing_def)

lemma pairing_same: "same_pairing s t \<Longrightarrow> sv_clients u = sv_clients t \<Longrightarrow> same_pairing s u"
  by (simp add: same_pairing_def)

lemma pairing_steps [pairings]:
  "same_pairing s t \<Longrightarrow> same_pairing s (send c i r us t)" "same_pairing s t \<Longrightarrow> same_pairing s (fly f t)"
  "same_pairing s t \<Longrightarrow> same_pairing s (land token t)" "same_pairing s t \<Longrightarrow> same_pairing s (runHandler f t)"
  "same_pairing s t \<Longrightarrow> same_pairing s (snd (beginApproval c t))" "same_pairing s t \<Longrightarrow> same_pairing s (endApproval c b t)"
  "same_pairing s t \<Longrightarrow> same_pairing s (scan_ended f e t)" "same_pairing s t \<Longrightarrow> same_pairing s (snd (liveSecret cf now x t))"
  "same_pairing s t \<Longrightarrow> same_pairing s (snd (bind_secret cf now x c rs m t))" "same_pairing s t \<Longrightarrow> same_pairing s (respond cf f q t)"
  "same_pairing s t \<Longrightarrow> same_pairing s (emit cf now t)" "same_pairing s t \<Longrightarrow> same_pairing s (sweepSecrets cf now t)"
  "same_pairing s t \<Longrightarrow> same_pairing s (put_record a rec t)" "same_pairing s t \<Longrightarrow> same_pairing s (scheduleSweep tm t)"
  by (erule pairing_same, simp add: same_clients sv_fields)+

lemma pairing_seen [pairings]: "same_pairing s t \<Longrightarrow> same_pairing s (snd (seen cf p k t))"
  by (cases "map_of (sv_clients t) p") (auto simp: seen_def Let_def same_pairing_def split: prod.split)

lemma pairing_disconnect [pairings]: "same_pairing s t \<Longrightarrow> same_pairing s (disconnectClient cf now c t)"
  by (auto simp: disconnectClient_def same_pairing_def sv_fields split: option.split)

lemma pairing_connect [pairings]: "same_pairing s t \<Longrightarrow> same_pairing s (connect cf now f t)"
  unfolding connect_def Let_def by (intro pairing.shapes pairings; assumption?)

lemma pairing_accept [pairings]: "same_pairing s t \<Longrightarrow> same_pairing s (snd (acceptNostrConnect cf now uri i t))"
  unfolding acceptNostrConnect_def Let_def by (intro pairing.shapes pairings; assumption?)

lemma pairing_dispatch [pairings]: "same_pairing s t \<Longrightarrow> same_pairing s (dispatch cf now q src t)"
  unfolding dispatch_def Let_def by (intro pairing.shapes pairings; assumption?)

lemma pairing_onEvent [pairings]: "same_pairing s t \<Longrightarrow> same_pairing s (onEvent cf now e src t)"
  unfolding onEvent_def Let_def by (intro pairing.known_or_new pairing.shapes pairings; assumption?)

lemma pairing_proceed [pairings]: "same_pairing s t \<Longrightarrow> same_pairing s (proceed cf now token t)"
  unfolding proceed_def
  by (cases "map_of (sv_flights t) token") (auto split: flight_kind.split intro!: pairings)

lemma addRelays_clients [same_clients]: "sv_clients (snd (addRelays cf us s)) = sv_clients s"
proof (induction us arbitrary: s)
  case (Cons u us)
  have "sv_clients (snd (addRelay cf u s)) = sv_clients s" by (simp add: addRelay_def sv_fields split: option.split)
  then show ?case using Cons [of "snd (addRelay cf u s)"] by (auto split: prod.split sum.split)
qed simp

lemma pairing_updates [pairings]:
  "same_pairing s t \<Longrightarrow> same_pairing s (t\<lparr>sv_secrets := xs\<rparr>)" "same_pairing s t \<Longrightarrow> same_pairing s (t\<lparr>sv_records := ys\<rparr>)"
  "same_pairing s t \<Longrightarrow> same_pairing s (snd (addRelays cf us t))"
  by (erule pairing_same, simp add: same_clients)+

lemma pairing_mint [pairings]: "same_pairing s t \<Longrightarrow> same_pairing s (snd (createBunkerUri cf now rs x ttl t))"
  unfolding createBunkerUri_def Let_def by (intro pairing.shapes pairings; assumption?)

lemma backed_settled:
  assumes "firm (Some (a, c)) s" "backed s" "map_of (sv_secrets s) x = Some a"
  shows "backed (snd (admit cf now c (Some x) us tm k (confirm a rs s)))"
proof -
  have s: "sound s" using assms(1) by (simp add: firm_def)
  have ev: "evolves {} s (confirm a rs s)" by (intro evolving)
  have "sound (confirm a rs s)" using s ev by (simp add: evolves_def)
  moreover have "backed (confirm a rs s)" by (rule backed_same [OF s ev assms(2)]) (simp add: same_clients)
  moreover have "vouches (confirm a rs s) (Some x) c"
    using assms(1,3) by (auto simp: vouches_def confirm_def Let_def sv_fields record_of_put_record firm_def add_pending_def)
  ultimately show ?thesis by (rule backed_admit)
qed

lemma backed_pairing:
  "sound s \<Longrightarrow> evolves {} s t \<Longrightarrow> backed s \<Longrightarrow> same_pairing s t \<Longrightarrow> backed t"
  by (rule backed_evolves) (auto simp: same_pairing_def)

lemma backed_respond: "sound s \<Longrightarrow> backed s \<Longrightarrow> backed (respond cf f r s)"
  by (rule backed_same [where s = s]) (auto simp: same_clients intro: evolving)

lemma backed_connected:
  assumes "firm (Some (a, br_client (fl_request f))) s" "fl_record f = Some a" "fl_secret f \<noteq> []" "backed s"
  shows "backed (connected cf now f r s)"
proof -
  let ?c = "br_client (fl_request f)" and ?x = "fl_secret f"
  let ?s = "endApproval ?c (fl_slot f) s"
  have s: "firm (Some (a, ?c)) ?s" by (intro firming assms(1))
  have so: "sound ?s" using s by (simp add: firm_def)
  have b: "backed ?s"
    by (rule backed_same [of s]) (use assms firm_sound in \<open>auto simp: same_clients intro: evolving\<close>)
  have same: "backed (respond cf f q t)" if "evolves {} ?s t" "sv_clients t = sv_clients ?s" for q t
    by (rule backed_same [OF so _ b]) (use that in \<open>auto simp: same_clients intro: evolving\<close>)
  have kept: "evolves {} ?s (unbind_secret cf now a ?x ?s)" "evolves {} ?s (drop_pending a ?s)" by (intro evolving)+
  have admitted: "backed (respond cf f q (snd (admit cf now ?c (Some ?x) us tm k (confirm a rs ?s))))"
    "backed (fly g (snd (admit cf now ?c (Some ?x) us tm k (confirm a rs ?s))))"
    if "map_of (sv_secrets ?s) ?x = Some a" for q us tm k rs g
  proof -
    let ?t = "snd (admit cf now ?c (Some ?x) us tm k (confirm a rs ?s))"
    have t: "backed ?t" by (rule backed_settled [OF s b that])
    have "evolves {} ?s ?t" by (intro evolving)
    then have st: "sound ?t" using so by (simp add: evolves_def)
    then show "backed (respond cf f q ?t)" using t by (rule backed_respond)
    show "backed (fly g ?t)" by (rule backed_same [OF st _ t]) (auto simp: same_clients intro: evolving)
  qed
  show ?thesis
    using assms(3) same kept admitted
    unfolding connected_def Let_def assms(2) unbind_opt_def option.case option.sel
    by (auto simp: case_prod_beta revoked_def same_clients split: sum.split)
qed

lemma backed_scanned:
  assumes "firm (Some (a, br_client (fl_request f))) s" "fl_record f = Some a" "backed s"
  shows "backed (scanned cf now f r s)"
proof -
  let ?c = "br_client (fl_request f)" and ?x = "fl_secret f"
  let ?s = "endApproval ?c (fl_slot f) s"
  have s: "firm (Some (a, ?c)) ?s" by (intro firming assms(1))
  have so: "sound ?s" using s by (simp add: firm_def)
  have b: "backed ?s"
    by (rule backed_same [of s]) (use assms firm_sound in \<open>auto simp: same_clients intro: evolving\<close>)
  have same: "backed (scan_ended f e t)" if "evolves {} ?s t" "sv_clients t = sv_clients ?s" for e t
    by (rule backed_same [OF so _ b]) (use that in \<open>auto simp: same_clients intro: evolving\<close>)
  have kept: "evolves {} ?s (unbind_secret cf now a ?x ?s)" "evolves {} ?s (drop_pending a ?s)" by (intro evolving)+
  have admitted: "backed (scan_ended f e (snd (admit cf now ?c (Some ?x) us tm k (confirm a rs ?s))))"
    "backed (fly g (snd (admit cf now ?c (Some ?x) us tm k (confirm a rs ?s))))"
    if "map_of (sv_secrets ?s) ?x = Some a" for e us tm k rs g
  proof -
    let ?t = "snd (admit cf now ?c (Some ?x) us tm k (confirm a rs ?s))"
    have t: "backed ?t" by (rule backed_settled [OF s b that])
    have "evolves {} ?s ?t" by (intro evolving)
    then have st: "sound ?t" using so by (simp add: evolves_def)
    show "backed (scan_ended f e ?t)" "backed (fly g ?t)"
      by (rule backed_same [OF st _ t]; auto simp: same_clients intro: evolving)+
  qed
  show ?thesis
    using same kept admitted
    unfolding scanned_def Let_def assms(2) unbind_opt_def option.case option.sel
    by (auto simp: case_prod_beta revoked_def same_clients split: sum.split)
qed

lemma backed_settle:
  assumes "firm None s" "backed s" shows "backed (settle_flight cf now token r s)"
proof (cases "map_of (sv_flights s) token")
  case (Some f)
  have s: "sound s" using assms(1) by (simp add: firm_def)
  have ev: "evolves {} s (land token s)" by (intro evolving)
  have b: "backed (land token s)" by (rule backed_same [OF s ev assms(2)]) (simp add: same_clients)
  have sl: "sound (land token s)" using ev s by (simp add: evolves_def)
  note land = firm_land(2) [OF assms(1) Some]
  have "fl_secret f \<noteq> []" if "binding f" using assms(1) Some that unfolding firm_def by blast
  then show ?thesis
    using land backed_connected [OF _ _ _ b] backed_scanned [OF _ _ b] backed_respond [OF sl b] assms(2)
    by (cases "fl_kind f") (fastforce simp: settle_flight_def Some binding_def)+
qed (simp add: settle_flight_def assms)

lemma backed_revoke:
  assumes "sound s" "backed s" shows "backed (snd (revokeSecret cf now x s))"
proof (cases "map_of (sv_secrets s) x")
  case (Some a)
  let ?t = "snd (revokeSecret cf now x s)"
  have ev: "evolves {x} s ?t" by (intro evolving) simp
  show ?thesis
    unfolding backed_def
  proof (intro allI impI)
    fix c cl assume cl: "map_of (sv_clients ?t) c = Some cl"
    have was: "map_of (sv_clients s) c = Some cl"
      and left: "ss_client (record_of s a) = Some c \<Longrightarrow> cl_secret cl \<noteq> Some x"
      using cl Some
      by (cases "ss_client (record_of s a)"; auto simp: revokeSecret_def Let_def disconnectClient_def sv_fields
          split: if_splits option.splits)+
    have "vouches s (cl_secret cl) c" using was assms(2) by (simp add: backed_def)
    moreover from this have "cl_secret cl \<noteq> Some x" using left Some by (auto simp: vouches_def)
    ultimately show "vouches ?t (cl_secret cl) c" by (intro vouches_kept [OF assms(1) ev]) auto
  qed
qed (simp add: revokeSecret_def assms(2))

lemma backed_act:
  assumes "firm None s" "backed s" "\<And>b v. op \<noteq> Restore b v" shows "backed (act cf now op s)"
proof -
  have s: "sound s" using assms(1) by (simp add: firm_def)
  have quiet: "backed t" if "evolves {} s t" "same_pairing s t" for t
    by (rule backed_pairing [OF s that(1) assms(2) that(2)])
  have still: "backed t" if "evolves {} s t" "sv_clients t = sv_clients s" for t
    by (rule backed_same [OF s that(1) assms(2) that(2)])
  have "sv_clients (snd (sendAuthUrl n u s)) = sv_clients s" "sv_clients (snd (start s)) = sv_clients s"
    "sv_clients (stop s) = sv_clients s" "sv_clients (snd (addRelay cf u s)) = sv_clients s" for n u
    by (simp_all add: sendAuthUrl_def start_def stop_def addRelay_def Let_def sv_fields split: option.split)
  then have "backed (snd (sendAuthUrl n u s))" "backed (snd (start s))" "backed (stop s)" "backed (snd (addRelay cf u s))"
    "backed (sweepSecrets cf now s)" for n u
    by (auto intro!: still evolving simp: sv_fields)
  moreover have "backed (onEvent cf now e src s)" "backed (proceed cf now token s)" "backed (snd (createBunkerUri cf now us x ttl s))"
    "backed (snd (acceptNostrConnect cf now uri i s))" "backed (disconnectClient cf now c s)" for e src token us x ttl uri i c
    by (intro quiet pairings evolving)+
  ultimately show ?thesis
    using backed_settle [OF assms(1,2)] backed_revoke [OF s assms(2)]
    by (cases op) (simp_all add: act_def exportState_def Let_def assms(3))
qed

text \<open>C8: However a server that requires secrets was restarted, and whatever it goes through afterwards
  short of another restore, each connected client holds a secret of the server that is confirmed
  and bound to that very client.\<close>

theorem connected_client_is_backed:
  assumes "bk_requireSecret cf" "BunkerServer cf relays generation = Inr s0"
    and "s = acts cf ops (snd (restore cf now allowUnsigned state s0))"
    and "\<forall>(now, op) \<in> set ops. \<forall>b v. op \<noteq> Restore b v"
    and "map_of (sv_clients s) c = Some cl"
  shows "\<exists>x r. cl_secret cl = Some x \<and> secret_record s x = Some r \<and> ss_confirmed r \<and> ss_client r = Some c"
proof -
  let ?s1 = "snd (restore cf now allowUnsigned state s0)"
  have r0: "bunker_runs cf s0" using assms(2) by (rule bunker_runs.built)
  have "act cf now (Restore allowUnsigned state) s0 = ?s1" by (simp add: act_def)
  then have r1: "bunker_runs cf ?s1" using bunker_runs.acted [OF r0, of now "Restore allowUnsigned state"] by simp
  have "sv_secrets s0 = []" "sv_clients s0 = []"
    using assms(2) by (auto simp: BunkerServer_def split: sum.splits if_splits option.splits)
  then have b1: "backed ?s1" by (intro backed_restore_empty running_sound [OF r0] assms(1))
  have "backed (acts cf ops t) \<and> bunker_runs cf (acts cf ops t)" if "backed t" "bunker_runs cf t" for t
    using assms(4) that
  proof (induction ops arbitrary: t)
    case (Cons o' ops)
    obtain tm op where o: "o' = (tm, op)" by fastforce
    have "backed (act cf tm op t)"
      using Cons.prems o running_firm [OF Cons.prems(3) assms(1)] by (intro backed_act) auto
    moreover have "bunker_runs cf (act cf tm op t)" using Cons.prems(3) by (rule bunker_runs.acted)
    ultimately show ?case using Cons o by (simp add: acts_def)
  qed (simp add: acts_def)
  from this [OF b1 r1] have "vouches s (cl_secret cl) c" using assms(3,5) by (simp add: backed_def)
  then show ?thesis by (auto simp: vouches_def secret_record_def)
qed

theorem connected_client_is_backed_witness:
  "\<exists>x r. cl_secret (the (map_of (sv_clients (acts demo_bunker [(10000, Start)] (snd (restore demo_bunker 9000 False demo_state demo_built)))) alice))
      = Some x \<and> secret_record (acts demo_bunker [(10000, Start)] (snd (restore demo_bunker 9000 False demo_state demo_built))) x = Some r
      \<and> ss_confirmed r \<and> ss_client r = Some alice"
  by (rule connected_client_is_backed [OF _ demo_constructor refl], code_simp, simp, code_simp)

end
