(* ===== verification/Bunker_Restart.thy ===== *)
theory Bunker_Restart
  imports Bunker_Pairing
begin

section \<open>The remote signer server: refused and accepted states\<close>

text \<open>
  A refused state changes nothing, as long as the spelling of relay URLs is settled after one
  normalisation; a state that meets the conditions of the validation is restored as it was
  exported; an event delivered again does nothing.
\<close>

definition settled_spelling :: "bunker \<Rightarrow> bool" where
  "settled_spelling cf \<longleftrightarrow> (\<forall>u v. bk_norm cf u = Some v \<longrightarrow> bk_norm cf v = Some v)"

definition normal_relays :: "bunker \<Rightarrow> string list \<Rightarrow> bool" where
  "normal_relays cf us \<longleftrightarrow> distinct us \<and> (\<forall>u \<in> set us. bk_norm cf u = Some u)"

lemma normalize_onto_normal:
  "normalize_onto cf out us = Some vs \<Longrightarrow> settled_spelling cf \<Longrightarrow> normal_relays cf out \<Longrightarrow> normal_relays cf vs"
proof (induction us arbitrary: out)
  case (Cons raw us)
  from Cons.prems(1) obtain url where url: "bk_norm cf raw = Some url" by (auto split: option.splits)
  then have "bk_norm cf url = Some url" using Cons.prems(2) by (simp add: settled_spelling_def)
  then have "normal_relays cf (if url \<in> set out then out else out @ [url])"
    using Cons.prems(3) by (auto simp: normal_relays_def)
  with Cons.IH Cons.prems url show ?case by simp
qed simp

lemma normalize_onto_fixed:
  "normal_relays cf (out @ us) \<Longrightarrow> normalize_onto cf out us = Some (out @ us)"
  by (induction cf out us rule: normalize_onto.induct) (auto simp: normal_relays_def)

lemma normalizeRelays_normal: "settled_spelling cf \<Longrightarrow> normalizeRelays cf us = Some vs \<Longrightarrow> normal_relays cf vs"
  unfolding normalizeRelays_def by (erule normalize_onto_normal) (simp_all add: normal_relays_def)

lemma normalizeRelays_fixed: "normal_relays cf us \<Longrightarrow> normalizeRelays cf us = Some us"
  using normalize_onto_fixed [of cf "[]" us] by (simp add: normalizeRelays_def)

subsection \<open>Refusals\<close>

lemma restored_relays_normal: "settled_spelling cf \<Longrightarrow> restored_relays cf v = Inr us \<Longrightarrow> normal_relays cf us"
  by (auto simp: restored_relays_def split: sval.splits if_splits option.splits intro: normalizeRelays_normal)

lemma restored_clients_normal:
  "restored_clients cf secrets known vs = Inr out \<Longrightarrow> settled_spelling cf \<Longrightarrow>
    (\<And>p. p \<in> set known \<Longrightarrow> normal_relays cf (pc_relays p)) \<Longrightarrow> p \<in> set out \<Longrightarrow> normal_relays cf (pc_relays p)"
proof (induction cf secrets known vs arbitrary: p rule: restored_clients.induct)
  case (2 cf secrets known c cs)
  from "2.prems"(1) obtain q where q: "restored_client cf secrets (map pc_client known) c = Inr q"
    "restored_clients cf secrets (known @ [q]) cs = Inr out" by auto
  have "normal_relays cf (pc_relays q)"
    using q(1) restored_relays_normal [OF "2.prems"(2)] by (auto simp: restored_client_def)
  then show ?case
    by (intro "2.IH" [OF q(2) "2.prems"(2) _ "2.prems"(4)]) (use "2.prems"(3) in auto)
qed (metis restored_clients.simps(1) sum.inject(2))

lemma validate_clients_normal:
  "validateState cf now v = Inr (secrets, clients) \<Longrightarrow> settled_spelling cf \<Longrightarrow> p \<in> set clients \<Longrightarrow> normal_relays cf (pc_relays p)"
  using restored_clients_normal [of cf secrets "[]" _ clients p] by (auto simp: validateState_def split: sval.splits)

lemma admit_keyed: "normal_relays cf us \<Longrightarrow> fst (admit cf now c y us tm True s) = Inr ()"
  by (simp add: admit_def normalizeRelays_fixed Let_def)

lemma admit_all_succeeds:
  "(\<And>p. p \<in> set cs \<Longrightarrow> normal_relays cf (pc_relays p)) \<Longrightarrow> fst (admit_all cf now cs s) = None"
proof (induction cs arbitrary: s)
  case (Cons p cs)
  then show ?case
    using admit_keyed [of cf "pc_relays p"] by (simp add: case_prod_beta)
qed simp

text \<open>C13: A restore that is refused leaves the server as it was.\<close>

theorem refused_restore_changes_nothing:
  assumes "\<forall>u v. bk_norm cf u = Some v \<longrightarrow> bk_norm cf v = Some v" "restore cf now allowUnsigned state s = (Inl e, t)"
  shows "t = s"
proof (cases "restore_plan cf now allowUnsigned state s")
  case (Inl m)
  with assms(2) show ?thesis by (simp add: restore_def)
next
  case (Inr plan)
  obtain g es cs where p: "plan = (g, es, cs)" by (cases plan) auto
  from assms(1) have "settled_spelling cf" by (simp add: settled_spelling_def)
  then have "normal_relays cf (pc_relays p)" if "p \<in> set cs" for p
    using planD [OF Inr [unfolded p]] validate_clients_normal that by (metis filter_is_subset subsetD)
  then have "fst (admit_all cf now cs u) = None" for u by (rule admit_all_succeeds)
  with assms(2) show ?thesis by (simp add: restore_def Inr p Let_def case_prod_beta)
qed

theorem refused_restore_changes_nothing_witness:
  "snd (restore demo_bunker 5000 False demo_state demo_asked) = demo_asked \<and> fst (restore demo_bunker 5000 False demo_state demo_asked) \<noteq> Inr ()"
proof -
  have r: "restore demo_bunker 5000 False demo_state demo_asked = (Inl (Hidden ''approvals pending''), snd (restore demo_bunker 5000 False demo_state demo_asked))"
    by code_simp
  have "\<forall>u v. bk_norm demo_bunker u = Some v \<longrightarrow> bk_norm demo_bunker v = Some v" by (simp add: demo_bunker_def DEFAULTS_def)
  from refused_restore_changes_nothing [OF this r] r show ?thesis by (metis fst_conv sum.distinct(1))
qed

subsection \<open>Deliveries\<close>

text \<open>A key is remembered for a sender when seeing it again changes nothing.\<close>

definition window :: "server \<Rightarrow> string \<Rightarrow> string list option" where
  "window s c = (case map_of (sv_clients s) c of Some cl \<Rightarrow> Some (cl_seen cl) | None \<Rightarrow> map_of (sv_strangers s) c)"

lemma oset_same: "map_of es k = Some v \<Longrightarrow> oset k v es = es"
  by (induction es) auto

lemma seen_again: "window s c = Some w \<Longrightarrow> k \<in> set w \<Longrightarrow> seen cf c k s = (True, s)"
  by (auto simp: seen_def window_def addIfNew_def Let_def oset_same split: option.splits)

lemma oset_appends: "map_of es c = None \<Longrightarrow> oset c v es = es @ [(c, v)]"
  by (induction es) (auto split: if_splits)

lemma window_kept_last: "map_of es c = None \<Longrightarrow> 1 < length (oset c v es) \<Longrightarrow> map_of (tl (oset c v es)) c = Some v"
  by (cases es) (auto simp: oset_appends map_add_Some_iff map_of_eq_None_iff simp del: map_of_eq_None_iff dest: map_of_SomeD)

lemma seen_window:
  assumes "seen cf c k s = (b, t)" "0 < bk_strangerCapacity cf"
  shows "window t c = Some (snd (addIfNew (bk_seenCapacity cf) k (case window s c of None \<Rightarrow> [] | Some w \<Rightarrow> w)))"
proof (cases "map_of (sv_clients s) c")
  case (Some cl)
  with assms(1) show ?thesis
    by (cases "addIfNew (bk_seenCapacity cf) k (cl_seen cl)") (auto simp: seen_def window_def)
next
  case None
  let ?grown = "oset c [] (sv_strangers s)"
  let ?ws = "case map_of (sv_strangers s) c of Some _ \<Rightarrow> sv_strangers s
    | None \<Rightarrow> if bk_strangerCapacity cf < length ?grown then tl ?grown else ?grown"
  have "map_of ?ws c \<noteq> None"
  proof (cases "map_of (sv_strangers s) c")
    case none: None
    show ?thesis
      using window_kept_last [OF none, of "[]"] assms(2) none by (auto split: if_splits)
  qed simp
  with None assms(1) show ?thesis
    by (cases "addIfNew (bk_seenCapacity cf) k (case map_of (sv_strangers s) c of Some w \<Rightarrow> w | None \<Rightarrow> [])")
      (auto simp: seen_def window_def Let_def split: option.splits)
qed

lemma addIfNew_in: "0 < n \<Longrightarrow> k \<in> set (snd (addIfNew n k w))"
  by (cases w) (auto simp: addIfNew_def Let_def)

lemma addIfNew_fresh_last: "k \<notin> set w \<Longrightarrow> 0 < n \<Longrightarrow> \<exists>v. snd (addIfNew n k w) = v @ [k]"
  by (cases w) (auto simp: addIfNew_def Let_def)

lemma addIfNew_next: "2 \<le> n \<Longrightarrow> k \<in> set (snd (addIfNew n k' (v @ [k])))"
  by (cases v) (auto simp: addIfNew_def Let_def)

definition same_windows :: "server \<Rightarrow> server \<Rightarrow> bool" where
  "same_windows s t \<longleftrightarrow> sv_clients t = sv_clients s \<and> sv_strangers t = sv_strangers s"

interpretation windows: server_shapes "same_windows s" for s .

lemma windows_steps:
  "same_windows s t \<Longrightarrow> same_windows s (send c i r us t)" "same_windows s t \<Longrightarrow> same_windows s (fly f t)"
  "same_windows s t \<Longrightarrow> same_windows s (runHandler f t)" "same_windows s t \<Longrightarrow> same_windows s (snd (beginApproval c t))"
  "same_windows s t \<Longrightarrow> same_windows s (emit cf now t)" "same_windows s t \<Longrightarrow> same_windows s (put_record a rec t)"
  "same_windows s t \<Longrightarrow> same_windows s (t\<lparr>sv_secrets := xs\<rparr>)" "same_windows s t \<Longrightarrow> same_windows s (t\<lparr>sv_records := rs\<rparr>)"
  by (simp_all add: same_windows_def sv_fields same_clients send_def fly_def runHandler_def beginApproval_def Let_def)

lemma windows_respond: "same_windows s t \<Longrightarrow> same_windows s (respond cf f r t)"
  by (auto simp: respond_def Let_def split: sum.split intro: windows_steps)

lemma windows_liveSecret: "same_windows s t \<Longrightarrow> same_windows s (snd (liveSecret cf now x t))"
  unfolding liveSecret_def Let_def by (intro windows.shapes windows_steps; assumption?)

lemma windows_bind: "same_windows s t \<Longrightarrow> same_windows s (snd (bind_secret cf now x c rs m t))"
  unfolding bind_secret_def Let_def by (intro windows.shapes windows_steps; assumption?)

lemma windows_dispatch: "same_windows s t \<Longrightarrow> same_windows s (dispatch cf now q src t)"
  unfolding dispatch_def connect_def Let_def
  by (intro windows.shapes windows_respond windows_liveSecret windows_bind windows_steps; assumption?)

lemma window_same: "same_windows s t \<Longrightarrow> window t c = window s c"
  by (auto simp: same_windows_def window_def split: option.split)

lemma seen_fst: "seen cf c k s = (b, t) \<Longrightarrow> b = (k \<in> set (case window s c of None \<Rightarrow> [] | Some w \<Rightarrow> w))"
  by (auto simp: seen_def window_def addIfNew_def Let_def split: option.splits prod.splits if_splits)



subsection \<open>A round trip through the disk\<close>

text \<open>What the validation asks of a state, said of the fields of a server.\<close>

definition good_relays :: "bunker \<Rightarrow> string list \<Rightarrow> bool" where
  "good_relays cf us \<longleftrightarrow> us \<noteq> [] \<and> normal_relays cf us \<and> length us \<le> bk_maxRelaysPerClient cf"

definition good_key :: "bunker \<Rightarrow> string \<Rightarrow> bool" where
  "good_key cf c \<longleftrightarrow> is_hex64_any c \<and> to_lower c = c \<and> bk_on_curve cf c"

definition good_secret :: "bunker \<Rightarrow> rat \<Rightarrow> BunkerSecretRecord \<Rightarrow> bool" where
  "good_secret cf now r \<longleftrightarrow>
     sr_secret r \<noteq> [] \<and> length (sr_secret r) \<le> 256 \<and> good_relays cf (sr_relays r)
     \<and> (case sr_client r of None \<Rightarrow> \<not> sr_confirmed r | Some c \<Rightarrow> good_key cf c)
     \<and> (\<not> sr_confirmed r \<longrightarrow> (case sr_expiresAt r of None \<Rightarrow> bk_secretTtlMs cf \<le> 0 | Some t \<Rightarrow> now < t))"

definition good_client :: "bunker \<Rightarrow> BunkerSecretRecord list \<Rightarrow> BunkerClientRecord \<Rightarrow> bool" where
  "good_client cf secrets c \<longleftrightarrow>
     good_key cf (cr_client c) \<and> good_relays cf (cr_relays c)
     \<and> (case cr_secret c of
          None \<Rightarrow> \<not> bk_requireSecret cf
        | Some x \<Rightarrow> \<exists>r \<in> set secrets. sr_secret r = x \<and> sr_confirmed r \<and> sr_client r = Some (cr_client c)
            \<and> same_relays (sr_relays r) (cr_relays c))"

definition storable :: "bunker \<Rightarrow> rat \<Rightarrow> unsigned_state \<Rightarrow> bool" where
  "storable cf now u \<longleftrightarrow>
     0 \<le> us_generation u \<and> distinct (map sr_secret (us_secrets u)) \<and> distinct (map cr_client (us_clients u))
     \<and> length (us_secrets u) \<le> bk_maxSecrets cf \<and> length (us_clients u) \<le> bk_maxClients cf
     \<and> (\<forall>r \<in> set (us_secrets u). good_secret cf now r) \<and> (\<forall>c \<in> set (us_clients u). good_client cf (us_secrets u) c)"

definition kept_secret :: "BunkerSecretRecord \<Rightarrow> string \<times> SecretState" where
  "kept_secret r =
     (sr_secret r, \<lparr>ss_relays = sr_relays r, ss_client = sr_client r, ss_confirmed = sr_confirmed r, ss_pending = 0,
        ss_origin = sr_origin r, ss_expiresAt = sr_expiresAt r\<rparr>)"

definition kept_client :: "BunkerClientRecord \<Rightarrow> planned_client" where
  "kept_client c = \<lparr>pc_client = cr_client c, pc_secret = cr_secret c, pc_relays = cr_relays c, pc_connectedAt = cr_connectedAt c\<rparr>"

lemma restored_good_relays: "good_relays cf us \<Longrightarrow> restored_relays cf (S_array (map S_string us)) = Inr us"
  by (auto simp: good_relays_def restored_relays_def normalizeRelays_fixed list_ex_iff comp_def)

lemma restored_good_secret:
  assumes "good_secret cf now r" "sr_secret r \<notin> set taken"
  shows "restored_secret cf now taken (secret_js r) = Inr (Some (kept_secret r))"
  using assms
  by (cases "sr_origin r"; cases "sr_client r"; cases "sr_expiresAt r")
    (auto simp: restored_secret_def secret_js_def option_field_def origin_text_def restored_pubkey_def restored_expiry_def
      good_secret_def good_key_def restored_good_relays kept_secret_def requireE_def)

lemma restored_good_secrets:
  "(\<And>r. r \<in> set rs \<Longrightarrow> good_secret cf now r) \<Longrightarrow> distinct (okeys known @ map sr_secret rs) \<Longrightarrow>
    restored_secrets cf now known (map secret_js rs) = Inr (known @ map kept_secret rs)"
proof (induction rs arbitrary: known)
  case (Cons r rs)
  have "sr_secret r \<notin> set (okeys known)" using Cons.prems(2) by auto
  then have "restored_secret cf now (okeys known) (secret_js r) = Inr (Some (kept_secret r))"
    "oset (sr_secret r) (snd (kept_secret r)) known = known @ [kept_secret r]"
    using Cons.prems(1) [of r] by (simp_all add: restored_good_secret oset_appends map_of_eq_None_iff kept_secret_def)
  moreover have "kept_secret r = (sr_secret r, snd (kept_secret r))" by (simp add: kept_secret_def)
  moreover have "restored_secrets cf now (known @ [kept_secret r]) (map secret_js rs) = Inr ((known @ [kept_secret r]) @ map kept_secret rs)"
    using Cons.prems by (intro Cons.IH) (simp_all add: kept_secret_def)
  ultimately show ?case by (simp split: prod.split) (metis prod.inject)
qed simp

lemma map_of_kept: "distinct (map sr_secret rs) \<Longrightarrow> r \<in> set rs \<Longrightarrow> map_of (map kept_secret rs) (sr_secret r) = Some (snd (kept_secret r))"
  by (rule map_of_is_SomeI) (auto simp: kept_secret_def comp_def image_iff split_def)

lemma restored_good_client:
  assumes "good_client cf secrets c" "distinct (map sr_secret secrets)" "cr_client c \<notin> set taken"
  shows "restored_client cf (map kept_secret secrets) taken (client_js c) = Inr (kept_client c)"
proof (cases "cr_secret c")
  case None
  with assms show ?thesis
    by (simp add: restored_client_def client_js_def option_field_def good_client_def good_key_def restored_good_relays kept_client_def
        requireE_def)
next
  case (Some x)
  with assms(1) obtain r where r: "r \<in> set secrets" "sr_secret r = x" "sr_confirmed r" "sr_client r = Some (cr_client c)"
    "same_relays (sr_relays r) (cr_relays c)" by (auto simp: good_client_def)
  have "map_of (map kept_secret secrets) x = Some (snd (kept_secret r))" using map_of_kept [OF assms(2) r(1)] r(2) by simp
  with assms r Some show ?thesis
    by (simp add: restored_client_def client_js_def option_field_def good_client_def good_key_def restored_good_relays kept_client_def
        requireE_def kept_secret_def)
qed

lemma restored_good_clients:
  "(\<And>c. c \<in> set cs \<Longrightarrow> good_client cf secrets c) \<Longrightarrow> distinct (map sr_secret secrets) \<Longrightarrow>
    distinct (map pc_client known @ map cr_client cs) \<Longrightarrow>
    restored_clients cf (map kept_secret secrets) known (map client_js cs) = Inr (known @ map kept_client cs)"
proof (induction cs arbitrary: known)
  case (Cons c cs)
  have "restored_client cf (map kept_secret secrets) (map pc_client known) (client_js c) = Inr (kept_client c)"
    using Cons.prems by (intro restored_good_client) auto
  moreover have "restored_clients cf (map kept_secret secrets) (known @ [kept_client c]) (map client_js cs)
      = Inr ((known @ [kept_client c]) @ map kept_client cs)"
    using Cons.prems by (intro Cons.IH) (simp_all add: kept_client_def)
  ultimately show ?case by simp
qed simp

lemma validate_storable:
  assumes "storable cf now u" "sprop ''secrets'' v = S_array (map secret_js (us_secrets u))"
    "sprop ''clients'' v = S_array (map client_js (us_clients u))"
  shows "validateState cf now v = Inr (map kept_secret (us_secrets u), map kept_client (us_clients u))"
  using assms restored_good_secrets [of "us_secrets u" cf now "[]"] restored_good_clients [of "us_clients u" cf "us_secrets u" "[]"]
  by (simp add: validateState_def storable_def)

subsection \<open>What the restore applies\<close>

definition exported_secrets :: "server \<Rightarrow> BunkerSecretRecord list" where
  "exported_secrets s = map (secret_export s) (sv_secrets s)"

lemma exported_set_secret:
  assumes "sound s" "map_of (sv_secrets s) (sr_secret r) = None"
  shows "exported_secrets (set_secret (kept_secret r) s) = exported_secrets s @ [r]"
proof -
  have "a < length (sv_records s)" if "(x, a) \<in> set (sv_secrets s)" for x a
    using assms(1) that by (auto simp: sound_def wf_obj_def)
  with assms(2) show ?thesis
    by (auto simp: exported_secrets_def sv_fields oset_appends kept_secret_def secret_export_def record_of_def nth_append Let_def)
qed

lemma sound_set_secret: "sound s \<Longrightarrow> sound (set_secret e s)"
  by (auto simp: sound_def sv_fields less_Suc_eq split: if_splits)

lemma exported_set_secrets:
  "sound s \<Longrightarrow> distinct (okeys (sv_secrets s) @ map sr_secret rs) \<Longrightarrow>
    exported_secrets (fold set_secret (map kept_secret rs) s) = exported_secrets s @ rs
    \<and> sound (fold set_secret (map kept_secret rs) s)"
proof (induction rs arbitrary: s)
  case (Cons r rs)
  have new: "map_of (sv_secrets s) (sr_secret r) = None" using Cons.prems(2) by (auto simp: map_of_eq_None_iff)
  let ?t = "set_secret (kept_secret r) s"
  have "distinct (okeys (sv_secrets ?t) @ map sr_secret rs)"
    using Cons.prems(2) new by (auto simp: sv_fields oset_appends kept_secret_def)
  from Cons.IH [OF sound_set_secret [OF Cons.prems(1)] this] exported_set_secret [OF Cons.prems(1) new]
  show ?case by simp
qed simp

lemma admit_muted:
  assumes "sv_muted s" "map_of (sv_clients s) (cr_client c) = None" "normal_relays cf (cr_relays c)"
  shows "let t = snd (admit cf now (cr_client c) (cr_secret c) (cr_relays c) (cr_connectedAt c) True s)
    in sv_muted t \<and> map client_export (sv_clients t) = map client_export (sv_clients s) @ [c]
      \<and> okeys (sv_clients t) = okeys (sv_clients s) @ [cr_client c]
      \<and> sv_secrets t = sv_secrets s \<and> sv_records t = sv_records s \<and> sv_generation t = sv_generation s"
  using assms by (simp add: admit_def normalizeRelays_fixed Let_def sv_fields oset_appends client_export_def emit_def)

lemma admit_all_muted:
  "sv_muted s \<Longrightarrow> distinct (okeys (sv_clients s) @ map cr_client cs) \<Longrightarrow> (\<And>c. c \<in> set cs \<Longrightarrow> normal_relays cf (cr_relays c)) \<Longrightarrow>
    (let t = snd (admit_all cf now (map kept_client cs) s)
     in sv_muted t \<and> map client_export (sv_clients t) = map client_export (sv_clients s) @ cs
       \<and> sv_secrets t = sv_secrets s \<and> sv_records t = sv_records s \<and> sv_generation t = sv_generation s)"
proof (induction cs arbitrary: s)
  case (Cons c cs)
  have "map_of (sv_clients s) (cr_client c) = None" using Cons.prems(2) by (auto simp: map_of_eq_None_iff)
  note one = admit_muted [OF Cons.prems(1) this Cons.prems(3) [of c, simplified], where now = now, unfolded Let_def]
  let ?t = "snd (admit cf now (cr_client c) (cr_secret c) (cr_relays c) (cr_connectedAt c) True s)"
  have "distinct (okeys (sv_clients ?t) @ map cr_client cs)" using one Cons.prems(2) by simp
  from Cons.IH [of ?t, OF _ this] one Cons.prems(3) show ?case
    by (simp add: case_prod_beta Let_def kept_client_def)
qed simp

lemma exported_emit:
  assumes "\<And>x a. (x, a) \<in> set (sv_secrets s) \<Longrightarrow> \<not> lapsed now (record_of s a)"
  shows "exported (emit cf now s) = exported s"
proof -
  have "sv_secrets (swept now s) = sv_secrets s" using assms by (auto simp: swept_filter intro!: filter_True)
  then show ?thesis
    by (simp add: exported_def sv_fields emit_secrets secret_export_def [abs_def] Let_def)
qed

lemma stateMac_signed: "stateMac cf (S_object (unsigned_js cf u @ [(''mac'', m)])) = stateMac cf (S_object (unsigned_js cf u))"
  by (simp add: stateMac_def canonicalState_def unsigned_js_def)

text \<open>C12: The state of a server, if it meets the conditions of the validation, is restored by a new server
  with the same key whose counter is not ahead: the new server exports the very same state.
\<close>

theorem exported_state_restores:
  assumes "storable cf now (exported s)"
    and "signBunkerState cf (exported s) = Some state" "\<forall>mac. stateMac cf (S_object (unsigned_js cf (exported s))) = Some mac \<longrightarrow> length mac = 64"
    and "BunkerServer cf relays generation = Inr s0" "sv_generation s0 \<le> sv_generation s"
  shows "\<exists>t. restore cf now False state s0 = (Inr (), t) \<and> exported t = exported s"
proof -
  let ?u = "exported s"
  obtain mac where mac: "stateMac cf (S_object (unsigned_js cf ?u)) = Some mac" "length mac = 64"
    and state: "state = S_object (unsigned_js cf ?u @ [(''mac'', S_string mac)])"
    using assms(2,3) by (auto simp: signBunkerState_def)
  have s0: "sv_secrets s0 = []" "sv_clients s0 = []" "sv_records s0 = []" "sv_pendingApprovals s0 = 0" "sv_pendingAdmissions s0 = []"
    "sv_muted s0 = False"
    using assms(4) by (auto simp: BunkerServer_def split: sum.splits if_splits option.splits)
  have gen: "us_generation ?u = sv_generation s" "0 \<le> sv_generation s" using assms(1) by (simp_all add: exported_def storable_def)
  have verified: "verifyBunkerState cf state"
  proof -
    have "sprop ''mac'' state = S_string mac" by (simp add: state unsigned_js_def)
    moreover have "stateMac cf state = Some mac" using mac(1) by (simp only: state stateMac_signed)
    ultimately show ?thesis using mac(2) by (simp add: verifyBunkerState_def)
  qed
  have fields: "sprop ''version'' state = S_number 2" "sprop ''mac'' state = S_string mac" "sprop ''connectionPubkey'' state = S_string (bk_pubkey cf)"
    "sprop ''generation'' state = S_number (of_int (sv_generation s))"
    "sprop ''secrets'' state = S_array (map secret_js (us_secrets ?u))" "sprop ''clients'' state = S_array (map client_js (us_clients ?u))"
    using gen(1) by (simp_all add: state unsigned_js_def STATE_VERSION_def)
  let ?es = "map kept_secret (us_secrets ?u)" and ?cs = "map kept_client (us_clients ?u)"
  have plan: "restore_plan cf now False state s0 = Inr (of_int (sv_generation s), ?es, ?cs)"
    using assms(1,5) gen(2) verified validate_storable [OF assms(1) fields(5,6)] s0 setSecrets_empty [OF s0(1)] fields
    by (simp add: restore_plan_def stored_generation_def state isConnected_def requireE_def storable_def)
  let ?m = "s0\<lparr>sv_muted := True\<rparr>"
  have m: "sound ?m" using running_sound [OF bunker_runs.built [OF assms(4)]] by (simp add: sound_def)
  let ?v = "fold set_secret ?es ?m"
  have v: "exported_secrets ?v = us_secrets ?u" "sound ?v"
    using exported_set_secrets [OF m, of "us_secrets ?u"] assms(1) s0 by (simp_all add: storable_def exported_secrets_def)
  have v': "sv_muted ?v" "sv_clients ?v = []" "sv_generation ?v = sv_generation s0"
  proof -
    have "sv_muted (fold set_secret es t) = sv_muted t \<and> sv_generation (fold set_secret es t) = sv_generation t" for es t
      by (induction es arbitrary: t) (simp_all add: sv_fields)
    then show "sv_muted ?v" "sv_generation ?v = sv_generation s0" by simp_all
    show "sv_clients ?v = []" by (simp add: same_clients s0)
  qed
  let ?w = "snd (admit_all cf now ?cs ?v)"
  have normal: "normal_relays cf (cr_relays c)" if "c \<in> set (us_clients ?u)" for c
    using assms(1) that by (simp add: storable_def good_client_def good_relays_def)
  have w: "map client_export (sv_clients ?w) = us_clients ?u" "sv_secrets ?w = sv_secrets ?v" "sv_records ?w = sv_records ?v"
    "sv_generation ?w = sv_generation s0"
    using admit_all_muted [of ?v "us_clients ?u" cf now, OF v'(1) _ normal] assms(1) v' by (simp_all add: Let_def storable_def)
  have ok: "fst (admit_all cf now ?cs ?v) = None"
    using normal by (intro admit_all_succeeds) (auto simp: kept_client_def)
  let ?x = "\<lambda>g. (?w\<lparr>sv_muted := False, sv_generation := g\<rparr>)"
  have live: "\<not> lapsed now (record_of t a)" if "sv_secrets t = sv_secrets ?v" "sv_records t = sv_records ?v" "(x, a) \<in> set (sv_secrets t)" for t x a
  proof -
    let ?r = "secret_export ?v (x, a)"
    have "?r \<in> set (us_secrets ?u)" using v(1) that unfolding exported_secrets_def by (metis image_eqI set_map)
    then have "good_secret cf now ?r" using assms(1) by (simp add: storable_def)
    then show ?thesis
      using that by (auto simp: good_secret_def secret_export_def Let_def lapsed_def record_of_def split: option.splits)
  qed
  have same: "exported (emit cf now t) = ?u"
    if "sv_secrets t = sv_secrets ?v" "sv_records t = sv_records ?v" "sv_clients t = sv_clients ?w" "sv_generation t = sv_generation s" for t
  proof -
    have "exported (emit cf now t) = exported t" by (rule exported_emit) (use live [OF that(1,2)] in blast)
    moreover have "secret_export t = secret_export ?v"
      by (rule ext) (simp add: secret_export_def record_of_def that(2) split: prod.split)
    then have "map (secret_export t) (sv_secrets t) = us_secrets ?u"
      using v(1) that(1) by (simp add: exported_secrets_def)
    ultimately show ?thesis using that w(1) gen(1) by (simp add: exported_def)
  qed
  show ?thesis
    using same w ok assms(5)
    by (auto simp: restore_def plan Let_def case_prod_beta setGeneration_def sv_fields)
qed

theorem exported_state_restores_witness:
  "\<exists>t. restore demo_bunker 9000 False demo_state demo_built = (Inr (), t) \<and> exported t = exported demo_paired"
proof -
  have "storable demo_bunker 9000 (exported demo_paired)" by code_simp
  moreover have "signBunkerState demo_bunker (exported demo_paired) = Some demo_state" by code_simp
  moreover have "length mac = 64" if "stateMac demo_bunker v = Some mac" for mac v
    using that by (auto simp: stateMac_def demo_bunker_def DEFAULTS_def)
  moreover have "sv_generation demo_built \<le> sv_generation demo_paired" by code_simp
  ultimately show ?thesis
    using exported_state_restores [of demo_bunker 9000 demo_paired demo_state "[''wss://r'']" "S_number 0" demo_built] demo_constructor
    by blast
qed

subsection \<open>States that are lost\<close>

text \<open>
  A link may be issued for more relays than a restored record may have, and then the backup of the
  server that issued it is refused by every server with its key.
\<close>

lemma restored_secrets_refused:
  "v \<in> set vs \<Longrightarrow> (\<And>taken. \<exists>e. restored_secret cf now taken v = Inl e) \<Longrightarrow> \<exists>e. restored_secrets cf now known vs = Inl e"
proof (induction vs arbitrary: known)
  case (Cons w vs)
  show ?case
  proof (cases "restored_secret cf now (okeys known) w")
    case (Inr o')
    with Cons.prems have "v \<in> set vs" by (metis Inl_Inr_False set_ConsD)
    with Cons.IH Cons.prems(2) Inr show ?thesis by (cases o') auto
  qed simp
qed simp

lemma restored_secret_refused:
  assumes "normal_relays cf (sr_relays r)" "bk_maxRelaysPerClient cf < length (sr_relays r)"
  shows "\<exists>e. restored_secret cf now taken (secret_js r) = Inl e"
proof -
  have "restored_relays cf (S_array (map S_string (sr_relays r))) = Inl ''has too many relays''"
    using assms by (auto simp: restored_relays_def normalizeRelays_fixed list_ex_iff comp_def)
  then have "sprop ''relays'' (secret_js r) = S_array (map S_string (sr_relays r))"
    "restored_secret cf now taken (secret_js r) \<noteq> Inr o'" for o'
    by (simp_all add: secret_js_def restored_secret_def)
  then show ?thesis by (metis sum.exhaust)
qed

lemma many_relays_lose_the_backup:
  assumes "r \<in> set (us_secrets (exported s))" "normal_relays cf (sr_relays r)" "bk_maxRelaysPerClient cf < length (sr_relays r)"
    and "signBunkerState cf (exported s) = Some state"
  shows "\<exists>m. restore cf now allowUnsigned state s' = (Inl (Hidden m), s')"
proof -
  from assms(4) obtain mac where state: "state = S_object (unsigned_js cf (exported s) @ [(''mac'', S_string mac)])"
    by (auto simp: signBunkerState_def)
  have "\<exists>e. restored_secrets cf now [] (map secret_js (us_secrets (exported s))) = Inl e"
    using assms(1) restored_secret_refused [OF assms(2,3)] by (intro restored_secrets_refused [where v = "secret_js r"]) auto
  then have "\<exists>e. validateState cf now state = Inl e"
    by (auto simp: validateState_def state unsigned_js_def)
  then have "restore_plan cf now allowUnsigned state s' \<noteq> Inr plan" for plan
    by (auto simp: restore_plan_def Let_def)
  then show ?thesis by (cases "restore_plan cf now allowUnsigned state s'") (auto simp: restore_def)
qed

definition demo_narrow :: bunker where
  "demo_narrow = demo_bunker\<lparr>bk_maxRelaysPerClient := 1\<rparr>"

definition demo_linked :: server where
  "demo_linked = act demo_narrow 0 (Mint (Some [''wss://a'', ''wss://b'']) ''pw'' None) demo_built"

definition demo_linked_state :: "sval option" where
  "demo_linked_state = signBunkerState demo_narrow (exported demo_linked)"

lemma issued_link_loses_the_backup:
  "demo_linked_state \<noteq> None \<and> (\<exists>m. restore demo_narrow 1 False (the demo_linked_state) s' = (Inl (Hidden m), s'))"
proof -
  have "map sr_relays (us_secrets (exported demo_linked)) = [[''wss://a'', ''wss://b'']]" by code_simp
  then obtain r where "r \<in> set (us_secrets (exported demo_linked))" "sr_relays r = [''wss://a'', ''wss://b'']"
    by (auto simp: Cons_eq_map_conv)
  moreover have "normal_relays demo_narrow [''wss://a'', ''wss://b'']"
    by (simp add: normal_relays_def demo_narrow_def demo_bunker_def DEFAULTS_def)
  moreover have "bk_maxRelaysPerClient demo_narrow < length [''wss://a'', ''wss://b'']" by (simp add: demo_narrow_def)
  moreover obtain state where "signBunkerState demo_narrow (exported demo_linked) = Some state"
    by (simp add: signBunkerState_def stateMac_def demo_narrow_def demo_bunker_def DEFAULTS_def)
  ultimately show ?thesis using many_relays_lose_the_backup by (fastforce simp: demo_linked_state_def)
qed

text \<open>
  A second restore may admit a client whose secret memory holds unconfirmed. The secret lapses, and
  revoking it then finds nothing and leaves the client connected.
\<close>

definition demo_pending_state :: sval where
  "demo_pending_state = the (signBunkerState demo_bunker (exported demo_asked))"

definition demo_twice :: server where
  "demo_twice = acts demo_bunker
     [(9000, Restore False demo_pending_state), (9000, Restore False demo_state), (900001, Export)] demo_built"

lemma twice_restored_client_is_not_revoked:
  "isConnected alice demo_twice \<and> revokeSecret demo_bunker 900002 ''pw'' demo_twice = (False, demo_twice)"
  by code_simp

end
