(* ===== verification/Bunker_Answers.thy ===== *)
theory Bunker_Answers
  imports Bunker_Restart
begin

section \<open>The remote signer server: every connect is answered\<close>

text \<open>
  A client that is refused must be told so, since it may wait for ever. \<open>due X s\<close> says that every
  connect the handler was asked about is answered, waits in a flight, or is one of \<open>X\<close>, the
  requests whose flight has just landed.
\<close>

definition pairing_kind :: "flight_kind \<Rightarrow> bool" where
  "pairing_kind k \<longleftrightarrow> k = Connecting \<or> k = Scanning \<or> k = Admitted \<or> k = Pairing"

definition heard :: "server \<Rightarrow> BunkerRequest \<Rightarrow> bool" where
  "heard s q \<longleftrightarrow> (\<exists>r us. Answered (br_client q) (br_request_id q) r us \<in> set (sv_log s)) \<or> (\<exists>e. ScanEnded (br_request_id q) e \<in> set (sv_log s))"

definition waits :: "server \<Rightarrow> BunkerRequest \<Rightarrow> bool" where
  "waits s q \<longleftrightarrow> (\<exists>token f. map_of (sv_flights s) token = Some f \<and> fl_request f = q \<and> pairing_kind (fl_kind f))"

definition due :: "BunkerRequest set \<Rightarrow> server \<Rightarrow> bool" where
  "due X s \<longleftrightarrow>
     (\<forall>token f. map_of (sv_flights s) token = Some f \<longrightarrow> token < sv_nextFlight s)
     \<and> (\<not> sv_stopped s \<longrightarrow>
         (\<forall>q us. Asked q us \<in> set (sv_log s) \<and> br_method q = ''connect'' \<longrightarrow> q \<in> X \<or> waits s q \<or> heard s q))"

interpretation due: server_shapes "due X" for X .

definition calm :: "server \<Rightarrow> server \<Rightarrow> bool" where
  "calm s t \<longleftrightarrow> asks_only (\<lambda>_. False) s t \<and> sv_flights t = sv_flights s \<and> sv_nextFlight t = sv_nextFlight s \<and> sv_stopped t = sv_stopped s"

interpretation calm: server_shapes "calm s" for s .

named_theorems calms

lemma due_mono: "due X s \<Longrightarrow> X \<subseteq> Y \<Longrightarrow> due Y s"
  by (fastforce simp: due_def)

lemma due_calm: "due X s \<Longrightarrow> calm s t \<Longrightarrow> due X t"
  by (fastforce simp: due_def calm_def asks_only_def waits_def heard_def)

lemma due_told:
  assumes "due (insert q X) s" "calm s t" "sv_stopped t \<or> heard t q"
  shows "due X t"
  using due_calm [OF assms(1,2)] assms(3) by (fastforce simp: due_def)

lemma due_land:
  assumes "due X s" "map_of (sv_flights s) token = Some f"
  shows "due (if pairing_kind (fl_kind f) then insert (fl_request f) X else X) (land token s)"
proof -
  have "waits (land token s) q" if "waits s q" "pairing_kind (fl_kind f) \<longrightarrow> q \<noteq> fl_request f" for q
  proof -
    from that(1) obtain k g where g: "map_of (sv_flights s) k = Some g" "fl_request g = q" "pairing_kind (fl_kind g)"
      by (auto simp: waits_def)
    with that(2) assms(2) have "k \<noteq> token" by auto
    with g show ?thesis by (auto simp: waits_def land_def)
  qed
  moreover have "heard (land token s) q = heard s q" for q by (simp add: heard_def land_def)
  ultimately show ?thesis using assms by (fastforce simp: due_def land_def split: if_splits)
qed

lemma due_fly:
  assumes "due (insert (fl_request f) X) s" "pairing_kind (fl_kind f) \<or> br_method (fl_request f) \<noteq> ''connect''"
  shows "due X (fly f s)"
proof -
  have fresh: "map_of (sv_flights s) (sv_nextFlight s) = None"
    using assms(1) by (cases "map_of (sv_flights s) (sv_nextFlight s)") (auto simp: due_def)
  have "waits (fly f s) q" if "waits s q" for q
  proof -
    from that obtain k g where g: "map_of (sv_flights s) k = Some g" "fl_request g = q" "pairing_kind (fl_kind g)"
      by (auto simp: waits_def)
    then have "map_of (sv_flights (fly f s)) k = Some g" using fresh by (auto simp: fly_def)
    with g(2,3) show ?thesis by (auto simp: waits_def)
  qed
  moreover have "waits (fly f s) (fl_request f)" if "pairing_kind (fl_kind f)"
    using that by (auto simp: waits_def fly_def)
  moreover have "heard (fly f s) q = heard s q" for q by (simp add: heard_def fly_def)
  moreover have "token < Suc (sv_nextFlight s)" if "map_of (sv_flights (fly f s)) token = Some g" for token g
    using that assms(1) by (auto simp: fly_def due_def less_Suc_eq split: if_splits)
  ultimately show ?thesis using assms by (auto simp: due_def fly_def)
qed

lemma due_runHandler:
  "due X s \<Longrightarrow> pairing_kind (fl_kind f) \<or> br_method (fl_request f) \<noteq> ''connect'' \<Longrightarrow> due X (runHandler f s)"
  unfolding runHandler_def
  by (rule due_fly) (auto simp: due_def sv_fields waits_def heard_def)

subsection \<open>Steps that neither ask nor answer\<close>

lemma calm_refl [calms]: "calm s s"
  by (simp add: calm_def asking)

lemma calm_steps [calms]:
  "calm s t \<Longrightarrow> calm s (put_record a r t)" "calm s t \<Longrightarrow> calm s (claim w u t)"
  "calm s t \<Longrightarrow> calm s (fold (claim w) us t)" "calm s t \<Longrightarrow> calm s (fold (release w) us t)"
  "calm s t \<Longrightarrow> calm s (scheduleSweep tm t)" "calm s t \<Longrightarrow> calm s (snd (beginApproval c t))"
  "calm s t \<Longrightarrow> calm s (endApproval c b t)" "calm s t \<Longrightarrow> calm s (drop_pending a t)"
  "calm s t \<Longrightarrow> calm s (confirm a rs t)" "calm s t \<Longrightarrow> calm s (set_secret e t)"
  "calm s t \<Longrightarrow> calm s (sweepSecrets cf now t)" "calm s t \<Longrightarrow> calm s (emit cf now t)"
  unfolding calm_def
  by (elim conjE, intro conjI asking; (assumption | simp add: sv_fields scheduleSweep_def beginApproval_def endApproval_def Let_def
      drop_pending_def confirm_def set_secret_def split: prod.split option.split))+

lemma calm_updates [calms]:
  "calm s t \<Longrightarrow> calm s (t\<lparr>sv_strangers := ws\<rparr>)" "calm s t \<Longrightarrow> calm s (t\<lparr>sv_muted := b\<rparr>)"
  "calm s t \<Longrightarrow> calm s (t\<lparr>sv_contexts := cx\<rparr>)" "calm s t \<Longrightarrow> calm s (t\<lparr>sv_relays := rs\<rparr>)"
  "calm s t \<Longrightarrow> calm s (t\<lparr>sv_started := b\<rparr>)" "calm s t \<Longrightarrow> calm s (t\<lparr>sv_owners := os\<rparr>)"
  "calm s t \<Longrightarrow> calm s (t\<lparr>sv_generation := g\<rparr>)" "calm s t \<Longrightarrow> calm s (t\<lparr>sv_secrets := xs\<rparr>)"
  "calm s t \<Longrightarrow> calm s (t\<lparr>sv_clients := cs\<rparr>)" "calm s t \<Longrightarrow> calm s (t\<lparr>sv_records := ys\<rparr>)"
  by (auto simp: calm_def intro!: asking)

lemma calm_logs [calms]: "calm s t \<Longrightarrow> (\<And>q us. e \<noteq> Asked q us) \<Longrightarrow> calm s (logs e t)"
  by (auto simp: calm_def sv_fields intro!: asking)

lemma calm_send [calms]: "calm s t \<Longrightarrow> calm s (send c i r us t)"
  by (auto simp: send_def intro!: calms)

lemma calm_scan_ended [calms]: "calm s t \<Longrightarrow> calm s (scan_ended f e t)"
  by (auto simp: scan_ended_def intro!: calms)

lemma calm_liveSecret [calms]: "calm s t \<Longrightarrow> calm s (snd (liveSecret cf now x t))"
  unfolding liveSecret_def Let_def by (intro calm.shapes calms; assumption?)

lemma calm_disconnect [calms]: "calm s t \<Longrightarrow> calm s (disconnectClient cf now c t)"
  unfolding disconnectClient_def by (intro calm.shapes calms; assumption?)

lemma calm_setGeneration [calms]: "calm s t \<Longrightarrow> calm s (setGeneration g t)"
  unfolding setGeneration_def by (intro calm.shapes calms; (assumption | simp)?)

lemma calm_revoke [calms]: "calm s t \<Longrightarrow> calm s (snd (revokeSecret cf now x t))"
proof -
  assume a: "calm s t"
  have "calm s (t\<lparr>sv_secrets := xs, sv_generation := g\<rparr>)" for xs g by (intro calms a)
  then show ?thesis using a unfolding revokeSecret_def Let_def by (intro calm.shapes calms; (assumption | simp)?)
qed

lemma calm_addRelay [calms]: "calm s t \<Longrightarrow> calm s (snd (addRelay cf u t))"
  unfolding addRelay_def by (intro calm.shapes calms; assumption?)

lemma calm_addRelays [calms]: "calm s t \<Longrightarrow> calm s (snd (addRelays cf us t))"
proof (induction us arbitrary: t)
  case (Cons u us)
  have "calm s (snd (addRelay cf u t))" by (intro calms Cons.prems)
  then show ?case using Cons.IH by (auto split: prod.split sum.split)
qed simp

lemma calm_bind [calms]: "calm s t \<Longrightarrow> calm s (snd (bind_secret cf now x c rs m t))"
  unfolding bind_secret_def Let_def by (intro calm.shapes calms; assumption?)

lemma calm_unbind_opt [calms]: "calm s t \<Longrightarrow> calm s (unbind_opt cf now b x t)"
  unfolding unbind_opt_def unbind_secret_def Let_def by (intro calm.shapes calms; assumption?)

lemma calm_admit [calms]: "calm s t \<Longrightarrow> calm s (snd (admit cf now c x us tm k t))"
  unfolding admit_def Let_def by (intro calm.shapes calms; assumption?)

lemma calm_admit_all [calms]: "calm s t \<Longrightarrow> calm s (snd (admit_all cf now cs t))"
proof (induction cs arbitrary: t)
  case (Cons c cs)
  let ?p = "admit cf now (pc_client c) (pc_secret c) (pc_relays c) (pc_connectedAt c) True t"
  have "calm s (snd ?p)" by (intro calms Cons.prems)
  then show ?case using Cons.IH by (simp add: case_prod_beta)
qed simp

lemma calm_set_secrets [calms]: "calm s t \<Longrightarrow> calm s (fold set_secret es t)"
  by (induction es arbitrary: t) (simp_all add: calms)

lemma calm_restore [calms]: "calm s t \<Longrightarrow> calm s (snd (restore cf now b v t))"
  unfolding restore_def Let_def
  by (cases "restore_plan cf now b v t") (auto simp: case_prod_beta intro!: calms)

lemma calm_createBunkerUri [calms]: "calm s t \<Longrightarrow> calm s (snd (createBunkerUri cf now rs x ttl t))"
  unfolding createBunkerUri_def Let_def by (intro calm.shapes calms; assumption?)

lemma calm_seen [calms]: "calm s t \<Longrightarrow> calm s (snd (seen cf p k t))"
  by (cases "map_of (sv_clients t) p") (auto simp: seen_def Let_def split: prod.split intro!: calm_updates)

subsection \<open>Steps that answer or ask\<close>

named_theorems dues

lemma due_steps [dues]:
  "due X t \<Longrightarrow> due X (snd (liveSecret cf now x t))" "due X t \<Longrightarrow> due X (snd (bind_secret cf now x c rs m t))"
  "due X t \<Longrightarrow> due X (snd (beginApproval c t))" "due X t \<Longrightarrow> due X (endApproval c b t)"
  "due X t \<Longrightarrow> due X (unbind_opt cf now o' x t)" "due X t \<Longrightarrow> due X (drop_pending a t)" "due X t \<Longrightarrow> due X (confirm a rs t)"
  "due X t \<Longrightarrow> due X (send c i r vs t)" "due X t \<Longrightarrow> due X (sweepSecrets cf now t)" "due X t \<Longrightarrow> due X (disconnectClient cf now c t)"
  "due X t \<Longrightarrow> due X (snd (revokeSecret cf now x t))" "due X t \<Longrightarrow> due X (snd (restore cf now b v t))"
  "due X t \<Longrightarrow> due X (snd (createBunkerUri cf now us' x ttl t))" "due X t \<Longrightarrow> due X (snd (addRelay cf u t))"
  "due X t \<Longrightarrow> due X (snd (seen cf p k t))"
  by (erule due_calm, intro calms)+

lemma due_respond: "due (insert (fl_request f) X) s \<Longrightarrow> due X (respond cf f r s)"
proof (cases "br_method (fl_request f) = ''connect''")
  case True
  assume d: "due (insert (fl_request f) X) s"
  have "heard (send (br_client (fl_request f)) (br_request_id (fl_request f)) a us s) (fl_request f)" if "\<not> sv_stopped s" for a us
    using that by (auto simp: heard_def send_def sv_fields)
  moreover have "sv_stopped (send c i a us s) = sv_stopped s" for c i a us by (simp add: send_def sv_fields)
  ultimately have "due X (send (br_client (fl_request f)) (br_request_id (fl_request f)) a us s)" for a us
    by (intro due_told [OF d] calms) auto
  then show ?thesis using True by (simp add: respond_def goneMeanwhile_def Let_def split: sum.split)
next
  case False
  assume "due (insert (fl_request f) X) s"
  with False have "due X s" by (fastforce simp: due_def)
  moreover have "due X (fly (f\<lparr>fl_kind := Leaving\<rparr>) t)" if "due X t" for t
    using False by (intro due_fly) (auto intro: due_mono [OF that])
  ultimately show ?thesis by (auto simp: respond_def Let_def split: sum.split intro!: dues)
qed

lemma due_respond' [dues]: "due X s \<Longrightarrow> due X (respond cf f r s)"
  by (rule due_respond, erule due_mono) blast

lemma due_scan_ended:
  assumes "due (insert (fl_request f) X) s" shows "due X (scan_ended f e s)"
  by (rule due_told [OF assms]) (auto simp: heard_def scan_ended_def sv_fields intro!: calms)

lemma due_dispatch [dues]: "due X t \<Longrightarrow> due X (dispatch cf now q src t)"
  unfolding dispatch_def connect_def Let_def
  by (intro due.shapes dues due_runHandler; (assumption | simp add: pairing_kind_def)?)

lemma due_onEvent [dues]: "due X t \<Longrightarrow> due X (onEvent cf now e src t)"
  unfolding onEvent_def Let_def
  by (intro due.shapes due.known_or_new dues; assumption?)

lemma due_accept [dues]: "due X t \<Longrightarrow> due X (snd (acceptNostrConnect cf now uri i t))"
  unfolding acceptNostrConnect_def Let_def
  by (intro due.shapes dues due_runHandler; (assumption | simp add: pairing_kind_def)?)

lemma due_admitted:
  assumes "due (insert (fl_request f) X) t" "pairing_kind k"
    and "\<And>u e. due (insert (fl_request f) X) u \<Longrightarrow> due X (g e u)"
  shows "due X (case admit cf now c x us tm b t of (Inl e, u) \<Rightarrow> g e u | (Inr _, u) \<Rightarrow> fly (f\<lparr>fl_kind := k\<rparr>) u)"
proof -
  have "due (insert (fl_request f) X) (snd (admit cf now c x us tm b t))" by (rule due_calm [OF assms(1)]) (intro calms)
  then show ?thesis
    using assms(2,3) by (auto simp: case_prod_beta split: sum.split intro!: due_fly)
qed

lemma due_connected:
  assumes "due (insert (fl_request f) X) s" shows "due X (connected cf now f r s)"
  unfolding connected_def Let_def
  by (intro due.shapes due_respond due_admitted dues assms) (simp_all add: pairing_kind_def)

lemma due_scanned:
  assumes "due (insert (fl_request f) X) s" shows "due X (scanned cf now f r s)"
  unfolding scanned_def Let_def
  by (intro due.shapes due_scan_ended due_admitted dues assms) (simp_all add: pairing_kind_def)

lemma due_settle [dues]: "due X s \<Longrightarrow> due X (settle_flight cf now token r s)"
  using due_land [of X s token]
  by (auto simp: settle_flight_def pairing_kind_def split: option.split flight_kind.split intro!: due_connected due_scanned dues)

lemma due_proceed [dues]:
  assumes "due X s" shows "due X (proceed cf now token s)"
proof (cases "map_of (sv_flights s) token")
  case (Some f)
  have "due X (scan_ended f e (send c i r us (land token s)))" if "pairing_kind (fl_kind f)" for e c i r us
    using due_land [OF assms Some] that by (intro due_scan_ended dues) simp
  with due_land [OF assms Some] assms show ?thesis
    by (auto simp: proceed_def Some pairing_kind_def split: flight_kind.split intro!: due_respond due_steps)
qed (simp add: proceed_def assms)

lemma due_act: "due X s \<Longrightarrow> due X (act cf now op s)"
proof (cases op)
  case Stop
  assume "due X s"
  then show ?thesis by (simp add: act_def Stop stop_def due_def)
next
  case (AuthUrl token url)
  assume d: "due X s"
  have "due X (snd (sendAuthUrl token url s))"
    by (rule due_calm [OF d]) (auto simp: sendAuthUrl_def Let_def split: option.split intro!: calms)
  then show ?thesis by (simp add: act_def AuthUrl)
next
  case Start
  assume d: "due X s"
  have "due X (snd (start s))" by (rule due_calm [OF d]) (auto simp: start_def Let_def intro!: calms)
  then show ?thesis by (simp add: act_def Start)
qed (auto simp: act_def exportState_def Let_def intro: dues)

lemma running_due: "bunker_runs cf s \<Longrightarrow> due {} s"
proof (induction rule: bunker_runs.induct)
  case (built relays generation s)
  then show ?case by (auto simp: BunkerServer_def due_def split: sum.splits if_splits option.splits)
qed (rule due_act)

lemma landed_stays:
  assumes "evolves R t u" "sound t" "token < sv_nextFlight t" "map_of (sv_flights t) token = None"
  shows "map_of (sv_flights u) token = None"
proof -
  have "\<forall>k f. k < sv_nextFlight t \<and> map_of (sv_flights u) k = Some f \<longrightarrow> map_of (sv_flights t) k = Some f"
    using assms(1) [unfolded evolves_def, rule_format, OF assms(2)] by blast
  with assms(3,4) show ?thesis by (metis option.collapse option.distinct(1))
qed

lemma settled_lands:
  assumes "sound s" "map_of (sv_flights s) token = Some f" "fl_kind f = Connecting \<or> fl_kind f = Scanning"
  shows "map_of (sv_flights (settle_flight cf now token r s)) token = None"
proof -
  have "evolves UNIV (land token s) (settle_flight cf now token r s)"
    using assms(2,3) by (auto simp: settle_flight_def intro!: evolving)
  moreover have "sound (land token s)" "token < sv_nextFlight (land token s)" "map_of (sv_flights (land token s)) token = None"
    using assms(1,2) by (auto simp: sound_def land_def record_of_def split: if_splits)
  ultimately show ?thesis by (rule landed_stays)
qed

lemma proceeded_lands:
  assumes "sound s" "map_of (sv_flights s) token = Some f" "fl_kind f = Admitted \<or> fl_kind f = Pairing"
  shows "map_of (sv_flights (proceed cf now token s)) token = None"
proof -
  have "evolves UNIV (land token s) (proceed cf now token s)"
    using assms(2,3) by (auto simp: proceed_def scan_ended_def intro!: evolving)
  moreover have "sound (land token s)" "token < sv_nextFlight (land token s)" "map_of (sv_flights (land token s)) token = None"
    using assms(1,2) by (auto simp: sound_def land_def record_of_def split: if_splits)
  ultimately show ?thesis by (rule landed_stays)
qed

text \<open>C11: While a server runs, every connect its handler was asked about has been answered, or waits in a flight
  that ends as soon as the handler answers or the wait for the relays is over; no wait is left behind.\<close>

theorem every_connect_is_answered:
  assumes "bunker_runs cf s" "\<not> sv_stopped s" "Asked q us \<in> set (sv_log s)" "br_method q = ''connect''"
  shows "(\<exists>r vs. Answered (br_client q) (br_request_id q) r vs \<in> set (sv_log s))
    \<or> (\<exists>e. ScanEnded (br_request_id q) e \<in> set (sv_log s))
    \<or> (\<exists>token f. map_of (sv_flights s) token = Some f \<and> fl_request f = q
        \<and> (if fl_kind f \<in> {Connecting, Scanning}
           then \<forall>now r. map_of (sv_flights (act cf now (Settle token r) s)) token = None
           else \<forall>now. map_of (sv_flights (act cf now (Proceed token) s)) token = None))"
proof -
  note sound = running_sound [OF assms(1)]
  from running_due [OF assms(1)] assms(2-) have "waits s q \<or> heard s q" by (auto simp: due_def)
  then show ?thesis
  proof
    assume "waits s q"
    then obtain token f where f: "map_of (sv_flights s) token = Some f" "fl_request f = q" "pairing_kind (fl_kind f)"
      by (auto simp: waits_def)
    have "if fl_kind f \<in> {Connecting, Scanning}
           then \<forall>now r. map_of (sv_flights (act cf now (Settle token r) s)) token = None
           else \<forall>now. map_of (sv_flights (act cf now (Proceed token) s)) token = None"
    proof (cases "fl_kind f = Connecting \<or> fl_kind f = Scanning")
      case True
      then show ?thesis using settled_lands [OF sound f(1) True] by (simp add: act_def)
    next
      case False
      with f(3) have "fl_kind f = Admitted \<or> fl_kind f = Pairing" by (simp add: pairing_kind_def)
      with False show ?thesis using proceeded_lands [OF sound f(1)] by (simp add: act_def)
    qed
    with f(1,2) show ?thesis by blast
  next
    assume "heard s q"
    then show ?thesis unfolding heard_def by (elim disjE) simp_all
  qed
qed

lemma not_listed: "list_all P xs \<Longrightarrow> \<not> P x \<Longrightarrow> x \<notin> set xs"
  by (auto simp: list_all_iff)

theorem every_connect_is_answered_witness:
  "\<exists>r vs. Answered alice ''m1'' r vs \<in> set (sv_log demo_paired)"
proof -
  let ?q = "\<lparr>br_request_id = ''m1'', br_client = alice, br_method = ''connect'', br_params = [''srv'', ''pw'']\<rparr>"
  have "\<not> sv_stopped demo_paired" by code_simp
  moreover have "Asked ?q [''wss://r''] \<in> set (sv_log demo_paired)" by code_simp
  ultimately have answered: "(\<exists>r vs. Answered alice ''m1'' r vs \<in> set (sv_log demo_paired))
      \<or> (\<exists>e. ScanEnded ''m1'' e \<in> set (sv_log demo_paired)) \<or> sv_flights demo_paired \<noteq> []"
    using every_connect_is_answered [OF demo_running(3), of ?q "[''wss://r'']"] by auto
  have "sv_flights demo_paired = []" by code_simp
  moreover have "list_all (\<lambda>e. case e of ScanEnded _ _ \<Rightarrow> False | _ \<Rightarrow> True) (sv_log demo_paired)" by code_simp
  then have "ScanEnded i e \<notin> set (sv_log demo_paired)" for i e
    by (rule not_listed) simp
  ultimately show ?thesis using answered by simp
qed

end
