(* ===== verification/Spec2Isabelle.thy ===== *)
theory Spec2Isabelle
  imports Perm_Migrate Bounded_Map Pq_Attest Sign_Batch Bunker_Answers
begin

text \<open>
  \<^bold>\<open>A verification of the identity package.\<close> The repository is an SDK for Nostr clients; the
  code that decides what a site may do with a user's keys is in \<^verbatim>\<open>src/packages/identity/src\<close>, with
  the hybrid encryption of \<^verbatim>\<open>packages/pq\<close> and the containers and the storage port of
  \<^verbatim>\<open>packages/sdk\<close> beneath it.

  \<^bold>\<open>Parts and how they interact.\<close> A caller hands a request to the signing core
  (\<^verbatim>\<open>signing/core.ts\<close>). The request passes the boundary (\<^verbatim>\<open>signing/schema.ts\<close>), is resolved for the
  active account, checked against the stored rules (\<^verbatim>\<open>permissions/store.ts\<close> over the cascade of
  \<^verbatim>\<open>permissions/key.ts\<close>) and, for a login, against stored grants
  (\<^verbatim>\<open>permissions/authenticationGrants.ts\<close>), waits in the queue (\<^verbatim>\<open>signing/queue.ts\<close>) for the user, and
  is computed with keys the vault lends for one callback, or by a remote signer whose answer is
  checked (\<^verbatim>\<open>signing/remoteEvent.ts\<close>). Everything is written to a key/value port. The other way
  round, the remote signer server (\<^verbatim>\<open>bunker/server.ts\<close>) pairs clients over relays and hands their
  requests to a handler of the host.

  \<^bold>\<open>Theories.\<close>
  \<^item> \<^verbatim>\<open>Prelude\<close>: objects as association lists with the order of JavaScript, code units, base64 and
    UTF-8, JavaScript values, errors as sums.
  \<^item> \<^verbatim>\<open>Storage\<close>: the port, as the locale \<open>kv_store\<close>, interpreted on the in-memory store
    (\<^verbatim>\<open>sdk/src/storage/memory.ts\<close>) and on its namespaced views (\<^verbatim>\<open>namespaced.ts\<close>).
  \<^item> \<^verbatim>\<open>Perm_Key\<close>: the cascade of keys (\<^verbatim>\<open>key.ts\<close>). A deny at any level consulted wins.
  \<^item> \<^verbatim>\<open>Perm_Scope\<close>: canonical origins, IPv4 and IPv6 hosts, and the labels of a caller (\<^verbatim>\<open>scope.ts\<close>).
  \<^item> \<^verbatim>\<open>Perm_Auth\<close>: the parser of authentication events and the keys of requesters
    (\<^verbatim>\<open>authentication.ts\<close>).
  \<^item> \<^verbatim>\<open>Perm_Port\<close>, \<^verbatim>\<open>Perm_Grants\<close>: what is stored, and the grants (\<^verbatim>\<open>authenticationGrants.ts\<close>).
  \<^item> \<^verbatim>\<open>Perm_Store\<close>, \<^verbatim>\<open>Perm_Rules\<close>, \<^verbatim>\<open>Perm_Migrate\<close>: the class \<open>Permissions\<close>, its caches and its
    migrations (\<^verbatim>\<open>store.ts\<close>); functional properties; the migrations of old formats.
  \<^item> \<^verbatim>\<open>Bounded_Map\<close>: the cache of the relay hub (\<^verbatim>\<open>sdk/src/relay/hub/bounded-map.ts\<close>).
  \<^item> \<^verbatim>\<open>Pq_Envelope\<close>, \<^verbatim>\<open>Pq_Attest\<close>: the hybrid envelope, the post-quantum keys of an account and the
    attestation of them (\<^verbatim>\<open>pq/src/envelope.ts\<close>, \<^verbatim>\<open>index.ts\<close>), over abstract primitives.
  \<^item> \<^verbatim>\<open>Sign_Types\<close>, \<^verbatim>\<open>Sign_Schema\<close>, \<^verbatim>\<open>Approval_Queue\<close>, \<^verbatim>\<open>Sign_Remote\<close>: data and limits of the signer, the
    request boundary, the queue, the check of remote answers.
  \<^item> \<^verbatim>\<open>Effects\<close>: an asynchronous method as a tree of calls; its runs against a script of answers and
    of what other calls do while it waits; weakest preconditions (\<open>wp\<close>), conditions on the history
    alone (\<open>ok\<close>), and the locale \<open>environment\<close> whose theorem turns either into a fact about runs.
  \<^item> \<^verbatim>\<open>Sign_Ports\<close>: the ports of the core as calls, its fields as the record \<open>core\<close>, its synchronous
    methods, and what other calls can do to it (\<open>host_step\<close>), with the interpretation of
    \<open>environment\<close>.
  \<^item> \<^verbatim>\<open>Sign_Core\<close>: the pipeline, one definition per private method of \<open>SignerCore\<close> and per numbered
    stage of its \<open>run\<close>, and \<open>withPqKeys\<close>.
  \<^item> \<^verbatim>\<open>Sign_Safety\<close>, \<^verbatim>\<open>Sign_Runs\<close>: the condition under which each call may be made
    (\<open>allowed_call\<close>), and that every stage keeps it.
  \<^item> \<^verbatim>\<open>Sign_Claims\<close>: what follows for every run of \<open>handle\<close> and \<open>handleSelf\<close>.
  \<^item> \<^verbatim>\<open>Sign_Log\<close>, \<^verbatim>\<open>Sign_Batch\<close>: bounds on the number of calls, so that every request and every batch
    ends; the activity log; the shape of the answer to a batch.
  \<^item> \<^verbatim>\<open>Bunker_Wire\<close>, \<^verbatim>\<open>Bunker_Server\<close>, \<^verbatim>\<open>Bunker_State\<close>, \<^verbatim>\<open>Bunker_Steps\<close>: the remote signer server
    (\<^verbatim>\<open>bunker/server.ts\<close>, \<^verbatim>\<open>state.ts\<close>, \<^verbatim>\<open>codec.ts\<close>, \<^verbatim>\<open>uri.ts\<close>): its messages and pairing links, the class
    with one definition per method and one step per stretch between two awaits, its state on disk,
    and the operations that can come in any order (\<open>act\<close>); \<^verbatim>\<open>Bunker_Demo\<close> is a run of it.
  \<^item> \<^verbatim>\<open>Bunker_Frame\<close>, \<^verbatim>\<open>Bunker_Evolves\<close>: what an operation leaves alone, as the relation \<open>evolves\<close>, and
    the locale \<open>server_shapes\<close> by which predicates are carried through the code.
  \<^item> \<^verbatim>\<open>Bunker_Safety\<close>, \<^verbatim>\<open>Bunker_Bounds\<close>, \<^verbatim>\<open>Bunker_Admission\<close>, \<^verbatim>\<open>Bunker_Backing\<close>, \<^verbatim>\<open>Bunker_Pairing\<close>: pairing and
    revocation, ceilings, who reaches the handler, the count of approvals, restarts.
  \<^item> \<^verbatim>\<open>Bunker_Restart\<close>, \<^verbatim>\<open>Bunker_Answers\<close>: refused and accepted states, events delivered twice, backups that
    are lost; no connect is left without an answer.

  \<^bold>\<open>What the groups of lemmas show.\<close> For data: canonical spellings are fixed points, keys never
  collide, encodings are undone by their decoders. For stores: caches equal what is stored, a
  write that fails changes nothing, a saved decision is read back under every spelling, refusals
  survive every migration. For the pipeline: no call before the rules allow it, no key but the
  account's, nothing signed that was not asked for and, where a prompt was needed, shown;
  nothing remembered that the user did not ask to have remembered; one log entry; an end. For the
  remote signer server: nobody is connected without a confirmed secret of its own, a revocation is
  final for approvals in flight and for stored states, an exported state comes back as it was, a refused
  one changes nothing, every pairing is answered, and the ceilings hold.

  \<^bold>\<open>Bounds and fuel.\<close> No definition uses fuel. A program is a finite tree, and a script that is too
  short leaves it waiting for the call it names; 99 answers are enough for any request, and
  38 for each item and 25 more for any batch.

  \<^bold>\<open>Not modelled.\<close> Timers (a time-out is an operation of the queue that may come at any moment), log
  lines, freezing, the zeroing of buffers, the text of the Unicode beyond code units below 256 in
  host names, cryptographic primitives (parameters with their documented round trips), the
  vault, the sockets of the remote signer server, the relay and data layers, the web of trust, wallets, and the
  user interface.
\<close>

end
